(* ===== verification/Ng_Prelude.thy ===== *)
theory Ng_Prelude
  imports Main "HOL-Library.Word" "HOL-Library.Monad_Syntax"
begin

text \<open>
  Shared vocabulary of the development: the machine integers of the C code, byte order
  conversions, reads of a buffer that may go out of bounds, C strings, and the generic
  facts about them that the component theories use.

  A read outside its buffer is undefined behaviour in C. It is the value \<open>None\<close> of an
  option throughout; that a routine never returns \<open>None\<close> is its memory safety.
  The host is little endian, as every Android ABI is.
\<close>

unbundle bit_operations_syntax

type_synonym u8 = "8 word"
type_synonym u16 = "16 word"
type_synonym u32 = "32 word"
type_synonym u64 = "64 word"
type_synonym bytes = "u8 list"

named_theorems wordarith \<open>values of the byte order conversions as natural numbers\<close>
named_theorems bufsafe \<open>reads and slices inside their buffer\<close>

section \<open>Byte order\<close>

text \<open>\<open>ntohs\<close> of two bytes in memory, and the bytes \<open>htons\<close> leaves in memory.\<close>

definition be16 :: "u8 \<Rightarrow> u8 \<Rightarrow> u16" where
  "be16 a b = push_bit 8 (ucast a) OR ucast b"

definition be32 :: "u8 \<Rightarrow> u8 \<Rightarrow> u8 \<Rightarrow> u8 \<Rightarrow> u32" where
  "be32 a b c d = push_bit 16 (ucast (be16 a b)) OR ucast (be16 c d)"

text \<open>A 16-bit load of two bytes on the little endian host.\<close>

definition le16 :: "u8 \<Rightarrow> u8 \<Rightarrow> u16" where
  "le16 a b = be16 b a"

definition u16_be :: "u16 \<Rightarrow> bytes" where
  "u16_be w = [ucast (drop_bit 8 w), ucast w]"

definition u32_be :: "u32 \<Rightarrow> bytes" where
  "u32_be w = u16_be (ucast (drop_bit 16 w)) @ u16_be (ucast w)"

definition u16_le :: "u16 \<Rightarrow> bytes" where
  "u16_le w = [ucast w, ucast (drop_bit 8 w)]"

definition u32_le :: "u32 \<Rightarrow> bytes" where
  "u32_le w = u16_le (ucast w) @ u16_le (ucast (drop_bit 16 w))"

lemma unat_take_id:
  "n < 2 ^ m \<Longrightarrow> take_bit m (n :: nat) = n"
  by (rule take_bit_nat_eq_self)

lemma or_disjoint_add:
  fixes a :: nat
  assumes "b < 2 ^ n"
  shows "push_bit n a OR b = a * 2 ^ n + b"
proof -
  have "push_bit n a AND b = 0"
  proof (rule bit_eqI)
    fix m
    show "bit (push_bit n a AND b) m \<longleftrightarrow> bit (0::nat) m"
    proof (cases "m < n")
      case True
      then show ?thesis by (simp add: bit_and_iff bit_push_bit_iff)
    next
      case False
      have "b = take_bit n b" using assms by (simp add: take_bit_nat_eq_self)
      then have "\<not> bit b m" using False by (metis bit_take_bit_iff)
      then show ?thesis by (simp add: bit_and_iff)
    qed
  qed
  then have "push_bit n a OR b = push_bit n a + b"
    by (metis disjunctive_add_eq_or)
  then show ?thesis by (simp add: push_bit_eq_mult)
qed

lemma unat_u8_lt: "unat (a :: u8) < 256"
  using unsigned_less [of a] by simp

lemma unat_u16_lt: "unat (a :: u16) < 65536"
  using unsigned_less [of a] by simp

lemma unat_u32_lt: "unat (a :: u32) < 4294967296"
  using unsigned_less [of a] by simp

lemma unat_push_or:
  fixes a :: "'a::len word" and b :: "'b::len word"
  assumes "LENGTH('a) + n \<le> LENGTH('c::len)" and "LENGTH('b) \<le> n" and "n \<le> LENGTH('c)"
  shows "unat (push_bit n (ucast a :: 'c word) OR ucast b) = 2 ^ n * unat a + unat b"
proof -
  have b: "unat b < 2 ^ n"
    using unsigned_less [of b] assms(2) by (meson order_less_le_trans one_le_numeral power_increasing)
  have "unat a * 2 ^ n < 2 ^ LENGTH('a) * 2 ^ n"
    using unsigned_less [of a] by simp
  also have "\<dots> \<le> 2 ^ LENGTH('c)"
    using assms(1) by (simp add: power_add [symmetric])
  finally have a: "unat a * 2 ^ n < 2 ^ LENGTH('c)" .
  have ua: "unat (ucast a :: 'c word) = unat a"
    using assms(1) by (simp add: unsigned_ucast_eq take_bit_nat_eq_self_iff)
      (meson add_leE order_less_le_trans one_le_numeral power_increasing unsigned_less)
  have ub: "unat (ucast b :: 'c word) = unat b"
    using b assms(3) by (simp add: unsigned_ucast_eq take_bit_nat_eq_self_iff)
      (meson order_less_le_trans one_le_numeral power_increasing)
  have "unat (push_bit n (ucast a :: 'c word)) = push_bit n (unat a)"
    using a ua take_bit_nat_eq_self [of "push_bit n (unat a)" "LENGTH('c)"]
    by (simp only: unsigned_push_bit_eq push_bit_nat_def)
  then show ?thesis
    using or_disjoint_add [OF b, of "unat a"]
    by (simp only: unsigned_or_eq ub mult.commute)
qed

lemma unat_be16 [wordarith]: "unat (be16 a b) = 256 * unat a + unat b"
  unfolding be16_def by (subst unat_push_or) simp_all

lemma unat_le16 [wordarith]: "unat (le16 a b) = unat a + 256 * unat b"
  by (simp add: le16_def unat_be16)

lemma unat_be32 [wordarith]:
  "unat (be32 a b c d) = 65536 * unat (be16 a b) + unat (be16 c d)"
  unfolding be32_def by (subst unat_push_or) simp_all

lemma unat_hi_u16 [wordarith]: "unat (ucast (drop_bit 8 (w :: u16)) :: u8) = unat w div 256"
proof -
  have "unat (drop_bit 8 w) = unat w div 256"
    by (simp add: unat_drop_bit_eq drop_bit_nat_def)
  moreover have "unat w div 256 < 2 ^ 8"
    using unat_u16_lt [of w] by (intro less_mult_imp_div_less) simp
  ultimately show ?thesis
    by (simp only: unsigned_ucast_eq) (simp add: take_bit_nat_eq_self)
qed

lemma unat_lo_u16 [wordarith]: "unat (ucast (w :: u16) :: u8) = unat w mod 256"
  by (simp add: unsigned_ucast_eq take_bit_eq_mod)

lemma unat_hi_u32 [wordarith]: "unat (ucast (drop_bit 16 (w :: u32)) :: u16) = unat w div 65536"
proof -
  have "unat (drop_bit 16 w) = unat w div 65536"
    by (simp add: unat_drop_bit_eq drop_bit_nat_def)
  moreover have "unat w div 65536 < 2 ^ 16"
    using unat_u32_lt [of w] by (intro less_mult_imp_div_less) simp
  ultimately show ?thesis
    by (simp only: unsigned_ucast_eq) (simp add: take_bit_nat_eq_self)
qed

lemma unat_lo_u32 [wordarith]: "unat (ucast (w :: u32) :: u16) = unat w mod 65536"
  by (simp add: unsigned_ucast_eq take_bit_eq_mod)

lemma be16_u16 [simp]: "be16 (ucast (drop_bit 8 w)) (ucast (w :: u16)) = w"
  unfolding word_unat_eq_iff unat_be16 unat_hi_u16
  unfolding unat_lo_u16 by (rule mult_div_mod_eq)

lemma le16_u16 [simp]: "le16 (ucast (w :: u16)) (ucast (drop_bit 8 w)) = w"
  by (simp add: le16_def)

lemma be32_u32:
  "be32 (ucast (drop_bit 8 (ucast (drop_bit 16 w) :: u16))) (ucast (ucast (drop_bit 16 w) :: u16))
     (ucast (drop_bit 8 (ucast w :: u16))) (ucast (ucast w :: u16)) = (w :: u32)"
  unfolding word_unat_eq_iff unat_be32 be16_u16 unat_hi_u32
  unfolding unat_lo_u32 by (rule mult_div_mod_eq)

lemma length_u16_be [simp]: "length (u16_be w) = 2"
  by (simp add: u16_be_def)

lemma length_u32_be [simp]: "length (u32_be w) = 4"
  by (simp add: u32_be_def)

lemma length_u16_le [simp]: "length (u16_le w) = 2"
  by (simp add: u16_le_def)

lemma length_u32_le [simp]: "length (u32_le w) = 4"
  by (simp add: u32_le_def)

section \<open>Buffers\<close>

text \<open>One byte, a run of \<open>n\<close> bytes, a network order 16-bit or 32-bit field, at an offset.\<close>

definition rd :: "bytes \<Rightarrow> nat \<Rightarrow> u8 option" where
  "rd xs i = (if i < length xs then Some (xs ! i) else None)"

definition slice :: "bytes \<Rightarrow> nat \<Rightarrow> nat \<Rightarrow> bytes option" where
  "slice xs i n = (if i + n \<le> length xs then Some (take n (drop i xs)) else None)"

definition rd16 :: "bytes \<Rightarrow> nat \<Rightarrow> u16 option" where
  "rd16 xs i = do { a \<leftarrow> rd xs i; b \<leftarrow> rd xs (i + 1); Some (be16 a b) }"

definition rd32 :: "bytes \<Rightarrow> nat \<Rightarrow> u32 option" where
  "rd32 xs i = do { a \<leftarrow> rd xs i; b \<leftarrow> rd xs (i + 1); c \<leftarrow> rd xs (i + 2); d \<leftarrow> rd xs (i + 3);
     Some (be32 a b c d) }"

lemma rd_ex: "i < length xs \<Longrightarrow> \<exists>v. rd xs i = Some v"
  by (simp add: rd_def)

lemma rd16_ex: "i + 1 < length xs \<Longrightarrow> \<exists>v. rd16 xs i = Some v"
  by (simp add: rd16_def rd_def)

lemma rd32_ex: "i + 3 < length xs \<Longrightarrow> \<exists>v. rd32 xs i = Some v"
  by (simp add: rd32_def rd_def)

text \<open>Store a byte or a run of bytes at an offset, as a write through a pointer.\<close>

definition wr :: "bytes \<Rightarrow> nat \<Rightarrow> bytes \<Rightarrow> bytes option" where
  "wr xs i ys = (if i + length ys \<le> length xs
     then Some (take i xs @ ys @ drop (i + length ys) xs) else None)"

lemma rd_Some [bufsafe]: "i < length xs \<Longrightarrow> rd xs i = Some (xs ! i)"
  by (simp add: rd_def)

lemma rd_eq_Some_iff: "rd xs i = Some v \<longleftrightarrow> i < length xs \<and> v = xs ! i"
  by (auto simp: rd_def)

lemma slice_Some [bufsafe]: "i + n \<le> length xs \<Longrightarrow> slice xs i n = Some (take n (drop i xs))"
  by (simp add: slice_def)

lemma length_slice: "slice xs i n = Some ys \<Longrightarrow> length ys = n"
  by (auto simp: slice_def split: if_splits)

lemma rd16_Some [bufsafe]:
  "i + 1 < length xs \<Longrightarrow> rd16 xs i = Some (be16 (xs ! i) (xs ! (i + 1)))"
  by (simp add: rd16_def rd_def)

lemma rd32_Some [bufsafe]:
  "i + 3 < length xs \<Longrightarrow>
   rd32 xs i = Some (be32 (xs ! i) (xs ! (i + 1)) (xs ! (i + 2)) (xs ! (i + 3)))"
  by (simp add: rd32_def rd_def)

lemma rd16_u16_be: "rd16 (xs @ u16_be w @ ys) (length xs) = Some w"
  by (simp add: rd16_def rd_def u16_be_def nth_append)

lemma rd32_u32_be: "rd32 (xs @ u32_be w @ ys) (length xs) = Some w"
  by (simp add: rd32_def rd_def u32_be_def u16_be_def nth_append be32_u32)

lemma rd16_mid: "length xs = i \<Longrightarrow> rd16 (xs @ u16_be w @ ys) i = Some w"
  using rd16_u16_be [of xs w ys] by simp

lemma rd32_mid: "length xs = i \<Longrightarrow> rd32 (xs @ u32_be w @ ys) i = Some w"
  using rd32_u32_be [of xs w ys] by simp

lemma wr_Some [bufsafe]:
  "i + length ys \<le> length xs \<Longrightarrow>
   wr xs i ys = Some (take i xs @ ys @ drop (i + length ys) xs)"
  by (simp add: wr_def)

lemma length_wr: "wr xs i ys = Some zs \<Longrightarrow> length zs = length xs"
  by (auto simp: wr_def split: if_splits)

lemma unat_of_nat16: "n < 65536 \<Longrightarrow> unat (of_nat n :: u16) = n"
  by (simp add: unat_of_nat)

lemma unat_of_nat32: "n < 4294967296 \<Longrightarrow> unat (of_nat n :: u32) = n"
  by (simp add: unat_of_nat)

lemma of_nat32_inject: "(of_nat x :: u32) = of_nat y \<Longrightarrow> x < 4294967296 \<Longrightarrow> y < 4294967296 \<Longrightarrow> x = y"
  by (metis unat_of_nat32)

lemma unat_of_nat8: "n < 256 \<Longrightarrow> unat (of_nat n :: u8) = n"
  by (simp add: unat_of_nat)

lemma rd_at: "i = length xs \<Longrightarrow> rd (xs @ w # ys) i = Some w"
  by (simp add: rd_def)

lemma slice_at: "i = length xs \<Longrightarrow> n = length w \<Longrightarrow> slice (xs @ w @ ys) i n = Some w"
  by (simp add: slice_def)

lemma take_exact: "length xs = n \<Longrightarrow> take n (xs @ ys) = xs"
  by simp

section \<open>Total correctness of reads\<close>

text \<open>\<open>good P m\<close>: the computation \<open>m\<close> makes no read outside a buffer and its result
  satisfies \<open>P\<close>. The rules follow the shape of the code: a guard with an early return, a read
  followed by the rest.\<close>

definition good :: "('a \<Rightarrow> bool) \<Rightarrow> 'a option \<Rightarrow> bool" where
  "good P m \<longleftrightarrow> (\<exists>r. m = Some r \<and> P r)"

named_theorems good_intro \<open>rules of the \<open>good\<close> predicate\<close>

lemma good_Some [good_intro]: "P r \<Longrightarrow> good P (Some r)"
  by (simp add: good_def)

lemma good_if [good_intro]:
  "(c \<Longrightarrow> good P m) \<Longrightarrow> (\<not> c \<Longrightarrow> good P n) \<Longrightarrow> good P (if c then m else n)"
  by simp

lemma good_rd [good_intro]:
  "i < length xs \<Longrightarrow> (\<And>v. rd xs i = Some v \<Longrightarrow> good P (f v)) \<Longrightarrow> good P (rd xs i \<bind> f)"
  by (simp add: rd_def)

lemma good_rd16 [good_intro]:
  "i + 1 < length xs \<Longrightarrow> (\<And>v. rd16 xs i = Some v \<Longrightarrow> good P (f v)) \<Longrightarrow> good P (rd16 xs i \<bind> f)"
  using rd16_ex [of i xs] by auto

lemma good_rd32 [good_intro]:
  "i + 3 < length xs \<Longrightarrow> (\<And>v. rd32 xs i = Some v \<Longrightarrow> good P (f v)) \<Longrightarrow> good P (rd32 xs i \<bind> f)"
  using rd32_ex [of i xs] by auto

lemma good_slice [good_intro]:
  "i + n \<le> length xs \<Longrightarrow> (\<And>ys. slice xs i n = Some ys \<Longrightarrow> good P (f ys)) \<Longrightarrow>
   good P (slice xs i n \<bind> f)"
  by (simp add: slice_def)

lemma good_bind:
  "good Q m \<Longrightarrow> (\<And>r. m = Some r \<Longrightarrow> Q r \<Longrightarrow> good P (f r)) \<Longrightarrow> good P (m \<bind> f)"
  by (auto simp: good_def)

lemma good_mono: "good P m \<Longrightarrow> (\<And>r. P r \<Longrightarrow> Q r) \<Longrightarrow> good Q m"
  by (auto simp: good_def)

section \<open>Partial correctness\<close>

text \<open>\<open>yields m P\<close>: the result of \<open>m\<close>, if there is one, satisfies \<open>P\<close>. The rules follow the shape
  of a definition and name what each part returned.\<close>

definition yields :: "'a option \<Rightarrow> ('a \<Rightarrow> bool) \<Rightarrow> bool" where
  "yields m P \<longleftrightarrow> (\<forall>r. m = Some r \<longrightarrow> P r)"

named_theorems yields_intro \<open>rules of the \<open>yields\<close> predicate\<close>

lemma yieldsI: "(\<And>r. m = Some r \<Longrightarrow> P r) \<Longrightarrow> yields m P"
  by (simp add: yields_def)

lemma yieldsD: "yields m P \<Longrightarrow> m = Some r \<Longrightarrow> P r"
  by (simp add: yields_def)

lemma yields_Some [yields_intro]: "P r \<Longrightarrow> yields (Some r) P"
  by (simp add: yields_def)

lemma yields_None [yields_intro]: "yields None P"
  by (simp add: yields_def)

lemma yields_bind [yields_intro]: "(\<And>r. m = Some r \<Longrightarrow> yields (f r) P) \<Longrightarrow> yields (m \<bind> f) P"
  by (cases m) (simp_all add: yields_def)

lemma yields_if [yields_intro]: "(c \<Longrightarrow> yields m P) \<Longrightarrow> (\<not> c \<Longrightarrow> yields n P) \<Longrightarrow> yields (if c then m else n) P"
  by simp

lemma yields_Let [yields_intro]: "(\<And>y. y = x \<Longrightarrow> yields (f y) P) \<Longrightarrow> yields (Let x f) P"
  by simp

lemma yields_prod [yields_intro]: "(\<And>a b. x = (a, b) \<Longrightarrow> yields (f a b) P) \<Longrightarrow> yields (case x of (a, b) \<Rightarrow> f a b) P"
  by (cases x) simp

lemma yields_option [yields_intro]:
  "(x = None \<Longrightarrow> yields m P) \<Longrightarrow> (\<And>y. x = Some y \<Longrightarrow> yields (f y) P) \<Longrightarrow>
   yields (case x of None \<Rightarrow> m | Some y \<Rightarrow> f y) P"
  by (cases x) simp_all

section \<open>C strings\<close>

text \<open>The C string held in a buffer: the bytes before the first NUL.\<close>

definition cstr :: "bytes \<Rightarrow> bytes" where
  "cstr xs = takeWhile (\<lambda>c. c \<noteq> 0) xs"

lemma cstr_no_nul: "0 \<notin> set (cstr xs)"
  by (auto simp: cstr_def dest: set_takeWhileD)

lemma cstr_id: "0 \<notin> set xs \<Longrightarrow> cstr xs = xs"
  by (simp add: cstr_def takeWhile_eq_all_conv) metis

lemma cstr_append_nul: "0 \<notin> set xs \<Longrightarrow> cstr (xs @ 0 # ys) = xs"
  by (simp add: cstr_def) (metis (mono_tags, lifting) append_Nil2 takeWhile.simps(2) takeWhile_append2)

end
