(* ===== verification/Ng_Util.thy ===== *)
theory Ng_Util
  imports Ng_Prelude
begin

text \<open>
  The pure routines of netguard/util.c: the Internet checksum, the comparison of TCP sequence
  numbers, and the hexadecimal conversions. The checksum is related to a reference definition
  on natural numbers (one's complement sum), from which the laws the packet builders rely on
  follow: it can be continued over an appended buffer, and a region whose check field holds
  its complement sums to 0xFFFF.
\<close>

section \<open>calc_checksum\<close>

text \<open>The summing loop: 16-bit loads in host order, then a trailing odd byte.\<close>

fun checksum_loop :: "u32 \<Rightarrow> bytes \<Rightarrow> u32" where
  "checksum_loop s (a # b # buf) = checksum_loop (s + ucast (le16 a b)) buf"
| "checksum_loop s [a] = s + ucast a"
| "checksum_loop s [] = s"

text \<open>The carry loop: \<open>while (s >> 16) s = (s & 0xFFFF) + (s >> 16)\<close>.\<close>

lemma carry_step:
  "unat ((s AND 0xFFFF) + drop_bit 16 (s :: u32)) = unat s mod 65536 + unat s div 65536"
proof -
  have m: "unat (s AND 0xFFFF) = unat s mod 65536"
  proof -
    have "s AND 0xFFFF = take_bit 16 s"
      by (simp add: take_bit_eq_mask mask_eq_exp_minus_1)
    then show ?thesis by (simp only: unsigned_take_bit_eq) (simp only: take_bit_nat_def, simp)
  qed
  have d: "unat (drop_bit 16 s) = unat s div 65536"
    by (simp add: unat_drop_bit_eq drop_bit_nat_def)
  have "unat s div 65536 < 65536"
    using unat_u32_lt [of s] by (intro less_mult_imp_div_less) simp
  then have "unat s mod 65536 + unat s div 65536 < 2 ^ 32"
    by (simp add: order_less_trans [OF add_less_le_mono [OF mod_less_divisor less_imp_le]])
  then show ?thesis
    by (simp add: unat_word_ariths m d)
qed

lemma unat_hi_zero_iff: "drop_bit 16 (s :: u32) = 0 \<longleftrightarrow> unat s < 65536"
proof -
  have d: "unat (drop_bit 16 s) = unat s div 65536"
    by (simp add: unat_drop_bit_eq drop_bit_nat_def)
  show ?thesis
    by (simp add: d unat_eq_0 [symmetric] div_eq_0_iff del: unat_eq_0)
qed

function fold_carry :: "u32 \<Rightarrow> u32" where
  "fold_carry s =
     (if drop_bit 16 s \<noteq> 0 then fold_carry ((s AND 0xFFFF) + drop_bit 16 s) else s)"
  by pat_completeness auto
termination
proof (relation "measure unat")
  fix s :: u32
  assume "drop_bit 16 s \<noteq> 0"
  then have "65536 \<le> unat s" by (simp add: unat_hi_zero_iff)
  then have "unat s mod 65536 + unat s div 65536 < unat s"
    using mult_div_mod_eq [of 65536 "unat s"] div_greater_zero_iff [of "unat s" 65536] by linarith
  then show "((s AND 0xFFFF) + drop_bit 16 s, s) \<in> measure unat"
    by (simp add: carry_step)
qed simp

declare fold_carry.simps [simp del]

definition calc_checksum :: "u16 \<Rightarrow> bytes \<Rightarrow> u16" where
  "calc_checksum start buffer = ucast (fold_carry (checksum_loop (ucast start) buffer))"


section \<open>The reference: one's complement sum\<close>

text \<open>The 16-bit words of a buffer added up as natural numbers, and the representative of a
  number modulo 65535 that the carry loop ends in: 0 for 0, else between 1 and 65535.\<close>

fun word_sum :: "bytes \<Rightarrow> nat" where
  "word_sum (a # b # xs) = unat (le16 a b) + word_sum xs"
| "word_sum [a] = unat a"
| "word_sum [] = 0"

definition ones :: "nat \<Rightarrow> nat" where
  "ones n = (if n = 0 then 0 else (n - 1) mod 65535 + 1)"

lemma ones_le: "ones n \<le> 65535"
  unfolding ones_def using mod_less_divisor [of 65535 "n - 1"] by (simp del: mod_less_divisor)

lemma ones_small: "n < 65536 \<Longrightarrow> ones n = n"
  by (auto simp: ones_def)

lemma ones_zero_iff: "ones n = 0 \<longleftrightarrow> n = 0"
  by (simp add: ones_def)

lemma ones_mod: "ones n mod 65535 = n mod 65535"
proof (cases n)
  case (Suc m)
  then show ?thesis by (simp add: ones_def mod_Suc_eq)
qed (simp add: ones_def)

lemma ones_cong:
  assumes "a mod 65535 = b mod 65535" and "0 < a" and "0 < b"
  shows "ones a = ones b"
proof -
  obtain x y where xy: "a = Suc x" "b = Suc y"
    using assms(2,3) by (metis gr0_implies_Suc)
  then have "Suc x mod 65535 = Suc y mod 65535" using assms(1) by simp
  then have "x mod 65535 = y mod 65535"
    by (auto simp: mod_Suc split: if_splits)
  then show ?thesis by (simp add: ones_def xy)
qed

lemma ones_add_left: "ones (ones a + b) = ones (a + b)"
proof (cases "a + b = 0")
  case False
  show ?thesis
  proof (rule ones_cong)
    show "(ones a + b) mod 65535 = (a + b) mod 65535"
      by (metis mod_add_left_eq ones_mod)
    show "0 < ones a + b" using False ones_zero_iff [of a] by (cases "a = 0") auto
    show "0 < a + b" using False by simp
  qed
qed (simp add: ones_def)

lemma ones_complement: "ones (n + (65535 - ones n)) = 65535"
proof -
  have "(n + (65535 - ones n)) mod 65535 = (ones n + (65535 - ones n)) mod 65535"
    by (metis mod_add_left_eq ones_mod)
  also have "\<dots> = 0" using ones_le [of n] by simp
  finally have m: "(n + (65535 - ones n)) mod 65535 = 65535 mod 65535" by simp
  have "0 < n + (65535 - ones n)"
    using ones_zero_iff [of n] by (cases "n = 0") auto
  then have "ones (n + (65535 - ones n)) = ones 65535"
    using m by (intro ones_cong) auto
  then show ?thesis by (simp add: ones_def)
qed

lemma word_sum_bound: "word_sum xs \<le> 65535 * ((length xs + 1) div 2)"
proof (induction xs rule: word_sum.induct)
  case (1 a b xs)
  have "unat (le16 a b) \<le> 65535" using unat_u16_lt [of "le16 a b"] by simp
  with 1 show ?case by simp
next
  case (2 a)
  then show ?case using unat_u8_lt [of a] by simp
qed simp

lemma word_sum_append:
  "even (length xs) \<Longrightarrow> word_sum (xs @ ys) = word_sum xs + word_sum ys"
  by (induction xs rule: word_sum.induct) auto

lemma word_sum_u16_le: "word_sum (u16_le w @ ys) = unat w + word_sum ys"
  by (simp add: u16_le_def)

lemma checksum_loop_sum:
  "unat s + word_sum xs < 2 ^ 32 \<Longrightarrow> unat (checksum_loop s xs) = unat s + word_sum xs"
proof (induction s xs rule: checksum_loop.induct)
  case (1 s a b buf)
  have "unat (ucast (le16 a b) :: u32) = unat (le16 a b)"
    using unat_u16_lt [of "le16 a b"]
    by (simp only: unsigned_ucast_eq) (simp add: take_bit_nat_eq_self)
  moreover have "unat s + unat (le16 a b) < 2 ^ 32" using "1.prems" by simp
  ultimately have "unat (s + ucast (le16 a b)) = unat s + unat (le16 a b)"
    by (simp add: unat_word_ariths)
  with 1 show ?case by simp
next
  case (2 s a)
  have "unat (ucast a :: u32) = unat a"
    using unat_u8_lt [of a]
    by (simp only: unsigned_ucast_eq) (simp add: take_bit_nat_eq_self)
  with 2 show ?case by (simp add: unat_word_ariths)
qed simp

lemma fold_carry_ones: "unat (fold_carry s) = ones (unat s)"
proof (induction s rule: fold_carry.induct)
  case (1 s)
  show ?case
  proof (cases "drop_bit 16 s = 0")
    case True
    then show ?thesis by (subst fold_carry.simps) (simp add: unat_hi_zero_iff ones_small)
  next
    case False
    let ?t = "(s AND 0xFFFF) + drop_bit 16 s"
    have big: "65536 \<le> unat s" using False by (simp add: unat_hi_zero_iff)
    have "unat s = unat s mod 65536 + 65536 * (unat s div 65536)" by simp
    then have "unat s = unat ?t + 65535 * (unat s div 65536)"
      unfolding carry_step by linarith
    then have "unat s mod 65535 = unat ?t mod 65535"
      by (metis mod_mult_self2)
    moreover have "0 < unat ?t"
      using big by (simp add: carry_step div_greater_zero_iff)
    ultimately have "ones (unat s) = ones (unat ?t)"
      using big by (intro ones_cong) auto
    moreover have "unat (fold_carry s) = unat (fold_carry ?t)"
      using False by (subst fold_carry.simps) simp
    ultimately show ?thesis using 1 [OF False] by simp
  qed
qed

lemma calc_checksum_ones:
  assumes "length xs \<le> 65536"
  shows "unat (calc_checksum start xs) = ones (unat start + word_sum xs)"
proof -
  have "(length xs + 1) div 2 \<le> 32768" using assms by linarith
  then have "word_sum xs \<le> 65535 * 32768"
    using word_sum_bound [of xs] by linarith
  then have "unat start + word_sum xs < 2 ^ 32"
    using unat_u16_lt [of start] by simp
  moreover have st: "unat (ucast start :: u32) = unat start"
    using unat_u16_lt [of start]
    by (simp only: unsigned_ucast_eq) (simp add: take_bit_nat_eq_self)
  ultimately have "unat (checksum_loop (ucast start) xs) = unat start + word_sum xs"
    by (simp add: checksum_loop_sum)
  then have "unat (fold_carry (checksum_loop (ucast start) xs)) = ones (unat start + word_sum xs)"
    by (simp add: fold_carry_ones)
  then show ?thesis
    using ones_le [of "unat start + word_sum xs"]
    by (simp add: calc_checksum_def unat_lo_u32)
qed


section \<open>The contract of the checksum\<close>

text \<open>What the packet builders rely on: the checksum of a buffer may be computed piecewise when
  the first piece has even length, and a buffer whose check field holds the complement of the
  checksum taken with a zero field sums to 0xFFFF.\<close>

locale inet_checksum =
  fixes ck :: "u16 \<Rightarrow> bytes \<Rightarrow> u16"
  assumes ck_append: "even (length xs) \<Longrightarrow> length xs + length ys \<le> 65536 \<Longrightarrow>
      ck s (xs @ ys) = ck (ck s xs) ys"
    and ck_field: "even (length xs) \<Longrightarrow> length xs + length ys + 2 \<le> 65536 \<Longrightarrow>
      ck s (xs @ u16_le (NOT (ck s (xs @ [0, 0] @ ys))) @ ys) = 0xFFFF"
begin

lemma ck_chain:
  assumes "even (length p)" and "even (length h)" and "length p + length h + length d \<le> 65536"
  shows "ck (ck (ck s p) h) d = ck s (p @ h @ d)"
  using assms ck_append [of p "h @ d" s] ck_append [of h d "ck s p"] by simp

text \<open>A pseudo header, a transport header with its check field and the payload, summed in turn.\<close>

lemma ck_transport:
  assumes "even (length p)" and "even (length h1)" and "even (length h2)"
    and "length p + length h1 + length h2 + length d + 2 \<le> 65536"
  shows "ck s (p @ h1 @ u16_le (NOT (ck (ck (ck s p) (h1 @ [0, 0] @ h2)) d)) @ h2 @ d) = 0xFFFF"
proof -
  have "ck (ck (ck s p) (h1 @ [0, 0] @ h2)) d = ck s ((p @ h1) @ [0, 0] @ (h2 @ d))"
    using assms by (subst ck_chain) auto
  then show ?thesis
    using ck_field [of "p @ h1" "h2 @ d" s] assms by simp
qed

end

lemma unat_not_u16: "unat (NOT (w :: u16)) = 65535 - unat w"
proof -
  have "NOT w = 65535 - w" by (simp add: not_eq_complement)
  moreover have "unat (65535 - w) = unat (65535 :: u16) - unat w"
    using unat_u16_lt [of w] by (intro unat_sub) (simp add: word_le_nat_alt)
  ultimately show ?thesis by simp
qed

interpretation cksum: inet_checksum calc_checksum
proof unfold_locales
  fix xs ys :: bytes and s :: u16
  assume e: "even (length xs)" and l: "length xs + length ys \<le> 65536"
  have "unat (calc_checksum s (xs @ ys)) = ones (unat s + word_sum xs + word_sum ys)"
    using l by (simp add: calc_checksum_ones word_sum_append [OF e] add.assoc)
  also have "\<dots> = ones (ones (unat s + word_sum xs) + word_sum ys)"
    by (simp add: ones_add_left)
  also have "\<dots> = unat (calc_checksum (calc_checksum s xs) ys)"
    using l by (simp add: calc_checksum_ones)
  finally show "calc_checksum s (xs @ ys) = calc_checksum (calc_checksum s xs) ys"
    by (simp add: word_unat_eq_iff)
next
  fix xs ys :: bytes and s :: u16
  assume e: "even (length xs)" and l: "length xs + length ys + 2 \<le> 65536"
  let ?c = "calc_checksum s (xs @ [0, 0] @ ys)"
  let ?n = "unat s + word_sum xs + word_sum ys"
  have z: "word_sum ([0, 0] @ ys) = word_sum ys" by (simp add: unat_le16)
  have c: "unat ?c = ones ?n"
    using l by (simp add: calc_checksum_ones word_sum_append [OF e] z [simplified] add.assoc)
  have "unat (calc_checksum s (xs @ u16_le (NOT ?c) @ ys)) = ones (?n + unat (NOT ?c))"
    using l by (subst calc_checksum_ones) (simp_all only: word_sum_append [OF e] word_sum_u16_le
        length_append length_u16_le add_ac)
  also have "\<dots> = ones (?n + (65535 - ones ?n))"
    by (simp only: unat_not_u16 c)
  also have "\<dots> = 65535" by (rule ones_complement)
  finally show "calc_checksum s (xs @ u16_le (NOT ?c) @ ys) = 0xFFFF"
    by (simp add: word_unat_eq_iff)
qed

section \<open>compare_u32\<close>

definition compare_u32 :: "u32 \<Rightarrow> u32 \<Rightarrow> int" where
  "compare_u32 s1 s2 =
     (if s1 = s2 then 0
      else if (s1 < s2 \<and> s2 - s1 < 0x7FFFFFFF) \<or> (s1 > s2 \<and> s1 - s2 > 0x7FFFFFFF) then -1
      else 1)"

text \<open>The distance from \<open>a\<close> forward to \<open>b\<close> on the circle of sequence numbers.\<close>

definition ahead :: "u32 \<Rightarrow> u32 \<Rightarrow> nat" where
  "ahead a b = unat (b - a)"

lemma ahead_cases:
  "ahead a b = (if unat a \<le> unat b then unat b - unat a else 4294967296 + unat b - unat a)"
  using unat_u32_lt [of a] unat_u32_lt [of b]
  by (auto simp: ahead_def unat_sub_if_size word_size)

lemma compare_u32_cases:
  "compare_u32 a b =
     (if unat a = unat b then 0
      else if (unat a < unat b \<and> unat b - unat a < 2147483647)
            \<or> (unat b < unat a \<and> 2147483647 < unat a - unat b) then -1 else 1)"
proof -
  have "unat (b - a) = unat b - unat a" if "unat a < unat b"
    using that by (intro unat_sub) (simp add: word_le_nat_alt)
  moreover have "unat (a - b) = unat a - unat b" if "unat b < unat a"
    using that by (intro unat_sub) (simp add: word_le_nat_alt)
  ultimately show ?thesis
    by (auto simp: compare_u32_def word_less_nat_alt word_unat_eq_iff)
qed

lemma compare_u32_less_iff:
  assumes "ahead a b < 2147483647 \<or> ahead b a < 2147483647"
  shows "compare_u32 a b < 0 \<longleftrightarrow> 0 < ahead a b \<and> ahead a b < 2147483647"
  using assms unat_u32_lt [of a] unat_u32_lt [of b]
  unfolding compare_u32_cases ahead_cases by (auto split: if_splits)

lemma compare_u32_zero_iff [simp]: "compare_u32 a b = 0 \<longleftrightarrow> a = b"
  by (simp add: compare_u32_def)

lemma sint_u32:
  assumes "unat (w :: u32) = n"
  shows "sint w = (if n < 2147483648 then int n else int n - 4294967296)"
proof -
  have n: "n < 4294967296" using assms unat_u32_lt [of w] by simp
  have u: "uint w = int n" using assms by (simp only: uint_nat)
  have "sint w = signed_take_bit 31 (uint w)" by (simp add: sint_uint)
  also have "\<dots> = (int n + 2147483648) mod 4294967296 - 2147483648"
    unfolding u by (simp add: signed_take_bit_eq_take_bit_shift take_bit_eq_mod)
  also have "\<dots> = (if n < 2147483648 then int n else int n - 4294967296)"
  proof (cases "n < 2147483648")
    case True
    then show ?thesis by simp
  next
    case False
    have "int n + 2147483648 = (int n - 2147483648) + 4294967296" by simp
    then have "(int n + 2147483648) mod 4294967296 = (int n - 2147483648) mod 4294967296"
      by (metis mod_add_self2)
    also have "\<dots> = int n - 2147483648"
      using False n by (intro mod_pos_pos_trivial) simp_all
    finally have "(int n + 2147483648) mod 4294967296 = int n - 2147483648" .
    with False show ?thesis by simp
  qed
  finally show ?thesis .
qed

text \<open>C35: \<open>compare_u32\<close> is the sign of the signed 32-bit difference (the comparison of serial numbers of
  RFC 1982, whatever wrap-around lies between the two), except when the second number is above the
  first by \<open>2^31 - 1\<close> or \<open>2^31\<close> without a wrap-around: then it says the first is the later one, though the
  difference is negative.\<close>

theorem compare_u32_serial:
  "compare_u32 a b =
     (if a < b \<and> (b - a = 0x7FFFFFFF \<or> b - a = 0x80000000) then 1 else sgn (sint (a - b)))"
proof -
  obtain x y where xy: "unat a = x" "unat b = y" by blast
  have lt: "x < 4294967296" "y < 4294967296"
    using unat_u32_lt [of a] unat_u32_lt [of b] xy by simp_all
  obtain d where d: "ahead b a = d" by blast
  then have dd: "d = (if y \<le> x then x - y else 4294967296 + x - y)"
    using ahead_cases [of b a, unfolded xy] by (simp split: if_splits)
  have s: "sint (a - b) = (if d < 2147483648 then int d else int d - 4294967296)"
    using d by (intro sint_u32) (simp add: ahead_def)
  have e: "a < b \<and> (b - a = 0x7FFFFFFF \<or> b - a = 0x80000000) \<longleftrightarrow>
      x < y \<and> (y - x = 2147483647 \<or> y - x = 2147483648)"
    using xy by (auto simp: word_less_nat_alt word_unat_eq_iff unat_sub word_le_nat_alt less_imp_le)
  show ?thesis
    using lt unfolding e s dd compare_u32_cases ahead_cases xy by (auto simp: sgn_if split: if_splits)
qed

section \<open>Hexadecimal\<close>

definition char2nible :: "u8 \<Rightarrow> u8" where
  "char2nible c =
     (if 48 \<le> c \<and> c \<le> 57 then c - 48
      else if 97 \<le> c \<and> c \<le> 102 then (c - 97) + 10
      else if 65 \<le> c \<and> c \<le> 70 then (c - 65) + 10
      else 255)"

text \<open>The bytes \<open>hex2bytes\<close> stores for a C string; at odd length the last pair is the last
  character and the terminating NUL.\<close>

fun hex2bytes :: "bytes \<Rightarrow> bytes" where
  "hex2bytes (a # b # hs) = (push_bit 4 (char2nible a) OR char2nible b) # hex2bytes hs"
| "hex2bytes [a] = [push_bit 4 (char2nible a) OR char2nible 0]"
| "hex2bytes [] = []"

text \<open>\<open>hex_str[i]\<close> of \<open>"0123456789ABCDEF"\<close>.\<close>

definition hex_str :: bytes where
  "hex_str = [48, 49, 50, 51, 52, 53, 54, 55, 56, 57, 65, 66, 67, 68, 69, 70]"

fun hex :: "bytes \<Rightarrow> bytes" where
  "hex [] = []"
| "hex (d # data) =
     [hex_str ! unat (drop_bit 4 d AND 0x0F), hex_str ! unat (d AND 0x0F), 32] @ hex data"

text \<open>\<open>isspace\<close> in the C locale, and \<open>trim\<close>.\<close>

definition isspace :: "u8 \<Rightarrow> bool" where
  "isspace c \<longleftrightarrow> c = 32 \<or> (9 \<le> c \<and> c \<le> 13)"

text \<open>\<open>end\<close> walks back from the last character while it is a space and lies after \<open>str\<close>.\<close>

fun trim_end :: "bytes \<Rightarrow> nat \<Rightarrow> bytes" where
  "trim_end s 0 = take 1 s"
| "trim_end s (Suc e) = (if isspace (s ! Suc e) then trim_end s e else take (Suc e + 1) s)"

definition trim :: "bytes \<Rightarrow> bytes" where
  "trim s = (let t = dropWhile isspace s in if t = [] then [] else trim_end t (length t - 1))"

lemma nibble_and: "d AND 0x0F = take_bit 4 (d :: u8)"
  by (simp add: take_bit_eq_mask mask_eq_exp_minus_1)

lemma unat_nibble: "unat (take_bit 4 (d :: u8)) < 16"
  by (simp only: unsigned_take_bit_eq) (simp add: take_bit_nat_def)

lemma hex_digit: "i < 16 \<Longrightarrow> char2nible (hex_str ! i) = of_nat i \<and> hex_str ! i \<noteq> 32"
proof -
  assume "i < 16"
  moreover have "\<forall>i \<in> set [0..<16]. char2nible (hex_str ! i) = of_nat i \<and> hex_str ! i \<noteq> 32"
    by (simp add: upt_conv_Cons hex_str_def char2nible_def)
  ultimately show ?thesis by simp
qed

lemma nibbles_join:
  "push_bit 4 (take_bit 4 (drop_bit 4 d)) OR take_bit 4 d = (d :: u8)"
proof (rule bit_word_eqI)
  fix n
  assume "n < LENGTH(8)"
  then show "bit (push_bit 4 (take_bit 4 (drop_bit 4 d)) OR take_bit 4 d) n = bit d n"
    by (auto simp: bit_simps)
qed

text \<open>The two hexadecimal routines are inverse: reading back the digits that \<open>hex\<close> prints
  (its separating spaces removed) with \<open>hex2bytes\<close> yields the bytes that were printed.\<close>

theorem hex_roundtrip: "hex2bytes (filter (\<lambda>c. c \<noteq> 32) (hex data)) = data"
proof (induction data)
  case (Cons d data)
  let ?h = "hex_str ! unat (take_bit 4 (drop_bit 4 d))" and ?l = "hex_str ! unat (take_bit 4 d)"
  have h: "char2nible ?h = take_bit 4 (drop_bit 4 d) \<and> ?h \<noteq> 32"
    using hex_digit [OF unat_nibble [of "drop_bit 4 d"]] by simp
  have l: "char2nible ?l = take_bit 4 d \<and> ?l \<noteq> 32"
    using hex_digit [OF unat_nibble [of d]] by simp
  show ?case
    using Cons h l nibbles_join [of d] by (simp add: nibble_and)
qed simp

end
