(* ===== verification/Ng_Tls.thy ===== *)
theory Ng_Tls
  imports Ng_Prelude
begin

text \<open>
  The server name lookup of netguard/tls.c. \<open>get_sni\<close> walks a TLS ClientHello record with
  a \<open>uint8_t\<close> index into the record and a \<open>uint16_t\<close> index into its extensions; both keep
  their width here. The result is \<open>Some None\<close> for a return of 0, \<open>Some (Some name)\<close> for a
  return of 1 with \<open>name\<close> copied to \<open>server_name\<close>, and \<open>None\<close> for a read outside \<open>data\<close>.
\<close>

definition TLS_SNI_LENGTH :: nat where "TLS_SNI_LENGTH = 255"
definition TLS_HANDSHAKE_RECORD :: u8 where "TLS_HANDSHAKE_RECORD = 22"
definition TLS_MESSAGE_CLIENTHELLO :: u8 where "TLS_MESSAGE_CLIENTHELLO = 1"
definition TLS_EXTENSION_TYPE_SERVER_NAME :: u16 where "TLS_EXTENSION_TYPE_SERVER_NAME = 0"

lemmas tls_consts = TLS_SNI_LENGTH_def TLS_HANDSHAKE_RECORD_def TLS_MESSAGE_CLIENTHELLO_def
  TLS_EXTENSION_TYPE_SERVER_NAME_def

text \<open>The body of the server name extension, \<open>eindex\<close> just after the extension's length;
  \<open>base\<close> is the offset of \<open>edata\<close> in \<open>data\<close>.\<close>

definition sni_extension :: "bytes \<Rightarrow> nat \<Rightarrow> u16 \<Rightarrow> u16 \<Rightarrow> bytes option option" where
  "sni_extension data base edatalen eindex =
     (if unat eindex + 1 \<ge> unat edatalen then Some None
      else do {
        sni_len \<leftarrow> rd16 data (base + unat eindex);
        let eindex = eindex + 2;
        if unat eindex + unat sni_len \<ge> unat edatalen then Some None
        else if eindex \<ge> edatalen then Some None
        else do {
          sni_type \<leftarrow> rd data (base + unat eindex);
          let eindex = eindex + 1;
          if sni_type \<noteq> 0 then Some None
          else if unat eindex + 1 \<ge> unat edatalen then Some None
          else do {
            name_len \<leftarrow> rd16 data (base + unat eindex);
            let eindex = eindex + 2;
            if unat eindex + unat name_len \<ge> unat edatalen then Some None
            else if unat name_len \<ge> TLS_SNI_LENGTH then Some None
            else do {
              server_name \<leftarrow> slice data (base + unat eindex) (unat name_len);
              Some (Some server_name)
            }
          }
        }
      })"

text \<open>The loop over the extensions; the two \<open>eindex += 2\<close> make \<open>eindex + 4\<close>.\<close>

lemma unat_add_small: "unat (a :: u16) + k < 65536 \<Longrightarrow> unat (a + of_nat k) = unat a + k"
  by (simp add: unat_word_ariths unat_of_nat)

lemma unat_add1: "unat a + 1 < 65536 \<Longrightarrow> unat (a + 1 :: u16) = unat a + 1"
  using unat_add_small [of a 1] by simp

lemma unat_add2: "unat a + 2 < 65536 \<Longrightarrow> unat (a + 2 :: u16) = unat a + 2"
  using unat_add_small [of a 2] by simp

lemma unat_add4: "unat a + 4 < 65536 \<Longrightarrow> unat (a + 4 :: u16) = unat a + 4"
  using unat_add_small [of a 4] by simp

text \<open>No step of the loop wraps its 16-bit index: every advance was checked against the
  extensions' length.\<close>

lemma sni_step:
  assumes "\<not> unat (edatalen :: u16) \<le> unat eindex + 1"
    and "\<not> unat edatalen \<le> unat (eindex + 2) + 1"
    and "\<not> unat edatalen < unat (eindex + 4) + unat (ext_len :: u16)"
  shows "unat (eindex + 4 + ext_len) = unat eindex + 4 + unat ext_len"
    and "unat (eindex + 2) = unat eindex + 2" and "unat (eindex + 4) = unat eindex + 4"
proof -
  have b: "unat edatalen < 65536" by (rule unat_u16_lt)
  show 2: "unat (eindex + 2) = unat eindex + 2"
    using assms(1) b by (intro unat_add2) linarith
  show 4: "unat (eindex + 4) = unat eindex + 4"
    using assms(2) b 2 by (intro unat_add4) linarith
  show "unat (eindex + 4 + ext_len) = unat eindex + 4 + unat ext_len"
    using assms(3) b 4 unat_add_small [of "eindex + 4" "unat ext_len"] by simp
qed

function sni_loop :: "bytes \<Rightarrow> nat \<Rightarrow> u16 \<Rightarrow> u16 \<Rightarrow> bytes option option" where
  "sni_loop data base edatalen eindex =
     (if eindex < edatalen then
        if unat eindex + 1 \<ge> unat edatalen then Some None
        else do {
          ext_type \<leftarrow> rd16 data (base + unat eindex);
          if unat (eindex + 2) + 1 \<ge> unat edatalen then Some None
          else do {
            ext_len \<leftarrow> rd16 data (base + unat (eindex + 2));
            if unat (eindex + 4) + unat ext_len > unat edatalen then Some None
            else if ext_type = TLS_EXTENSION_TYPE_SERVER_NAME
              then sni_extension data base edatalen (eindex + 4)
            else sni_loop data base edatalen (eindex + 4 + ext_len)
          }
        }
      else Some None)"
  by pat_completeness auto
termination
proof (relation "measure (\<lambda>(data, base, edatalen, eindex). unat edatalen - unat eindex)")
  fix data base and edatalen eindex ext_type ext_len :: u16
  assume a: "\<not> unat edatalen \<le> unat eindex + 1" "\<not> unat edatalen \<le> unat (eindex + 2) + 1"
    "\<not> unat edatalen < unat (eindex + 4) + unat ext_len"
  have "unat (eindex + 4 + ext_len) = unat eindex + 4 + unat ext_len"
    by (rule sni_step(1) [OF a])
  moreover have "unat eindex < unat edatalen" using a(1) by linarith
  ultimately show "((data, base, edatalen, eindex + 4 + ext_len), data, base, edatalen, eindex)
      \<in> measure (\<lambda>(data, base, edatalen, eindex). unat edatalen - unat eindex)"
    by simp
qed simp

declare sni_loop.simps [simp del]

definition get_sni :: "bytes \<Rightarrow> u16 \<Rightarrow> bytes option option" where
  "get_sni data datalen =
     (if datalen < 6 then Some None
      else do {
        content_type \<leftarrow> rd data 0;
        major_version \<leftarrow> rd data 1;
        minor_version \<leftarrow> rd data 2;
        content_length \<leftarrow> rd16 data 3;
        message_type \<leftarrow> rd data 5;
        if content_type \<noteq> TLS_HANDSHAKE_RECORD \<or> major_version < 3 \<or>
           5 + unat content_length \<noteq> unat datalen \<or> message_type \<noteq> TLS_MESSAGE_CLIENTHELLO
        then Some None
        else do {
          let index = (6 + 3 + 2 + 32 :: u8);
          if unat index \<ge> unat datalen then Some None
          else do {
            session_len \<leftarrow> rd data (unat index);
            let index = index + 1 + session_len;
            if unat index + 1 \<ge> unat datalen then Some None
            else do {
              suites_len \<leftarrow> rd16 data (unat index);
              let index = index + 2 + ucast suites_len;
              if unat index \<ge> unat datalen then Some None
              else do {
                compression_len \<leftarrow> rd data (unat index);
                let index = index + 1 + compression_len;
                if unat index + 1 \<ge> unat datalen then Some None
                else do {
                  edatalen \<leftarrow> rd16 data (unat index);
                  let index = index + 2;
                  if edatalen = 0 \<or> unat index + unat edatalen \<noteq> unat datalen then Some None
                  else sni_loop data (unat index) edatalen 0
                }
              }
            }
          }
        }
      })"


section \<open>Memory safety\<close>

text \<open>What a result of the lookup may be: a return of 0, or a name of at most 254 bytes that
  stands in the packet.\<close>

definition sni_ok :: "bytes \<Rightarrow> bytes option \<Rightarrow> bool" where
  "sni_ok data r \<longleftrightarrow> (case r of None \<Rightarrow> True
     | Some name \<Rightarrow> length name < TLS_SNI_LENGTH \<and> (\<exists>i. slice data i (length name) = Some name))"

lemma sni_ok_None [simp]: "sni_ok data None"
  by (simp add: sni_ok_def)

lemma sni_ok_slice: "slice data i n = Some name \<Longrightarrow> n < TLS_SNI_LENGTH \<Longrightarrow> sni_ok data (Some name)"
  using length_slice [of data i n name] by (auto simp: sni_ok_def)

lemma sni_extension_safe:
  assumes "base + unat edatalen \<le> length data"
  shows "good (sni_ok data) (sni_extension data base edatalen eindex)"
  unfolding sni_extension_def Let_def
  by (intro good_intro; (use assms in \<open>simp add: word_le_nat_alt sni_ok_slice\<close>)?)

lemma sni_loop_safe:
  "base + unat edatalen \<le> length data \<Longrightarrow> good (sni_ok data) (sni_loop data base edatalen eindex)"
proof (induction data base edatalen eindex rule: sni_loop.induct)
  case (1 data base edatalen eindex)
  show ?case
    by (subst sni_loop.simps)
      (intro good_intro; (use "1.prems" "1.IH" sni_extension_safe in simp)?)
qed

lemma get_sni_good: "unat datalen \<le> length data \<Longrightarrow> good (sni_ok data) (get_sni data datalen)"
  unfolding get_sni_def Let_def
  by (intro good_intro sni_loop_safe; simp add: word_less_nat_alt del: length_greater_0_conv)

text \<open>C32: memory safety of \<open>get_sni\<close>: on a buffer that really holds \<open>datalen\<close> bytes no read
  leaves the buffer, although the record index is a wrapping 8-bit integer, and a name that is
  returned is a stretch of the packet of at most 254 bytes, so that it and its NUL fit the
  256-byte \<open>server_name\<close> of the caller.\<close>

theorem get_sni_safe:
  assumes "unat datalen \<le> length data"
  shows "\<exists>r. get_sni data datalen = Some r \<and>
    (\<forall>name. r = Some name \<longrightarrow> length name < 255 \<and> (\<exists>i. slice data i (length name) = Some name))"
  using get_sni_good [OF assms] by (auto simp: good_def sni_ok_def TLS_SNI_LENGTH_def split: option.splits)


section \<open>Well-formed ClientHello records\<close>

text \<open>A ClientHello as a sender lays it out (RFC 5246, section 7.4.1.2; RFC 6066, section 3).\<close>

record hello =
  h_major :: u8
  h_minor :: u8
  h_length :: bytes \<comment> \<open>3 bytes\<close>
  h_version :: bytes \<comment> \<open>2 bytes\<close>
  h_random :: bytes \<comment> \<open>32 bytes\<close>
  h_session :: bytes
  h_suites :: bytes
  h_compression :: bytes
  h_extensions :: "(u16 \<times> bytes) list"

definition ext_bytes :: "u16 \<times> bytes \<Rightarrow> bytes" where
  "ext_bytes e = u16_be (fst e) @ u16_be (of_nat (length (snd e))) @ snd e"

definition exts_bytes :: "(u16 \<times> bytes) list \<Rightarrow> bytes" where
  "exts_bytes es = concat (map ext_bytes es)"

definition sni_body :: "bytes \<Rightarrow> bytes" where
  "sni_body name = u16_be (of_nat (length name + 3)) @ [0] @ u16_be (of_nat (length name)) @ name"

definition hello_fixed :: "hello \<Rightarrow> bytes" where
  "hello_fixed h = h_length h @ h_version h @ h_random h"

definition hello_bytes :: "hello \<Rightarrow> bytes" where
  "hello_bytes h =
     (let es = exts_bytes (h_extensions h);
          rest = [1] @ hello_fixed h @ [of_nat (length (h_session h))] @ h_session h
            @ u16_be (of_nat (length (h_suites h))) @ h_suites h
            @ [of_nat (length (h_compression h))] @ h_compression h
            @ u16_be (of_nat (length es)) @ es
      in [22, h_major h, h_minor h] @ u16_be (of_nat (length rest)) @ rest)"

text \<open>The lengths fit their fields, and the part before the extensions fits the 8-bit index.\<close>

definition hello_wf :: "hello \<Rightarrow> bool" where
  "hello_wf h \<longleftrightarrow> 3 \<le> h_major h \<and> length (h_length h) = 3 \<and> length (h_version h) = 2
     \<and> length (h_random h) = 32
     \<and> 49 + length (h_session h) + length (h_suites h) + length (h_compression h) < 256
     \<and> length (hello_bytes h) < 65536"

lemma length_ext_bytes [simp]: "length (ext_bytes e) = 4 + length (snd e)"
  by (simp add: ext_bytes_def)

lemma exts_bytes_simps [simp]:
  "exts_bytes [] = []" "exts_bytes (e # es) = ext_bytes e @ exts_bytes es"
  "exts_bytes (xs @ ys) = exts_bytes xs @ exts_bytes ys"
  by (simp_all add: exts_bytes_def)

lemma ucast_of_nat_u8: "ucast (of_nat n :: u16) = (of_nat n :: u8)"
  by (simp add: word_unat_eq_iff unat_lo_u16 unat_of_nat take_bit_nat_def mod_mod_cancel)

lemma rd16_at: "i = length xs \<Longrightarrow> rd16 (xs @ u16_be w @ ys) i = Some w"
  by (simp add: rd16_u16_be)

lemma sni_loop_skip:
  assumes d: "data = pre @ mid @ ext_bytes (t, b) @ post" and t: "t \<noteq> 0"
    and n: "unat edatalen = length (mid @ ext_bytes (t, b) @ post)"
  shows "sni_loop data (length pre) edatalen (of_nat (length mid))
    = sni_loop data (length pre) edatalen (of_nat (length (mid @ ext_bytes (t, b))))"
proof -
  let ?m = "length mid"
  have lt: "?m + 4 + length b + length post < 65536"
    using n unat_u16_lt [of edatalen] by simp
  have e: "unat (of_nat ?m :: u16) = ?m" "unat (of_nat ?m + 2 :: u16) = ?m + 2"
    "unat (of_nat ?m + 4 :: u16) = ?m + 4" "unat (of_nat (length b) :: u16) = length b"
    using lt by (simp_all add: unat_of_nat16 unat_add2 unat_add4)
  have r1: "rd16 data (length pre + ?m) = Some t"
    using rd16_at [of "length pre + ?m" "pre @ mid"] by (simp add: d ext_bytes_def)
  have r2: "rd16 data (length pre + (?m + 2)) = Some (of_nat (length b))"
    using rd16_at [of "length pre + (?m + 2)" "pre @ mid @ u16_be t"] by (simp add: d ext_bytes_def)
  have "sni_loop data (length pre) edatalen (of_nat ?m)
      = sni_loop data (length pre) edatalen (of_nat ?m + 4 + of_nat (length b))"
    using n t by (subst sni_loop.simps)
      (simp add: e r1 r2 [simplified] word_less_nat_alt TLS_EXTENSION_TYPE_SERVER_NAME_def)
  then show ?thesis by (simp add: add_ac)
qed

lemma sni_loop_skips:
  assumes d: "data = pre @ mid @ exts_bytes es @ post" and t: "0 \<notin> fst ` set es"
    and n: "unat edatalen = length (mid @ exts_bytes es @ post)"
  shows "sni_loop data (length pre) edatalen (of_nat (length mid))
    = sni_loop data (length pre) edatalen (of_nat (length (mid @ exts_bytes es)))"
  using assms
proof (induction es arbitrary: mid)
  case (Cons e es)
  obtain ty b where e: "e = (ty, b)" by (cases e)
  have "sni_loop data (length pre) edatalen (of_nat (length mid))
      = sni_loop data (length pre) edatalen (of_nat (length (mid @ ext_bytes (ty, b))))"
    using Cons.prems e by (intro sni_loop_skip [where post = "exts_bytes es @ post"]) auto
  also have "\<dots> = sni_loop data (length pre) edatalen
      (of_nat (length ((mid @ ext_bytes (ty, b)) @ exts_bytes es)))"
    using Cons.prems e by (intro Cons.IH) auto
  finally show ?case using e by simp
qed simp

lemma sni_extension_found:
  assumes d: "data = pre @ mid @ ext_bytes (0, sni_body name) @ post"
    and n: "unat edatalen = length (mid @ ext_bytes (0, sni_body name) @ post)"
    and l: "length name < 255"
  shows "sni_extension data (length pre) edatalen (of_nat (length mid) + 4)
    = Some (if post = [] then None else Some name)"
proof -
  let ?m = "length mid" and ?e = "of_nat (length mid) + 4 :: u16"
  have sb: "length (sni_body name) = length name + 5" by (simp add: sni_body_def)
  have lt: "?m + 9 + length name + length post < 65536" and ed: "unat edatalen = ?m + 9 + length name + length post"
    using n unat_u16_lt [of edatalen] sb by simp_all
  have w: "?e = of_nat (?m + 4)" "?e + 2 = of_nat (?m + 6)" "?e + 2 + 1 = of_nat (?m + 7)"
    "?e + 2 + 1 + 2 = of_nat (?m + 9)" by simp_all
  note u16 = trans [OF arg_cong [where f = unat] unat_of_nat16]
  have e: "unat ?e = ?m + 4" "unat (?e + 2) = ?m + 6" "unat (?e + 2 + 1) = ?m + 7"
    "unat (?e + 2 + 1 + 2) = ?m + 9"
    using lt by - (rule u16 [OF w(1)] u16 [OF w(2)] u16 [OF w(3)] u16 [OF w(4)], linarith)+
  let ?x = "pre @ mid @ u16_be 0 @ u16_be (of_nat (length (sni_body name)))"
  have r1: "rd16 data (length pre + (?m + 4)) = Some (of_nat (length name + 3))"
    using rd16_at [of "length pre + (?m + 4)" ?x] by (simp add: d ext_bytes_def sni_body_def)
  have r2: "rd data (length pre + (?m + 6)) = Some 0"
    using rd_at [of "length pre + (?m + 6)" "?x @ u16_be (of_nat (length name + 3))"]
    by (simp add: d ext_bytes_def sni_body_def)
  have r3: "rd16 data (length pre + (?m + 7)) = Some (of_nat (length name))"
    using rd16_at [of "length pre + (?m + 7)" "?x @ u16_be (of_nat (length name + 3)) @ [0]"]
    by (simp add: d ext_bytes_def sni_body_def)
  have r4: "slice data (length pre + (?m + 9)) (length name) = Some name"
    using slice_at [of "length pre + (?m + 9)"
        "?x @ u16_be (of_nat (length name + 3)) @ [0] @ u16_be (of_nat (length name))" "length name" name]
    by (simp add: d ext_bytes_def sni_body_def)
  have u: "unat (of_nat (length name + 3) :: u16) = length name + 3"
    "unat (of_nat (length name) :: u16) = length name"
    by (rule unat_of_nat16, use l in simp)+
  have g: "\<not> ?m + 4 + 1 \<ge> unat edatalen" "\<not> edatalen \<le> ?e + 2" "\<not> ?m + 7 + 1 \<ge> unat edatalen"
    "?m + 6 + (length name + 3) \<ge> unat edatalen \<longleftrightarrow> post = []"
    "?m + 9 + length name \<ge> unat edatalen \<longleftrightarrow> post = []"
    using ed e by (auto simp: word_le_nat_alt)
  show ?thesis
    unfolding sni_extension_def Let_def e r1 r2 r3 Option.bind.bind_lunit r4 u
    using g l by (simp add: TLS_SNI_LENGTH_def)
qed

lemma get_sni_header:
  assumes wf: "hello_wf h" and ne: "exts_bytes (h_extensions h) \<noteq> []"
  shows "\<exists>pre. hello_bytes h = pre @ exts_bytes (h_extensions h) \<and>
    get_sni (hello_bytes h) (of_nat (length (hello_bytes h)))
      = sni_loop (hello_bytes h) (length pre) (of_nat (length (exts_bytes (h_extensions h)))) 0"
proof -
  let ?es = "exts_bytes (h_extensions h)"
  let ?s = "length (h_session h)" and ?c = "length (h_suites h)" and ?k = "length (h_compression h)"
  obtain rest where rest: "rest = [1] @ hello_fixed h @ [of_nat ?s] @ h_session h
      @ u16_be (of_nat ?c) @ h_suites h @ [of_nat ?k] @ h_compression h
      @ u16_be (of_nat (length ?es)) @ ?es" by blast
  obtain d where d: "d = hello_bytes h" by blast
  then have db: "d = [22, h_major h, h_minor h] @ u16_be (of_nat (length rest)) @ rest"
    by (simp add: hello_bytes_def rest Let_def)
  have f: "length (hello_fixed h) = 37" using wf by (simp add: hello_fixed_def hello_wf_def)
  have lr: "length rest = 44 + ?s + ?c + ?k + length ?es" using f by (simp add: rest)
  have b: "49 + ?s + ?c + ?k < 256" "5 + length rest < 65536" "3 \<le> h_major h"
    using wf by (simp_all add: hello_wf_def db flip: d)
  have ld: "length d = 5 + length rest" by (simp add: db)
  let ?p = "[22, h_major h, h_minor h] @ u16_be (of_nat (length rest)) @ [1] @ hello_fixed h"
  have r0: "rd d 0 = Some 22" "rd d 1 = Some (h_major h)" "rd d 2 = Some (h_minor h)"
    by (simp_all add: rd_def db)
  have r3: "rd16 d 3 = Some (of_nat (length rest))"
    using rd16_at [of 3 "[22, h_major h, h_minor h]"] by (simp add: db)
  have r5: "rd d 5 = Some 1"
    using rd_at [of 5 "[22, h_major h, h_minor h] @ u16_be (of_nat (length rest))"] by (simp add: db rest)
  have r43: "rd d 43 = Some (of_nat ?s)"
    using rd_at [of 43 ?p] f by (simp add: db rest)
  have r44: "rd16 d (44 + ?s) = Some (of_nat ?c)"
    using rd16_at [of "44 + ?s" "?p @ [of_nat ?s] @ h_session h"] f by (simp add: db rest)
  have r46: "rd d (46 + ?s + ?c) = Some (of_nat ?k)"
    using rd_at [of "46 + ?s + ?c" "?p @ [of_nat ?s] @ h_session h @ u16_be (of_nat ?c) @ h_suites h"] f
    by (simp add: db rest)
  have r47: "rd16 d (47 + ?s + ?c + ?k) = Some (of_nat (length ?es))"
    using rd16_at [of "47 + ?s + ?c + ?k" "?p @ [of_nat ?s] @ h_session h @ u16_be (of_nat ?c)
        @ h_suites h @ [of_nat ?k] @ h_compression h"] f
    by (simp add: db rest)
  let ?pre = "?p @ [of_nat ?s] @ h_session h @ u16_be (of_nat ?c) @ h_suites h @ [of_nat ?k]
      @ h_compression h @ u16_be (of_nat (length ?es))"
  have dp: "d = ?pre @ ?es" by (simp add: db rest)
  have lp: "length ?pre = 49 + ?s + ?c + ?k" using f by simp
  have i1: "(6 + 3 + 2 + 32 :: u8) = of_nat 43" "of_nat 43 + 1 + (of_nat ?s :: u8) = of_nat (44 + ?s)"
    "of_nat (44 + ?s) + 2 + ucast (of_nat ?c :: u16) = (of_nat (46 + ?s + ?c) :: u8)"
    "of_nat (46 + ?s + ?c) + 1 + (of_nat ?k :: u8) = of_nat (47 + ?s + ?c + ?k)"
    "of_nat (47 + ?s + ?c + ?k) + (2 :: u8) = of_nat (49 + ?s + ?c + ?k)"
    by (simp_all add: ucast_of_nat_u8)
  have u: "unat (of_nat 43 :: u8) = 43" "unat (of_nat (44 + ?s) :: u8) = 44 + ?s"
    "unat (of_nat (46 + ?s + ?c) :: u8) = 46 + ?s + ?c"
    "unat (of_nat (47 + ?s + ?c + ?k) :: u8) = 47 + ?s + ?c + ?k"
    "unat (of_nat (49 + ?s + ?c + ?k) :: u8) = 49 + ?s + ?c + ?k"
    using b by (simp_all only: unat_of_nat8)
  have v: "unat (of_nat (length d) :: u16) = length d" "unat (of_nat (length rest) :: u16) = length rest"
    "unat (of_nat (length ?es) :: u16) = length ?es"
    by (rule unat_of_nat16, use b ld lr in linarith)+
  have z: "\<not> (of_nat (length d) :: u16) < 6" "(of_nat (length ?es) :: u16) \<noteq> 0"
    using v ld lr ne by (auto simp: word_less_nat_alt unat_eq_0 [symmetric] simp del: unat_eq_0)
  have "get_sni d (of_nat (length d)) = sni_loop d (49 + ?s + ?c + ?k) (of_nat (length ?es)) 0"
    unfolding get_sni_def Let_def r0 r3 r5 r43 Option.bind.bind_lunit i1 u v r44 r46 r47
    using z b ld lr by (simp add: tls_consts not_less [THEN iffD2])
  then have "get_sni d (of_nat (length d)) = sni_loop d (length ?pre) (of_nat (length ?es)) 0"
    unfolding lp .
  with dp show ?thesis unfolding d by blast
qed

text \<open>C33: the lookup finds the name a client sends. For every ClientHello whose lengths fit their fields and
  whose session id, cipher suites and compression methods are short enough for the 8-bit index of \<open>get_sni\<close>
  (\<open>hello_wf\<close>: 49 and their lengths below 256), with a server name of less than 255 bytes, \<open>get_sni\<close> returns
  exactly the name in its first server name extension wherever that extension stands, except as the last
  one: the comparisons of \<open>tls.c\<close> use \<open>>=\<close> where the end of the name may equal the end of the extensions, so a
  hello that ends in its server name extension is treated as having none.\<close>

theorem get_sni_hello:
  assumes wf: "hello_wf h" and e: "h_extensions h = before @ (0, sni_body name) # after"
    and n: "0 \<notin> fst ` set before" and l: "length name < 255"
  shows "get_sni (hello_bytes h) (of_nat (length (hello_bytes h)))
    = Some (if after = [] then None else Some name)"
proof -
  let ?es = "exts_bytes (h_extensions h)" and ?m = "exts_bytes before"
  have es: "?es = ?m @ ext_bytes (0, sni_body name) @ exts_bytes after" by (simp add: e)
  have ne: "?es \<noteq> []" by (simp add: es ext_bytes_def u16_be_def)
  obtain pre where d: "hello_bytes h = pre @ ?es"
    and g: "get_sni (hello_bytes h) (of_nat (length (hello_bytes h)))
      = sni_loop (hello_bytes h) (length pre) (of_nat (length ?es)) 0"
    using get_sni_header [OF wf ne] by blast
  have lt: "length (hello_bytes h) < 65536" using wf by (simp add: hello_wf_def)
  let ?ed = "of_nat (length ?es) :: u16"
  have u: "unat ?ed = length ?es" using lt d by (intro unat_of_nat16) simp
  have "sni_loop (hello_bytes h) (length pre) ?ed 0
      = sni_loop (hello_bytes h) (length pre) ?ed (of_nat (length ?m))"
    using sni_loop_skips [of "hello_bytes h" pre "[]" before
        "ext_bytes (0, sni_body name) @ exts_bytes after" ?ed] d n u es by simp
  also have "\<dots> = sni_extension (hello_bytes h) (length pre) ?ed (of_nat (length ?m) + 4)"
  proof -
    have m: "length ?m + length name + 9 \<le> length ?es" by (simp add: es sni_body_def)
    have uu: "unat (of_nat (length ?m) :: u16) = length ?m"
      "unat (of_nat (length ?m) + 2 :: u16) = length ?m + 2"
      "unat (of_nat (length ?m) + 4 :: u16) = length ?m + 4"
      "unat (of_nat (length (sni_body name)) :: u16) = length name + 5"
      using lt d m l unat_of_nat16 [of "length (sni_body name)"]
      by (simp_all add: unat_of_nat16 unat_add2 unat_add4 sni_body_def)
    have r1: "rd16 (hello_bytes h) (length pre + length ?m) = Some 0"
      using rd16_at [of "length pre + length ?m" "pre @ ?m"] by (simp add: d es ext_bytes_def)
    have r2: "rd16 (hello_bytes h) (length pre + (length ?m + 2)) = Some (of_nat (length (sni_body name)))"
      using rd16_at [of "length pre + (length ?m + 2)" "pre @ ?m @ u16_be 0"]
      by (simp add: d es ext_bytes_def)
    show ?thesis
      using u m by (subst sni_loop.simps)
        (simp add: uu r1 r2 [simplified] word_less_nat_alt TLS_EXTENSION_TYPE_SERVER_NAME_def)
  qed
  also have "\<dots> = Some (if exts_bytes after = [] then None else Some name)"
    using d es u l by (intro sni_extension_found) auto
  also have "exts_bytes after = [] \<longleftrightarrow> after = []"
    by (cases after) (simp_all add: ext_bytes_def u16_be_def)
  finally show ?thesis using g by simp
qed

definition hello_example :: hello where
  "hello_example = \<lparr>h_major = 3, h_minor = 1, h_length = [0, 0, 60], h_version = [3, 3],
     h_random = replicate 32 7, h_session = [1, 2], h_suites = [0x13, 1], h_compression = [0],
     h_extensions = [(10, [0, 2, 0, 29]), (0, sni_body [97, 46, 98]), (43, [2, 3, 4])]\<rparr>"

theorem get_sni_hello_witness:
  "get_sni (hello_bytes hello_example) (of_nat (length (hello_bytes hello_example)))
    = Some (Some [97, 46, 98])"
proof -
  have "hello_wf hello_example"
    by (simp add: hello_wf_def hello_example_def hello_bytes_def hello_fixed_def sni_body_def)
  then show ?thesis
    using get_sni_hello [of hello_example "[(10, [0, 2, 0, 29])]" "[97, 46, 98]" "[(43, [2, 3, 4])]"]
    by (simp add: hello_example_def)
qed

theorem get_sni_safe_witness:
  "\<exists>r. get_sni [22, 3, 1, 0, 1, 1] 6 = Some r \<and>
    (\<forall>name. r = Some name \<longrightarrow> length name < 255 \<and> (\<exists>i. slice [22, 3, 1, 0, 1, 1] i (length name) = Some name))"
  using get_sni_safe [of 6 "[22, 3, 1, 0, 1, 1]"] by simp

end
