(* ===== verification/Ng_Http.thy ===== *)
theory Ng_Http
  imports Ng_Prelude
begin

text \<open>
  The Host header lookup of sniproxy/http.c. The pair \<open>(data, data_len)\<close> that the routines
  advance through a request is the list of the bytes not yet passed. The header is found by
  \<open>get_header\<close>, whose walk over the lines is related to a search in the list of header lines.
\<close>

section \<open>next_header\<close>

text \<open>\<open>while (*len > 1 && (*data)[0] != '\n')\<close>.\<close>

fun skip_line :: "bytes \<Rightarrow> bytes" where
  "skip_line (c # d # ds) = (if c \<noteq> 10 then skip_line (d # ds) else c # d # ds)"
| "skip_line ds = ds"

text \<open>\<open>while (*len > header_len && (*data)[header_len] != '\n') header_len++\<close>.\<close>

fun line_len :: "bytes \<Rightarrow> nat" where
  "line_len (c # ds) = (if c \<noteq> 10 then Suc (line_len ds) else 0)"
| "line_len [] = 0"

definition next_header :: "bytes \<Rightarrow> nat \<times> bytes" where
  "next_header data =
     (if data = [] then (0, [])
      else let data = tl (skip_line data);
               header_len = line_len data
           in (if header_len > 0 \<and> data ! (header_len - 1) = 13 then header_len - 1 else header_len,
               data))"

section \<open>get_header\<close>

definition tolower :: "u8 \<Rightarrow> u8" where
  "tolower c = (if 65 \<le> c \<and> c \<le> 90 then c + 32 else c)"

text \<open>\<open>strncasecmp(s, t, n) == 0\<close>: equal up to case for \<open>n\<close> bytes or up to a common NUL.\<close>

fun strncaseeq :: "bytes \<Rightarrow> bytes \<Rightarrow> nat \<Rightarrow> bool" where
  "strncaseeq _ _ 0 = True"
| "strncaseeq (a # s) (b # t) (Suc n) =
     (tolower a = tolower b \<and> (a = 0 \<or> strncaseeq s t n))"
| "strncaseeq [] (b # t) (Suc n) = (b = 0)"
| "strncaseeq _ [] (Suc n) = False"

definition isblank :: "u8 \<Rightarrow> bool" where
  "isblank c \<longleftrightarrow> c = 32 \<or> c = 9"

definition isdigit :: "u8 \<Rightarrow> bool" where
  "isdigit c \<longleftrightarrow> 48 \<le> c \<and> c \<le> 57"

text \<open>\<open>while (header_len < len && isblank(data[header_len])) header_len++\<close>.\<close>

function eat_blanks :: "bytes \<Rightarrow> nat \<Rightarrow> nat \<Rightarrow> nat" where
  "eat_blanks data len header_len =
     (if header_len < len \<and> isblank (data ! header_len)
      then eat_blanks data len (header_len + 1) else header_len)"
  by pat_completeness auto
termination by (relation "measure (\<lambda>(data, len, header_len). len - header_len)") auto

declare eat_blanks.simps [simp del]

text \<open>\<open>strncpy(value, src, n); value[n] = 0\<close>: the buffer of \<open>n + 1\<close> bytes, zero padded from the
  first NUL of the source.\<close>

definition strncpy0 :: "bytes \<Rightarrow> nat \<Rightarrow> bytes" where
  "strncpy0 src n =
     (let s = cstr (take n src) in s @ replicate (n - length s) 0 @ [0])"

text \<open>What happened to the caller's string pointer.\<close>

datatype hostptr = Unchanged | Null | Buffer bytes

lemma length_skip_line: "length (skip_line data) \<le> length data"
  by (induction data rule: skip_line.induct) auto

lemma next_header_less: "data \<noteq> [] \<Longrightarrow> length (snd (next_header data)) < length data"
  using length_skip_line [of data] by (cases data) (auto simp: next_header_def Let_def)

function get_header :: "bool \<Rightarrow> bytes \<Rightarrow> bytes \<Rightarrow> int \<times> hostptr" where
  "get_header malloc_ok header data =
     (let (len, rest) = next_header data; header_len = length header
      in if len = 0 then (if length rest = 0 then -1 else -2, Unchanged)
         else if len > header_len \<and> strncaseeq header rest header_len then
           (let header_len = eat_blanks rest len header_len
            in if \<not> malloc_ok then (-4, Null)
               else (int (len - header_len), Buffer (strncpy0 (drop header_len rest) (len - header_len))))
         else get_header malloc_ok header rest)"
  by pat_completeness auto
termination
proof (relation "measure (\<lambda>(m, header, data). length data)")
  fix m header data x len rest header_len
  assume "x = next_header data" "(len, rest) = x" "len \<noteq> 0"
  moreover from this have "data \<noteq> []" by (auto simp: next_header_def)
  ultimately show "((m, header, rest), m, header, data) \<in> measure (\<lambda>(m, header, data). length data)"
    using next_header_less [of data] by (metis case_prod_conv in_measure snd_conv)
qed simp

declare get_header.simps [simp del]

section \<open>parse_http_header\<close>

text \<open>The loop that looks for a port: the index of the colon, when only digits follow it.\<close>

fun port_colon :: "bytes \<Rightarrow> nat \<Rightarrow> nat option" where
  "port_colon host 0 = None"
| "port_colon host (Suc i) =
     (if host ! i = 58 then Some i else if \<not> isdigit (host ! i) then None else port_colon host i)"

definition host_header :: bytes where \<comment> \<open>"Host:"\<close>
  "host_header = [72, 111, 115, 116, 58]"

definition parse_http_header :: "bool \<Rightarrow> bytes \<Rightarrow> bool \<Rightarrow> int \<times> hostptr" where
  "parse_http_header malloc_ok data hostname_null =
     (if hostname_null then (-3, Unchanged)
      else case get_header malloc_ok host_header data of
        (result, Buffer host) \<Rightarrow>
          if result < 0 then (result, Buffer host)
          else (case port_colon host (nat result) of
              None \<Rightarrow> (result, Buffer host)
            | Some i \<Rightarrow> (int i, Buffer (host[i := 0])))
      | (result, p) \<Rightarrow> (result, p))"

section \<open>Requests as lists of lines\<close>

definition crlf :: bytes where "crlf = [13, 10]"

text \<open>A request: the request line, the header lines, the blank line and the body.\<close>

definition request :: "bytes \<Rightarrow> bytes list \<Rightarrow> bytes \<Rightarrow> bytes" where
  "request line0 headers body = line0 @ crlf @ concat (map (\<lambda>l. l @ crlf) headers) @ crlf @ body"

text \<open>The reference: the first header line that starts with the name in any case.\<close>

definition is_host :: "bytes \<Rightarrow> bool" where
  "is_host l \<longleftrightarrow> 5 < length l \<and> map tolower (take 5 l) = map tolower host_header"

definition host_value :: "bytes \<Rightarrow> bytes" where
  "host_value l = dropWhile isblank (drop 5 l)"

text \<open>A host with an optional port after its last colon.\<close>

definition strip_port :: "bytes \<Rightarrow> bytes" where
  "strip_port v =
     (let ds = takeWhile isdigit (rev v); r = drop (length ds) (rev v)
      in case r of c # h \<Rightarrow> if c = 58 then rev h else v | [] \<Rightarrow> v)"

lemma skip_line_at: "10 \<notin> set l \<Longrightarrow> skip_line (l @ 10 # ds) = 10 # ds"
proof (induction l)
  case Nil
  show ?case by (cases ds) simp_all
next
  case (Cons c l)
  then show ?case by (cases l) auto
qed

lemma line_len_at: "10 \<notin> set l \<Longrightarrow> line_len (l @ 10 # ds) = length l"
  by (induction l) auto

lemma next_header_at:
  assumes "10 \<notin> set l" and "10 \<notin> set m"
  shows "next_header (l @ 10 # m @ crlf @ ds) = (length m, m @ crlf @ ds)"
proof -
  have "line_len (m @ crlf @ ds) = length m + 1"
    using line_len_at [of "m @ [13]" ds] assms by (simp add: crlf_def)
  then show ?thesis
    using assms by (simp add: next_header_def skip_line_at Let_def crlf_def nth_append)
qed


lemma eat_blanks_eq:
  "n \<le> length l \<Longrightarrow> eat_blanks (l @ t) (length l) n = length l - length (dropWhile isblank (drop n l))"
proof (induction "l @ t" "length l" n rule: eat_blanks.induct)
  case (1 n)
  show ?case
  proof (cases "n < length l \<and> isblank (l ! n)")
    case True
    then have "drop n l = l ! n # drop (Suc n) l" by (simp add: Cons_nth_drop_Suc)
    then show ?thesis
      using True 1 by (subst eat_blanks.simps) (simp add: nth_append)
  next
    case False
    show ?thesis
    proof (cases "n = length l")
      case True
      then show ?thesis by (subst eat_blanks.simps) simp
    next
      case n: False
      with "1.prems" have "drop n l = l ! n # drop (Suc n) l" by (simp add: Cons_nth_drop_Suc)
      then show ?thesis
        using False n "1.prems" by (subst eat_blanks.simps) (simp add: nth_append)
    qed
  qed
qed

lemma strncaseeq_take:
  "n \<le> length s \<Longrightarrow> n \<le> length t \<Longrightarrow> 0 \<notin> set (take n s) \<Longrightarrow>
   strncaseeq s t n \<longleftrightarrow> map tolower (take n t) = map tolower (take n s)"
proof (induction s t n rule: strncaseeq.induct)
  case (2 a s b t n)
  then show ?case by (cases "tolower a = tolower b") auto
qed simp_all

lemma strncaseeq_host:
  "5 < length l \<Longrightarrow> strncaseeq host_header (l @ t) 5 \<longleftrightarrow> is_host l"
  by (subst strncaseeq_take) (simp_all add: is_host_def host_header_def)

lemma strncpy0_prefix:
  "0 \<notin> set v \<Longrightarrow> n = length v \<Longrightarrow> strncpy0 (v @ t) n = v @ [0]"
  by (simp add: strncpy0_def cstr_id)

text \<open>The walk over the lines is a search in the list of header lines.\<close>

definition line_ok :: "bytes \<Rightarrow> bool" where
  "line_ok l \<longleftrightarrow> l \<noteq> [] \<and> 10 \<notin> set l \<and> 0 \<notin> set l"

lemma get_header_lines:
  assumes "10 \<notin> set x" and "\<forall>l \<in> set hs. line_ok l"
  shows "get_header ok host_header (x @ 10 # concat (map (\<lambda>l. l @ crlf) hs) @ crlf @ body) =
    (case find is_host hs of
       None \<Rightarrow> (-2, Unchanged)
     | Some l \<Rightarrow> if ok then (int (length (host_value l)), Buffer (host_value l @ [0])) else (-4, Null))"
  using assms
proof (induction hs arbitrary: x)
  case Nil
  then have "next_header (x @ 10 # [] @ crlf @ body) = (length ([] :: bytes), [] @ crlf @ body)"
    by (intro next_header_at) auto
  then show ?case by (subst get_header.simps) (simp add: crlf_def)
next
  case (Cons l hs)
  let ?rest = "concat (map (\<lambda>l. l @ crlf) hs) @ crlf @ body"
  have l: "l \<noteq> []" "10 \<notin> set l" "0 \<notin> set l" using Cons.prems by (auto simp: line_ok_def)
  have nh: "next_header (x @ 10 # concat (map (\<lambda>l. l @ crlf) (l # hs)) @ crlf @ body)
      = (length l, l @ crlf @ ?rest)"
    using next_header_at [of x l ?rest] Cons.prems(1) l by simp
  have five: "length host_header = 5" by (simp add: host_header_def)
  show ?case
  proof (cases "is_host l")
    case True
    then have gt: "5 < length l" by (simp add: is_host_def)
    let ?n = "length l - length (host_value l)"
    have hl: "length (host_value l) \<le> length l"
      using length_dropWhile_le [of isblank "drop 5 l"] by (simp add: host_value_def)
    have dv: "drop ?n l = host_value l"
    proof -
      have "\<exists>p. l = p @ host_value l"
        unfolding host_value_def
        by (metis append_assoc append_take_drop_id takeWhile_dropWhile_id)
      then obtain p where p: "l = p @ host_value l" by blast
      then have "length p = ?n" by (metis add_diff_cancel_right' length_append)
      with p show ?thesis by (metis append_eq_conv_conj)
    qed
    have e: "eat_blanks (l @ crlf @ ?rest) (length l) 5 = ?n"
      using gt by (simp add: eat_blanks_eq host_value_def)
    have "set (host_value l) \<subseteq> set l"
      unfolding host_value_def by (meson set_drop_subset set_dropWhileD subset_iff)
    then have "strncpy0 (host_value l @ crlf @ ?rest) (length l - ?n) = host_value l @ [0]"
      using l hl by (intro strncpy0_prefix) auto
    then show ?thesis
      using True gt l hl strncaseeq_host [OF gt]
      by (subst get_header.simps) (simp only: nh five Let_def prod.case, simp add: e dv)
  next
    case False
    have f: "\<not> (5 < length l \<and> strncaseeq host_header (l @ crlf @ ?rest) 5)"
      using False strncaseeq_host [of l] by auto
    have "get_header ok host_header (x @ 10 # concat (map (\<lambda>l. l @ crlf) (l # hs)) @ crlf @ body)
        = get_header ok host_header (l @ crlf @ ?rest)"
      using l f by (subst get_header.simps) (simp only: nh five Let_def prod.case, simp)
    also have "l @ crlf @ ?rest = (l @ [13]) @ 10 # ?rest" by (simp add: crlf_def)
    also have "get_header ok host_header \<dots> = (case find is_host hs of
       None \<Rightarrow> (-2, Unchanged)
     | Some l \<Rightarrow> if ok then (int (length (host_value l)), Buffer (host_value l @ [0])) else (-4, Null))"
      using Cons.prems l by (intro Cons.IH) auto
    finally show ?thesis using False by simp
  qed
qed

lemma port_colon_rev:
  "i \<le> length h \<Longrightarrow>
   port_colon h i = (case dropWhile isdigit (rev (take i h)) of
      c # r \<Rightarrow> if c = 58 then Some (length r) else None | [] \<Rightarrow> None)"
proof (induction h i rule: port_colon.induct)
  case (2 h i)
  then have "rev (take (Suc i) h) = h ! i # rev (take i h)"
    by (simp add: take_Suc_conv_app_nth)
  moreover have "\<not> isdigit 58" by (simp add: isdigit_def)
  ultimately show ?case using 2 by (auto split: list.splits)
qed simp

text \<open>The value the routine reports: the C string in the buffer and its length.\<close>

lemma port_strip:
  assumes "0 \<notin> set v"
  shows "(case port_colon (v @ [0]) (length v) of
      None \<Rightarrow> (int (length v), Buffer (v @ [0]))
    | Some i \<Rightarrow> (int i, Buffer ((v @ [0])[i := 0])))
    = (int (length (strip_port v)),
       Buffer (if strip_port v = v then v @ [0] else (v @ [0])[length (strip_port v) := 0]))"
proof -
  have d: "drop (length (takeWhile isdigit (rev v))) (rev v) = dropWhile isdigit (rev v)"
    by (metis dropWhile_eq_drop)
  have pc: "port_colon (v @ [0]) (length v) = (case dropWhile isdigit (rev v) of
      c # r \<Rightarrow> if c = 58 then Some (length r) else None | [] \<Rightarrow> None)"
    by (subst port_colon_rev) simp_all
  show ?thesis
  proof (cases "dropWhile isdigit (rev v)")
    case Nil
    then show ?thesis by (simp add: pc strip_port_def Let_def d del: dropWhile_eq_Nil_conv)
  next
    case (Cons c r)
    then have "length (rev r) < length v"
      using length_dropWhile_le [of isdigit "rev v"] by simp
    then have "rev r \<noteq> v" by blast
    then show ?thesis using Cons by (simp add: pc strip_port_def Let_def d)
  qed
qed

text \<open>C34: on a complete request \<open>parse_http_header\<close> computes what a search in the list of header
  lines gives: the value of the first line that is \<open>Host:\<close> in any case and longer than the name,
  leading blanks and a decimal port after the last colon removed; -2 without such a line; -4 and
  a null pointer when the allocation fails. The reported length is the length of the C string in
  the buffer.\<close>

theorem parse_http_header_request:
  assumes "10 \<notin> set line0" and "\<forall>l \<in> set headers. line_ok l"
  shows "case find is_host headers of
      None \<Rightarrow> parse_http_header ok (request line0 headers body) False = (-2, Unchanged)
    | Some l \<Rightarrow>
        if ok then (\<exists>buf. parse_http_header ok (request line0 headers body) False
            = (int (length (strip_port (host_value l))), Buffer buf)
          \<and> cstr buf = strip_port (host_value l))
        else parse_http_header ok (request line0 headers body) False = (-4, Null)"
proof -
  have r: "request line0 headers body = (line0 @ [13]) @ 10 # concat (map (\<lambda>l. l @ crlf) headers) @ crlf @ body"
    by (simp add: request_def crlf_def)
  have g: "get_header ok host_header (request line0 headers body) = (case find is_host headers of
       None \<Rightarrow> (-2, Unchanged)
     | Some l \<Rightarrow> if ok then (int (length (host_value l)), Buffer (host_value l @ [0])) else (-4, Null))"
    unfolding r using assms by (intro get_header_lines) auto
  show ?thesis
  proof (cases "find is_host headers")
    case None
    then show ?thesis using g by (simp add: parse_http_header_def)
  next
    case (Some l)
    then have "l \<in> set headers" by (auto simp: find_Some_iff)
    then have "0 \<notin> set l" using assms(2) by (simp add: line_ok_def)
    then have z: "0 \<notin> set (host_value l)"
      unfolding host_value_def by (meson in_set_dropD set_dropWhileD)
    let ?v = "host_value l"
    have p: "\<exists>t. ?v = strip_port ?v @ t"
    proof -
      have "\<exists>t. ?v = rev r @ t" if "drop (length (takeWhile isdigit (rev ?v))) (rev ?v) = c # r" for c r
        using that by (metis append_take_drop_id rev.simps(2) rev_append rev_rev_ident append_assoc)
      then show ?thesis by (auto simp: strip_port_def Let_def split: list.split)
    qed
    then obtain t where t: "?v = strip_port ?v @ t" by blast
    have s0: "0 \<notin> set (strip_port ?v)" using z t by (metis Un_iff set_append)
    let ?buf = "if strip_port ?v = ?v then ?v @ [0] else (?v @ [0])[length (strip_port ?v) := 0]"
    have "cstr ?buf = strip_port ?v"
    proof (cases "strip_port ?v = ?v")
      case True
      then show ?thesis using z by (simp add: cstr_append_nul)
    next
      case False
      then obtain c t' where "t = c # t'" using t by (cases t) auto
      then have "(?v @ [0])[length (strip_port ?v) := 0] = strip_port ?v @ 0 # t' @ [0]"
        using t by (metis append_Cons append_assoc list_update_length)
      then show ?thesis using False s0 by (simp add: cstr_append_nul)
    qed
    moreover have "parse_http_header True (request line0 headers body) False
        = (int (length (strip_port ?v)), Buffer ?buf)" if ok
      using that g Some port_strip [OF z] by (simp add: parse_http_header_def)
    ultimately show ?thesis using Some g by (auto simp: parse_http_header_def)
  qed
qed

text \<open>The request line \<open>G\<close>, a header \<open>Host\<close> in small letters with blanks and a port.\<close>

theorem parse_http_header_request_witness:
  "\<exists>buf. parse_http_header True
      (request [71] [[65, 58, 32, 49], [104, 111, 115, 116, 58, 32, 97, 46, 98, 58, 56, 48]] []) False
      = (3, Buffer buf) \<and> cstr buf = [97, 46, 98]"
  using parse_http_header_request [of "[71]"
      "[[65, 58, 32, 49], [104, 111, 115, 116, 58, 32, 97, 46, 98, 58, 56, 48]]" True "[]"]
  by (simp add: line_ok_def is_host_def host_header_def tolower_def host_value_def isblank_def
      strip_port_def Let_def isdigit_def)

end
