(* ===== verification/Ng_Types.thy ===== *)
theory Ng_Types
  imports Ng_Prelude
begin

text \<open>
  The data of netguard/netguard.h and the world the handlers act on.

  Everything the code gets from outside (the kernel, the clock, the Java callbacks) is a field of
  the record \<open>env\<close>: a function of the number of the call and of the arguments the answer depends
  on, so that two calls may answer differently. What the code does to the outside is a list of
  events. A handler takes the \<open>env\<close> and the \<open>world\<close> and returns its result and the new world.

  The address unions are the 4 or 16 bytes in network order, a \<open>__be16\<close> port is its value after
  \<open>ntohs\<close>, \<open>time_t\<close> is an integer. The text forms \<open>inet_ntop\<close> makes for log lines and callbacks
  are kept as the address bytes.
\<close>

section \<open>Constants\<close>

abbreviation (input) EPOLLIN :: u32 where "EPOLLIN \<equiv> 1"
abbreviation (input) EPOLLOUT :: u32 where "EPOLLOUT \<equiv> 4"
abbreviation (input) EPOLLERR :: u32 where "EPOLLERR \<equiv> 8"
abbreviation (input) EINTR :: int where "EINTR \<equiv> 4"
abbreviation (input) EAGAIN :: int where "EAGAIN \<equiv> 11"
abbreviation (input) EINPROGRESS :: int where "EINPROGRESS \<equiv> 115"
abbreviation (input) IPPROTO_ICMP :: u8 where "IPPROTO_ICMP \<equiv> 1"
abbreviation (input) IPPROTO_TCP :: u8 where "IPPROTO_TCP \<equiv> 6"
abbreviation (input) IPPROTO_UDP :: u8 where "IPPROTO_UDP \<equiv> 17"
abbreviation (input) IPPROTO_ICMPV6 :: u8 where "IPPROTO_ICMPV6 \<equiv> 58"

section \<open>Sessions\<close>

text \<open>The values of \<open>tcp_session.state\<close>; \<open>TCP_ZERO\<close> is the value after \<open>memset\<close>.\<close>

datatype tcp_state = TCP_ZERO | TCP_ESTABLISHED | TCP_SYN_SENT | TCP_SYN_RECV | TCP_FIN_WAIT1
  | TCP_FIN_WAIT2 | TCP_TIME_WAIT | TCP_CLOSE | TCP_CLOSE_WAIT | TCP_LAST_ACK | TCP_LISTEN
  | TCP_CLOSING

datatype socks5_state = SOCKS5_ZERO | SOCKS5_NONE | SOCKS5_HELLO | SOCKS5_AUTH | SOCKS5_CONNECT
  | SOCKS5_CONNECTED

datatype udp_state = UDP_ACTIVE | UDP_FINISHING | UDP_CLOSED | UDP_BLOCKED

record segment =
  g_seq :: u32
  g_len :: u16
  g_sent :: u16
  g_psh :: bool
  g_data :: bytes

record icmp_session =
  i_time :: int
  i_uid :: int
  i_version :: nat
  i_saddr :: bytes
  i_daddr :: bytes
  i_id :: u16
  i_stop :: bool

record udp_session =
  u_time :: int
  u_uid :: int
  u_version :: nat
  u_mss :: u16
  u_sent :: u64
  u_received :: u64
  u_saddr :: bytes
  u_source :: u16
  u_daddr :: bytes
  u_dest :: u16
  u_state :: udp_state

record tcp_session =
  t_uid :: int
  t_time :: int
  t_version :: nat
  t_mss :: u16
  t_recv_scale :: u8
  t_send_scale :: u8
  t_recv_window :: u32
  t_send_window :: u32
  t_unconfirmed :: u16
  t_remote_seq :: u32
  t_local_seq :: u32
  t_remote_start :: u32
  t_local_start :: u32
  t_acked :: u32
  t_last_keep_alive :: int
  t_sent :: u64
  t_received :: u64
  t_saddr :: bytes
  t_source :: u16
  t_daddr :: bytes
  t_dest :: u16
  t_state :: tcp_state
  t_socks5 :: socks5_state
  t_forward :: "segment list"

text \<open>The union of \<open>ng_session\<close> and its \<open>protocol\<close> tag; \<open>IPPROTO_ICMP\<close> and \<open>IPPROTO_ICMPV6\<close> are
  treated alike everywhere and share a constructor.\<close>

datatype proto_session = Icmp icmp_session | Udp udp_session | Tcp tcp_session

lemma yields_proto_session [yields_intro]:
  "(\<And>c. x = Icmp c \<Longrightarrow> yields (f c) P) \<Longrightarrow> (\<And>u. x = Udp u \<Longrightarrow> yields (g u) P) \<Longrightarrow> (\<And>t. x = Tcp t \<Longrightarrow> yields (h t) P) \<Longrightarrow>
   yields (case x of Icmp c \<Rightarrow> f c | Udp u \<Rightarrow> g u | Tcp t \<Rightarrow> h t) P"
  by (cases x) simp_all

text \<open>\<open>s_ptr\<close> is the address of the block, what \<open>ev.data.ptr\<close> holds; \<open>s_events\<close> is \<open>ev.events\<close>.\<close>

record ng_session =
  s_ptr :: nat
  s_proto :: proto_session
  s_socket :: int
  s_events :: u32

record allowed =
  raddr :: bytes \<comment> \<open>the text of an address\<close>
  rport :: u16

section \<open>The world\<close>

datatype sockaddr = Sin4 bytes u16 | Sin6 bytes u16

datatype recv_result = RecvError int | RecvData bytes

datatype event =
    TunWrite bytes
  | Send int bytes bool \<comment> \<open>socket, data, \<open>MSG_MORE\<close>\<close>
  | Sent int bytes \<comment> \<open>the bytes the kernel took\<close>
  | Received int bytes \<comment> \<open>the bytes the kernel gave\<close>
  | SendTo int bytes sockaddr
  | Close int
  | Connect int sockaddr
  | EpollAdd int u32
  | EpollMod int u32
  | KeepAlive int
  | Account nat u8 bytes u16 int u64 u64 \<comment> \<open>\<open>account_usage\<close>\<close>
  | DnsResolved bytes bytes bytes int int
  | LogBlocked u16 bytes \<comment> \<open>\<open>log_packet\<close> of a blocked name\<close>
  | PcapRecord bytes
  | EpollWait int
  | ReportExit

text \<open>What \<open>create_packet\<close> and \<open>create_packet_ulysses\<close> hand to Java.\<close>

datatype pkt_data = NoText | IcmpText u8 u8 | SniText

record pkt_info =
  p_version :: nat
  p_protocol :: u8
  p_flags :: bytes
  p_saddr :: bytes
  p_sport :: u16
  p_daddr :: bytes
  p_dport :: u16
  p_data :: pkt_data
  p_uid :: int
  p_host :: bytes
  p_tls :: bool

text \<open>What \<open>sscanf\<close> makes of a line of /proc/net: the number of fields, and the fields.\<close>

record proc_line =
  l_fields :: int
  l_saddr :: bytes
  l_sport :: int
  l_daddr :: bytes
  l_dport :: int
  l_uid :: int

text \<open>What \<open>epoll_wait\<close> reports: the pipe, the tun device or the session at an address, with the
  events.\<close>

datatype epoll_target = OnPipe | OnTun | OnSession nat

datatype poll_result = PollError int | PollReady "(epoll_target \<times> u32) list"

record world =
  w_calls :: nat
  w_out :: "event list"

record env =
  e_time :: "nat \<Rightarrow> int"
  e_ms :: "nat \<Rightarrow> int"
  e_clock :: "nat \<Rightarrow> u32 \<times> u32"
  e_write :: "nat \<Rightarrow> bytes \<Rightarrow> int"
  e_send :: "nat \<Rightarrow> int \<Rightarrow> bytes \<Rightarrow> int \<times> int"
  e_recv :: "nat \<Rightarrow> int \<Rightarrow> nat \<Rightarrow> recv_result"
  e_sendto :: "nat \<Rightarrow> int \<Rightarrow> bytes \<Rightarrow> int \<times> int"
  e_epoll :: "nat \<Rightarrow> int \<Rightarrow> bool"
  e_sndbuf :: "nat \<Rightarrow> int \<Rightarrow> int"
  e_outq :: "nat \<Rightarrow> int \<Rightarrow> int"
  e_socket :: "nat \<Rightarrow> nat \<Rightarrow> u8 \<Rightarrow> int"
  e_protect :: "nat \<Rightarrow> int \<Rightarrow> int"
  e_nonblock :: "nat \<Rightarrow> int \<Rightarrow> bool"
  e_connect :: "nat \<Rightarrow> int \<Rightarrow> sockaddr \<Rightarrow> int \<times> int"
  e_rand :: "nat \<Rightarrow> u32"
  e_malloc :: "nat \<Rightarrow> nat"
  e_garbage :: "nat \<Rightarrow> udp_session \<times> u32"
  e_from_hosts :: "nat \<Rightarrow> bytes \<Rightarrow> u16 \<Rightarrow> bytes option"
  e_blocked :: "nat \<Rightarrow> bytes \<Rightarrow> bool"
  e_pton :: "bytes \<Rightarrow> bytes"
  e_allowed :: "nat \<Rightarrow> pkt_info \<Rightarrow> (bytes option \<times> int) option"
  e_uid_q :: "nat \<Rightarrow> nat \<Rightarrow> u8 \<Rightarrow> bytes \<Rightarrow> u16 \<Rightarrow> bytes \<Rightarrow> u16 \<Rightarrow> int"
  e_proc :: "nat \<Rightarrow> nat \<Rightarrow> u8 \<Rightarrow> proc_line list option"
  e_wall :: "nat \<Rightarrow> int"
  e_mem :: "nat \<Rightarrow> bool"
  e_heap :: "nat \<Rightarrow> bytes"
  e_tun_read :: "nat \<Rightarrow> recv_result"
  e_readable :: "nat \<Rightarrow> int \<Rightarrow> bool"
  e_poll :: "nat \<Rightarrow> poll_result"
  e_stopping :: "nat \<Rightarrow> bool"
  e_epoll_create :: "nat \<Rightarrow> int"
  pipe_fd :: int
  tun_fd :: int
  sdk :: int
  verbose_log :: bool
  fwd53 :: bool
  rcode :: u16
  pcap_open :: bool
  pcap_record_size :: nat
  socks5_addr :: bytes
  socks5_port :: u16
  socks5_username :: bytes
  socks5_password :: bytes

lemma yields_recv_result [yields_intro]:
  "(\<And>e. x = RecvError e \<Longrightarrow> yields (f e) P) \<Longrightarrow> (\<And>b. x = RecvData b \<Longrightarrow> yields (g b) P) \<Longrightarrow>
   yields (case x of RecvError e \<Rightarrow> f e | RecvData b \<Rightarrow> g b) P"
  by (cases x) simp_all

text \<open>Count a call, and record an event.\<close>

definition called :: "world \<Rightarrow> world" where
  "called w = w\<lparr>w_calls := w_calls w + 1\<rparr>"

definition emit :: "event \<Rightarrow> world \<Rightarrow> world" where
  "emit e w = w\<lparr>w_out := w_out w @ [e]\<rparr>"

definition sys_time :: "env \<Rightarrow> world \<Rightarrow> int \<times> world" where
  "sys_time E w = (e_time E (w_calls w), called w)"

definition sys_ms :: "env \<Rightarrow> world \<Rightarrow> int \<times> world" where
  "sys_ms E w = (e_ms E (w_calls w), called w)"

text \<open>\<open>write(args->tun, buffer, len)\<close>: what the kernel answered.\<close>

definition sys_write :: "env \<Rightarrow> bytes \<Rightarrow> world \<Rightarrow> int \<times> world" where
  "sys_write E b w = (e_write E (w_calls w) b, emit (TunWrite b) (called w))"

text \<open>\<open>send\<close>: the number of bytes taken, never more than were offered, or -1 and \<open>errno\<close>.\<close>

definition sys_send :: "env \<Rightarrow> int \<Rightarrow> bytes \<Rightarrow> bool \<Rightarrow> world \<Rightarrow> (int \<times> int) \<times> world" where
  "sys_send E s b msg_more w =
     (let (r, err) = e_send E (w_calls w) s b; r = (if r < 0 then -1 else min r (int (length b)));
          w = emit (Send s b msg_more) (called w)
      in ((r, err), if r < 0 then w else emit (Sent s (take (nat r) b)) w))"

text \<open>\<open>recv\<close> into a buffer of \<open>n\<close> bytes.\<close>

definition sys_recv :: "env \<Rightarrow> int \<Rightarrow> nat \<Rightarrow> world \<Rightarrow> recv_result \<times> world" where
  "sys_recv E s n w =
     (case e_recv E (w_calls w) s n of
        RecvError err \<Rightarrow> (RecvError err, called w)
      | RecvData b \<Rightarrow> (RecvData (take n b), emit (Received s (take n b)) (called w)))"

definition sys_sendto :: "env \<Rightarrow> int \<Rightarrow> bytes \<Rightarrow> sockaddr \<Rightarrow> world \<Rightarrow> (int \<times> int) \<times> world" where
  "sys_sendto E s b a w = (e_sendto E (w_calls w) s b, emit (SendTo s b a) (called w))"

text \<open>\<open>close\<close>: its result is only logged.\<close>

definition sys_close :: "int \<Rightarrow> world \<Rightarrow> world" where
  "sys_close s w = emit (Close s) (called w)"

text \<open>\<open>epoll_ctl\<close>: true when it succeeds.\<close>

definition sys_epoll :: "env \<Rightarrow> event \<Rightarrow> int \<Rightarrow> world \<Rightarrow> bool \<times> world" where
  "sys_epoll E e s w = (e_epoll E (w_calls w) s, emit e (called w))"

text \<open>Any other question: the answer, and a world in which a call more was made.\<close>

definition ask :: "(nat \<Rightarrow> 'a) \<Rightarrow> world \<Rightarrow> 'a \<times> world" where
  "ask f w = (f (w_calls w), called w)"

lemma w_out_called [simp]: "w_out (called w) = w_out w"
  by (simp add: called_def)

lemma w_out_emit [simp]: "w_out (emit e w) = w_out w @ [e]"
  by (simp add: emit_def)

section \<open>An environment\<close>

text \<open>A quiet environment, in which everything succeeds and no data arrives: what the concrete
  instances of the theorems run in.\<close>

definition example_env :: env where
  "example_env = \<lparr>e_time = (\<lambda>k. 1000 + int k), e_ms = (\<lambda>k. 1000000 + int k), e_clock = (\<lambda>k. (1000, 0)),
     e_write = (\<lambda>k b. int (length b)), e_send = (\<lambda>k s b. (int (length b), 0)),
     e_recv = (\<lambda>k s n. RecvData []), e_sendto = (\<lambda>k s b. (int (length b), 0)),
     e_epoll = (\<lambda>k s. True), e_sndbuf = (\<lambda>k s. 100000), e_outq = (\<lambda>k s. 0),
     e_socket = (\<lambda>k v p. 7), e_protect = (\<lambda>k s. 0), e_nonblock = (\<lambda>k s. True),
     e_connect = (\<lambda>k s a. (0, 0)), e_rand = (\<lambda>k. 5000), e_malloc = (\<lambda>k. 64 * k),
     e_garbage = (\<lambda>k. (\<lparr>u_time = 0, u_uid = 0, u_version = 0, u_mss = 0, u_sent = 0, u_received = 0,
        u_saddr = [], u_source = 0, u_daddr = [], u_dest = 0, u_state = UDP_ACTIVE\<rparr>, 0)),
     e_from_hosts = (\<lambda>k n q. None), e_blocked = (\<lambda>k n. False), e_pton = (\<lambda>a. [127, 0, 0, 1]),
     e_allowed = (\<lambda>k p. Some (None, 0)), e_uid_q = (\<lambda>k v p sa sp da dp. 10), e_proc = (\<lambda>k v p. None),
     e_wall = (\<lambda>k. 1000000 + int k), e_mem = (\<lambda>k. True), e_heap = (\<lambda>k. []),
     e_tun_read = (\<lambda>k. RecvError EAGAIN), e_readable = (\<lambda>k s. False), e_poll = (\<lambda>k. PollReady []),
     e_stopping = (\<lambda>k. 9 < k), e_epoll_create = (\<lambda>k. 4), pipe_fd = 3, tun_fd = 5, sdk = 33, verbose_log = False,
     fwd53 = True, rcode = 3, pcap_open = False, pcap_record_size = 64,
     socks5_addr = [], socks5_port = 0, socks5_username = [], socks5_password = []\<rparr>"

definition example_world :: world where
  "example_world = \<lparr>w_calls = 0, w_out = []\<rparr>"

definition example_tcp :: tcp_session where
  "example_tcp = \<lparr>t_uid = 10, t_time = 0, t_version = 4, t_mss = 1000, t_recv_scale = 2,
     t_send_scale = 2, t_recv_window = 4000, t_send_window = 8000, t_unconfirmed = 0,
     t_remote_seq = 100, t_local_seq = 200, t_remote_start = 100, t_local_start = 200, t_acked = 0,
     t_last_keep_alive = 0, t_sent = 0, t_received = 0, t_saddr = [10, 1, 10, 1], t_source = 4000,
     t_daddr = [1, 2, 3, 4], t_dest = 80, t_state = TCP_ESTABLISHED, t_socks5 = SOCKS5_CONNECTED,
     t_forward = []\<rparr>"

definition example_udp :: udp_session where
  "example_udp = \<lparr>u_time = 0, u_uid = 10, u_version = 6, u_mss = 1000, u_sent = 0, u_received = 0,
     u_saddr = replicate 16 1, u_source = 4000, u_daddr = replicate 16 2, u_dest = 53,
     u_state = UDP_ACTIVE\<rparr>"

end
