(* ===== verification/Ng_Packet.thy ===== *)
theory Ng_Packet
  imports Ng_Types Ng_Util
begin

text \<open>
  The packets the proxy writes to the tun device: \<open>write_tcp\<close>, \<open>write_udp\<close> and \<open>write_icmp\<close>, and
  the struct accesses with which the handlers read packets. The builders are related to the
  reference by the checksum laws of \<open>Ng_Util\<close>: the header and the transport part of every packet
  sum to 0xFFFF, so a receiver accepts them.
\<close>

section \<open>Headers as bytes\<close>

definition get_mtu :: u16 where
  "get_mtu = 10000"

definition get_default_mss :: "nat \<Rightarrow> u16" where
  "get_default_mss version = (if version = 4 then get_mtu - 20 - 20 else get_mtu - 40 - 20)"

text \<open>\<open>struct iphdr\<close> as the three writers fill it: the check field is computed over the header
  with the field zero and stored without a byte swap.\<close>

definition ip4_header :: "u8 \<Rightarrow> bytes \<Rightarrow> bytes \<Rightarrow> nat \<Rightarrow> bytes" where
  "ip4_header protocol saddr daddr len =
     (let h1 = [0x45, 0] @ u16_be (of_nat len) @ [0, 0, 0, 0, 64, protocol];
          h2 = saddr @ daddr
      in h1 @ u16_le (NOT (calc_checksum 0 (h1 @ [0, 0] @ h2))) @ h2)"

definition ip6_header :: "u8 \<Rightarrow> bytes \<Rightarrow> bytes \<Rightarrow> nat \<Rightarrow> bytes" where
  "ip6_header nxt src dst plen = [0x60, 0, 0, 0] @ u16_be (of_nat plen) @ [nxt, 64] @ src @ dst"

definition pseudo4 :: "bytes \<Rightarrow> bytes \<Rightarrow> u8 \<Rightarrow> nat \<Rightarrow> bytes" where
  "pseudo4 src dst p len = src @ dst @ [0, p] @ u16_be (of_nat len)"

text \<open>\<open>struct ip6_hdr_pseudo\<close>: the 32-bit length is assigned from the 16-bit field in network
  order, the addresses are taken in the opposite order.\<close>

definition pseudo6 :: "bytes \<Rightarrow> bytes \<Rightarrow> nat \<Rightarrow> u8 \<Rightarrow> bytes" where
  "pseudo6 ip6_src ip6_dst plen nxt =
     ip6_dst @ ip6_src @ u16_be (of_nat plen) @ [0, 0] @ [0, 0, 0, nxt]"

section \<open>TCP\<close>

definition tcp_flags :: "bool \<Rightarrow> bool \<Rightarrow> bool \<Rightarrow> bool \<Rightarrow> u8" where
  "tcp_flags syn ack fin rst = of_bool fin + 2 * of_bool syn + 4 * of_bool rst + 16 * of_bool ack"

text \<open>The window is shifted by the scale the peer asked for; a shift by 32 or more, undefined in C,
  is taken to leave no bits.\<close>

definition tcp_window :: "tcp_session \<Rightarrow> u16" where
  "tcp_window t = ucast (drop_bit (unat (t_recv_scale t)) (t_recv_window t))"

text \<open>\<open>struct tcphdr\<close> up to and from the check field.\<close>

definition tcp_header1 :: "tcp_session \<Rightarrow> nat \<Rightarrow> bool \<Rightarrow> bool \<Rightarrow> bool \<Rightarrow> bool \<Rightarrow> bytes" where
  "tcp_header1 t optlen syn ack fin rst =
     u16_be (t_dest t) @ u16_be (t_source t) @ u32_be (t_local_seq t) @
     u32_be (if ack then t_remote_seq t else 0) @
     [of_nat ((20 + optlen) div 4) * 16, tcp_flags syn ack fin rst] @ u16_be (tcp_window t)"

definition tcp_urg_ptr :: bytes where "tcp_urg_ptr = [0, 0]"

text \<open>MSS, window scale, end of options. The MSS is stored in host order.\<close>

definition tcp_options :: "tcp_session \<Rightarrow> bool \<Rightarrow> bytes" where
  "tcp_options t syn =
     (if syn then [2, 4] @ u16_le (get_default_mss (t_version t)) @ [3, 3, t_recv_scale t, 0]
      else [])"

text \<open>The checksum is carried over the pseudo header, the header, the options and the data.\<close>

definition tcp_part :: "bytes \<Rightarrow> tcp_session \<Rightarrow> bytes \<Rightarrow> bool \<Rightarrow> bool \<Rightarrow> bool \<Rightarrow> bool \<Rightarrow> bytes" where
  "tcp_part pseudo t data syn ack fin rst =
     (let options = tcp_options t syn;
          h1 = tcp_header1 t (length options) syn ack fin rst;
          csum = calc_checksum 0 pseudo;
          csum = calc_checksum csum (h1 @ [0, 0] @ tcp_urg_ptr);
          csum = calc_checksum csum options;
          csum = calc_checksum csum data
      in h1 @ u16_le (NOT csum) @ tcp_urg_ptr @ options @ data)"

definition tcp_packet :: "tcp_session \<Rightarrow> bytes \<Rightarrow> bool \<Rightarrow> bool \<Rightarrow> bool \<Rightarrow> bool \<Rightarrow> bytes" where
  "tcp_packet t data syn ack fin rst =
     (let tlen = 20 + (if syn then 8 else 0) + length data
      in if t_version t = 4
         then ip4_header IPPROTO_TCP (t_daddr t) (t_saddr t) (20 + tlen) @
           tcp_part (pseudo4 (t_daddr t) (t_saddr t) IPPROTO_TCP tlen) t data syn ack fin rst
         else ip6_header IPPROTO_TCP (t_daddr t) (t_saddr t) tlen @
           tcp_part (pseudo6 (t_daddr t) (t_saddr t) tlen IPPROTO_TCP) t data syn ack fin rst)"

section \<open>UDP and ICMP\<close>

definition udp_part :: "bytes \<Rightarrow> udp_session \<Rightarrow> bytes \<Rightarrow> bytes" where
  "udp_part pseudo u data =
     (let h1 = u16_be (u_dest u) @ u16_be (u_source u) @ u16_be (of_nat (8 + length data));
          csum = calc_checksum 0 pseudo;
          csum = calc_checksum csum (h1 @ [0, 0]);
          csum = calc_checksum csum data
      in h1 @ u16_le (NOT csum) @ data)"

definition udp_packet :: "udp_session \<Rightarrow> bytes \<Rightarrow> bytes" where
  "udp_packet u data =
     (if u_version u = 4
      then ip4_header IPPROTO_UDP (u_daddr u) (u_saddr u) (20 + 8 + length data) @
        udp_part (pseudo4 (u_daddr u) (u_saddr u) IPPROTO_UDP (8 + length data)) u data
      else ip6_header IPPROTO_UDP (u_daddr u) (u_saddr u) (8 + length data) @
        udp_part (pseudo6 (u_daddr u) (u_saddr u) (8 + length data) IPPROTO_UDP) u data)"

definition icmp_packet :: "icmp_session \<Rightarrow> bytes \<Rightarrow> bytes" where
  "icmp_packet c data =
     (if i_version c = 4
      then ip4_header IPPROTO_ICMP (i_daddr c) (i_saddr c) (20 + length data) @ data
      else ip6_header IPPROTO_ICMPV6 (i_daddr c) (i_saddr c) (length data) @ data)"

section \<open>Writing to the tun device\<close>

text \<open>pcap.c: a record is the time stamp, the two lengths and a prefix of the packet.\<close>

definition pcap_rec :: "nat \<Rightarrow> u32 \<times> u32 \<Rightarrow> bytes \<Rightarrow> bytes" where
  "pcap_rec record_size ts buffer =
     (let plen = (if length buffer < record_size then length buffer else record_size)
      in u32_le (fst ts) @ u32_le (snd ts div 1000) @ u32_le (of_nat plen) @
         u32_le (of_nat (length buffer)) @ take plen buffer)"

definition write_pcap_rec :: "env \<Rightarrow> bytes \<Rightarrow> world \<Rightarrow> world" where
  "write_pcap_rec E buffer w =
     (let (ts, w) = ask (e_clock E) w
      in emit (PcapRecord (pcap_rec (pcap_record_size E) ts buffer)) w)"

text \<open>The common end of the three writers: the write, the pcap record, -1 for a short write.\<close>

definition write_tun :: "env \<Rightarrow> bytes \<Rightarrow> world \<Rightarrow> int \<times> world" where
  "write_tun E buffer w =
     (let (res, w) = sys_write E buffer w;
          w = (if res \<ge> 0 \<and> pcap_open E then write_pcap_rec E (take (nat res) buffer) w else w)
      in (if res \<noteq> int (length buffer) then -1 else res, w))"

definition write_tcp :: "env \<Rightarrow> tcp_session \<Rightarrow> bytes \<Rightarrow> bool \<Rightarrow> bool \<Rightarrow> bool \<Rightarrow> bool \<Rightarrow> world \<Rightarrow> int \<times> world" where
  "write_tcp E t data syn ack fin rst w = write_tun E (tcp_packet t data syn ack fin rst) w"

definition write_udp :: "env \<Rightarrow> udp_session \<Rightarrow> bytes \<Rightarrow> world \<Rightarrow> int \<times> world" where
  "write_udp E u data w = write_tun E (udp_packet u data) w"

definition write_icmp :: "env \<Rightarrow> icmp_session \<Rightarrow> bytes \<Rightarrow> world \<Rightarrow> int \<times> world" where
  "write_icmp E c data w = write_tun E (icmp_packet c data) w"

section \<open>Lengths\<close>

lemma length_tcp_header1 [simp]: "length (tcp_header1 t n syn ack fin rst) = 16"
  by (simp add: tcp_header1_def)

lemma length_tcp_options [simp]: "length (tcp_options t syn) = (if syn then 8 else 0)"
  by (simp add: tcp_options_def)

lemma length_tcp_part [simp]:
  "length (tcp_part p t data syn ack fin rst) = 20 + (if syn then 8 else 0) + length data"
  by (simp add: tcp_part_def Let_def tcp_urg_ptr_def)

lemma length_udp_part [simp]: "length (udp_part p u data) = 8 + length data"
  by (simp add: udp_part_def Let_def)

lemma length_ip4_header [simp]: "length (ip4_header p s d n) = 12 + length s + length d"
  by (simp add: ip4_header_def Let_def)

lemma length_ip6_header [simp]: "length (ip6_header p s d n) = 8 + length s + length d"
  by (simp add: ip6_header_def)

section \<open>Checksums\<close>

text \<open>The addresses of a session fit its version.\<close>

definition addr_ok :: "nat \<Rightarrow> bytes \<Rightarrow> bool" where
  "addr_ok version a \<longleftrightarrow> length a = (if version = 4 then 4 else 16)"

lemma ip4_header_checksum:
  assumes "length s = 4" and "length d = 4"
  shows "calc_checksum 0 (ip4_header p s d n) = 0xFFFF"
  unfolding ip4_header_def Let_def using assms by (intro cksum.ck_field) simp_all

lemma tcp_part_checksum:
  assumes "even (length p)" and "length p + length data + 28 \<le> 65536"
  shows "calc_checksum 0 (p @ tcp_part p t data syn ack fin rst) = 0xFFFF"
proof -
  let ?o = "tcp_options t syn" and ?h = "tcp_header1 t (length (tcp_options t syn)) syn ack fin rst"
  have "calc_checksum 0 (p @ ?h @
      u16_le (NOT (calc_checksum (calc_checksum (calc_checksum 0 p) (?h @ [0, 0] @ tcp_urg_ptr @ ?o)) data))
      @ (tcp_urg_ptr @ ?o) @ data) = 0xFFFF"
    using assms by (intro cksum.ck_transport) (simp_all add: tcp_urg_ptr_def)
  moreover have "calc_checksum (calc_checksum 0 p) (?h @ [0, 0] @ tcp_urg_ptr @ ?o) =
      calc_checksum (calc_checksum (calc_checksum 0 p) (?h @ [0, 0] @ tcp_urg_ptr)) ?o"
    using cksum.ck_append [of "?h @ [0, 0] @ tcp_urg_ptr" ?o "calc_checksum 0 p"] assms
    by (simp add: tcp_urg_ptr_def)
  ultimately show ?thesis by (simp add: tcp_part_def Let_def)
qed

lemma udp_part_checksum:
  assumes "even (length p)" and "length p + length data + 8 \<le> 65536"
  shows "calc_checksum 0 (p @ udp_part p u data) = 0xFFFF"
  using cksum.ck_transport [of p "u16_be (u_dest u) @ u16_be (u_source u) @ u16_be (of_nat (8 + length data))"
      "[]" data 0] assms
  by (simp add: udp_part_def Let_def)

section \<open>What a receiver checks\<close>

text \<open>The reference: version, length field and checksums as RFC 791, 793, 768 and 8200 define them,
  read from the packet itself.\<close>

definition rfc_pseudo6 :: "bytes \<Rightarrow> bytes \<Rightarrow> nat \<Rightarrow> u8 \<Rightarrow> bytes" where
  "rfc_pseudo6 src dst len nxt = src @ dst @ u32_be (of_nat len) @ [0, 0, 0, nxt]"

definition packet_valid :: "nat \<Rightarrow> u8 \<Rightarrow> bytes \<Rightarrow> bool" where
  "packet_valid version proto pkt \<longleftrightarrow>
     (if version = 4
      then rd pkt 0 = Some 0x45 \<and> rd16 pkt 2 = Some (of_nat (length pkt)) \<and> rd pkt 9 = Some proto \<and>
        calc_checksum 0 (take 20 pkt) = 0xFFFF \<and>
        calc_checksum 0 (pseudo4 (take 4 (drop 12 pkt)) (take 4 (drop 16 pkt)) proto (length pkt - 20)
          @ drop 20 pkt) = 0xFFFF
      else rd pkt 0 = Some 0x60 \<and> rd16 pkt 4 = Some (of_nat (length pkt - 40)) \<and> rd pkt 6 = Some proto \<and>
        calc_checksum 0 (rfc_pseudo6 (take 16 (drop 8 pkt)) (take 16 (drop 24 pkt)) (length pkt - 40) proto
          @ drop 40 pkt) = 0xFFFF)"

lemma length_pseudo6 [simp]: "length (pseudo6 s d n p) = length s + length d + 8"
  by (simp add: pseudo6_def)

lemma length_pseudo4 [simp]: "length (pseudo4 s d p n) = length s + length d + 4"
  by (simp add: pseudo4_def)

lemma word_sum_u16_pair: "word_sum (u16_be w @ xs) = word_sum (u16_be w) + word_sum xs"
  by (simp add: word_sum_append)

lemma u32_be_small: "n < 65536 \<Longrightarrow> u32_be (of_nat n) = [0, 0] @ u16_be (of_nat n)"
proof -
  assume n: "n < 65536"
  then have "drop_bit 16 (of_nat n :: u32) = 0"
    by (simp add: unat_hi_zero_iff unat_of_nat)
  moreover have "(ucast (of_nat n :: u32) :: u16) = of_nat n"
    using n by (simp add: word_unat_eq_iff unat_lo_u32 unat_of_nat)
  ultimately show ?thesis by (simp add: u32_be_def) (simp add: u16_be_def)
qed

text \<open>The order of the words in the IPv6 pseudo header of the code does not change the sum.\<close>

lemma pseudo6_rfc:
  assumes "length s = 16" and "length d = 16" and "n < 65536" and "length x \<le> 65000"
  shows "calc_checksum 0 (rfc_pseudo6 s d n p @ x) = calc_checksum 0 (pseudo6 s d n p @ x)"
proof -
  have "word_sum (rfc_pseudo6 s d n p @ x) = word_sum (pseudo6 s d n p @ x)"
    using assms by (simp add: rfc_pseudo6_def pseudo6_def u32_be_small word_sum_append)
  then have "unat (calc_checksum 0 (rfc_pseudo6 s d n p @ x)) = unat (calc_checksum 0 (pseudo6 s d n p @ x))"
    using assms by (simp add: calc_checksum_ones) (simp add: rfc_pseudo6_def calc_checksum_ones)
  then show ?thesis by (simp only: word_unat_eq_iff)
qed

lemma packet_valid4:
  assumes "length s = 4" and "length d = 4" and "length x + 20 < 65536"
    and "calc_checksum 0 (pseudo4 s d p (length x) @ x) = 0xFFFF"
  shows "packet_valid 4 p (ip4_header p s d (20 + length x) @ x)"
proof -
  have h: "length (ip4_header p s d (20 + length x)) = 20" using assms by simp
  have "take 4 (drop 12 (ip4_header p s d (20 + length x) @ x)) = s"
    "take 4 (drop 16 (ip4_header p s d (20 + length x) @ x)) = d"
    using assms by (simp_all add: ip4_header_def Let_def u16_be_def u16_le_def)
  moreover have "rd16 (ip4_header p s d (20 + length x) @ x) 2 = Some (of_nat (20 + length x))"
    using rd16_mid [of "[0x45, 0]" 2 "of_nat (20 + length x)"]
    by (simp add: ip4_header_def Let_def del: of_nat_add)
  ultimately show ?thesis
    using assms h ip4_header_checksum [of s d p "20 + length x"]
    by (simp add: packet_valid_def) (simp add: rd_def ip4_header_def Let_def u16_be_def)
qed

lemma packet_valid6:
  assumes "v \<noteq> 4" and "length s = 16" and "length d = 16" and "length x \<le> 65000"
    and "calc_checksum 0 (pseudo6 s d (length x) p @ x) = 0xFFFF"
  shows "packet_valid v p (ip6_header p s d (length x) @ x)"
proof -
  have h: "length (ip6_header p s d (length x)) = 40" using assms by simp
  have "take 16 (drop 8 (ip6_header p s d (length x) @ x)) = s"
    "take 16 (drop 24 (ip6_header p s d (length x) @ x)) = d"
    using assms by (simp_all add: ip6_header_def u16_be_def)
  moreover have "rd16 (ip6_header p s d (length x) @ x) 4 = Some (of_nat (length x))"
    using rd16_mid [of "[0x60, 0, 0, 0]" 4 "of_nat (length x)"]
    by (simp add: ip6_header_def)
  ultimately show ?thesis
    using assms h pseudo6_rfc [of s d "length x" x p]
    by (simp add: packet_valid_def) (simp add: rd_def ip6_header_def u16_be_def)
qed

text \<open>\<open>write_tun\<close> writes the packet, once, before anything else it does, and answers -1 or the length.\<close>

lemma w_out_write_tun:
  "\<exists>rs. w_out (snd (write_tun E b w)) = w_out w @ TunWrite b # rs \<and> set rs \<subseteq> range PcapRecord"
  by (auto simp: write_tun_def Let_def sys_write_def write_pcap_rec_def ask_def)

lemma write_tun_result: "fst (write_tun E b w) = -1 \<or> fst (write_tun E b w) = int (length b)"
  by (auto simp: write_tun_def Let_def sys_write_def split: prod.split)


text \<open>The same for \<open>write_udp\<close>: header, pseudo header and datagram sum to 0xFFFF for both IP
  versions, and nothing else is written.\<close>

theorem write_udp_valid:
  assumes "addr_ok (u_version u) (u_saddr u)" and "addr_ok (u_version u) (u_daddr u)"
    and "length data \<le> 64000"
  shows "\<exists>p rs. w_out (snd (write_udp E u data w)) = w_out w @ TunWrite p # rs \<and>
    set rs \<subseteq> range PcapRecord \<and> packet_valid (u_version u) IPPROTO_UDP p \<and>
    drop (length p - length data) p = data \<and>
    fst (write_udp E u data w) \<in> {-1, int (length p)}"
proof -
  let ?p = "udp_packet u data" and ?n = "8 + length data"
  have d: "drop (length (h @ udp_part q u data) - length data) (h @ udp_part q u data) = data" for h q
    by (simp add: udp_part_def Let_def)
  have "packet_valid (u_version u) IPPROTO_UDP ?p"
  proof (cases "u_version u = 4")
    case True
    then have a: "length (u_saddr u) = 4" "length (u_daddr u) = 4" using assms by (auto simp: addr_ok_def)
    let ?x = "udp_part (pseudo4 (u_daddr u) (u_saddr u) IPPROTO_UDP ?n) u data"
    have "packet_valid 4 IPPROTO_UDP (ip4_header IPPROTO_UDP (u_daddr u) (u_saddr u) (20 + length ?x) @ ?x)"
    proof (rule packet_valid4)
      have "calc_checksum 0 (pseudo4 (u_daddr u) (u_saddr u) IPPROTO_UDP ?n @ ?x) = 0xFFFF"
        using a assms(3) by (intro udp_part_checksum) simp_all
      then show "calc_checksum 0 (pseudo4 (u_daddr u) (u_saddr u) IPPROTO_UDP (length ?x) @ ?x) = 0xFFFF"
        by simp
    qed (use a assms(3) in auto)
    then show ?thesis using True by (simp add: udp_packet_def)
  next
    case False
    then have a: "length (u_saddr u) = 16" "length (u_daddr u) = 16" using assms by (auto simp: addr_ok_def)
    let ?x = "udp_part (pseudo6 (u_daddr u) (u_saddr u) ?n IPPROTO_UDP) u data"
    have "packet_valid (u_version u) IPPROTO_UDP (ip6_header IPPROTO_UDP (u_daddr u) (u_saddr u) (length ?x) @ ?x)"
    proof (rule packet_valid6)
      have "calc_checksum 0 (pseudo6 (u_daddr u) (u_saddr u) ?n IPPROTO_UDP @ ?x) = 0xFFFF"
        using a assms(3) by (intro udp_part_checksum) simp_all
      then show "calc_checksum 0 (pseudo6 (u_daddr u) (u_saddr u) (length ?x) IPPROTO_UDP @ ?x) = 0xFFFF"
        by simp
    qed (use a assms(3) False in auto)
    then show ?thesis using False by (simp add: udp_packet_def)
  qed
  moreover have "drop (length ?p - length data) ?p = data"
    unfolding udp_packet_def by (auto simp only: d split: if_split)
  ultimately show ?thesis
    using w_out_write_tun [of E ?p w] write_tun_result [of E ?p w] by (auto simp: write_udp_def)
qed

section \<open>Reading headers\<close>

text \<open>\<open>struct tcphdr\<close> and \<open>struct udphdr\<close> in a packet, the fields after \<open>ntohs\<close>/\<open>ntohl\<close>.\<close>

record tcphdr =
  th_source :: u16
  th_dest :: u16
  th_seq :: u32
  th_ack_seq :: u32
  th_doff :: u8
  th_fin :: bool
  th_syn :: bool
  th_rst :: bool
  th_psh :: bool
  th_ack :: bool
  th_urg :: bool
  th_window :: u16

definition get_tcphdr :: "bytes \<Rightarrow> nat \<Rightarrow> tcphdr option" where
  "get_tcphdr pkt payload = do {
     source \<leftarrow> rd16 pkt payload;
     dest \<leftarrow> rd16 pkt (payload + 2);
     seq \<leftarrow> rd32 pkt (payload + 4);
     ack_seq \<leftarrow> rd32 pkt (payload + 8);
     doff \<leftarrow> rd pkt (payload + 12);
     fl \<leftarrow> rd pkt (payload + 13);
     window \<leftarrow> rd16 pkt (payload + 14);
     Some \<lparr>th_source = source, th_dest = dest, th_seq = seq, th_ack_seq = ack_seq,
       th_doff = drop_bit 4 doff, th_fin = bit fl 0, th_syn = bit fl 1, th_rst = bit fl 2,
       th_psh = bit fl 3, th_ack = bit fl 4, th_urg = bit fl 5, th_window = window\<rparr> }"

lemma get_tcphdr_at:
  assumes "length hdr = n"
  shows "get_tcphdr (hdr @ u16_be s @ u16_be d @ u32_be q @ u32_be a @ [x, y] @ u16_be v @ rest) n =
    Some \<lparr>th_source = s, th_dest = d, th_seq = q, th_ack_seq = a, th_doff = drop_bit 4 x,
      th_fin = bit y 0, th_syn = bit y 1, th_rst = bit y 2, th_psh = bit y 3, th_ack = bit y 4,
      th_urg = bit y 5, th_window = v\<rparr>" (is "get_tcphdr ?p n = _")
proof -
  have "rd16 ?p n = Some s" using assms by (intro rd16_mid)
  moreover have "rd16 ?p (n + 2) = Some d"
    using rd16_mid [of "hdr @ u16_be s" "n + 2" d] assms by simp
  moreover have "rd32 ?p (n + 4) = Some q"
    using rd32_mid [of "hdr @ u16_be s @ u16_be d" "n + 4" q] assms by simp
  moreover have "rd32 ?p (n + 8) = Some a"
    using rd32_mid [of "hdr @ u16_be s @ u16_be d @ u32_be q" "n + 8" a] assms by simp
  moreover have "rd ?p (n + 12) = Some x"
    using assms by (simp add: rd_def nth_append)
  moreover have "rd ?p (n + 13) = Some y"
    using assms by (simp add: rd_def nth_append)
  moreover have "rd16 ?p (n + 14) = Some v"
    using rd16_mid [of "hdr @ u16_be s @ u16_be d @ u32_be q @ u32_be a @ [x, y]" "n + 14" v] assms by simp
  ultimately show ?thesis by (simp add: get_tcphdr_def)
qed

lemma tcp_flags_bits:
  "bit (tcp_flags syn ack fin rst) 0 = fin" "bit (tcp_flags syn ack fin rst) (Suc 0) = syn"
  "bit (tcp_flags syn ack fin rst) 2 = rst" "\<not> bit (tcp_flags syn ack fin rst) 3"
  "bit (tcp_flags syn ack fin rst) 4 = ack" "\<not> bit (tcp_flags syn ack fin rst) 5"
  by (cases fin; cases syn; cases rst; cases ack; simp add: tcp_flags_def)+

lemma tcp_part_reads_back:
  assumes "length hdr = n"
  shows "\<exists>h. get_tcphdr (hdr @ tcp_part p t data syn ack fin rst) n = Some h \<and>
    th_source h = t_dest t \<and> th_dest h = t_source t \<and> th_seq h = t_local_seq t \<and>
    th_ack_seq h = (if ack then t_remote_seq t else 0) \<and>
    (th_syn h, th_ack h, th_fin h, th_rst h, th_psh h, th_urg h) = (syn, ack, fin, rst, False, False) \<and>
    drop (n + 4 * unat (th_doff h)) (hdr @ tcp_part p t data syn ack fin rst) = data"
proof -
  have "\<exists>c. tcp_part p t data syn ack fin rst =
      u16_be (t_dest t) @ u16_be (t_source t) @ u32_be (t_local_seq t) @
      u32_be (if ack then t_remote_seq t else 0) @
      [of_nat ((20 + length (tcp_options t syn)) div 4) * 16, tcp_flags syn ack fin rst] @
      u16_be (tcp_window t) @ u16_le c @ tcp_urg_ptr @ tcp_options t syn @ data"
    by (auto simp: tcp_part_def tcp_header1_def Let_def)
  then obtain c where p: "tcp_part p t data syn ack fin rst =
      u16_be (t_dest t) @ u16_be (t_source t) @ u32_be (t_local_seq t) @
      u32_be (if ack then t_remote_seq t else 0) @
      [of_nat ((20 + length (tcp_options t syn)) div 4) * 16, tcp_flags syn ack fin rst] @
      u16_be (tcp_window t) @ u16_le c @ tcp_urg_ptr @ tcp_options t syn @ data" by blast
  have o: "4 * unat (drop_bit 4 (of_nat ((20 + length (tcp_options t syn)) div 4) * 16 :: u8))
      = 20 + length (tcp_options t syn)"
    by simp
  show ?thesis
    unfolding p get_tcphdr_at [OF assms]
    using assms o by (cases syn) (simp_all add: tcp_flags_bits tcp_urg_ptr_def tcp_options_def)
qed

text \<open>The segments \<open>write_tcp\<close> builds read back: the header accesses of \<open>handle_tcp\<close> find the
  ports swapped, the local sequence number, the confirmed remote sequence number (0 without ACK),
  the flags asked for, no PSH or URG, and a data offset that leads to exactly the data.\<close>

theorem tcp_packet_reads_back:
  assumes "addr_ok (t_version t) (t_saddr t)" and "addr_ok (t_version t) (t_daddr t)"
  shows "\<exists>h. get_tcphdr (tcp_packet t data syn ack fin rst) (if t_version t = 4 then 20 else 40) = Some h \<and>
    th_source h = t_dest t \<and> th_dest h = t_source t \<and> th_seq h = t_local_seq t \<and>
    th_ack_seq h = (if ack then t_remote_seq t else 0) \<and>
    (th_syn h, th_ack h, th_fin h, th_rst h, th_psh h, th_urg h) = (syn, ack, fin, rst, False, False) \<and>
    drop ((if t_version t = 4 then 20 else 40) + 4 * unat (th_doff h))
      (tcp_packet t data syn ack fin rst) = data"
proof (cases "t_version t = 4")
  case True
  then show ?thesis
    unfolding tcp_packet_def Let_def if_P [OF True]
    using assms by (intro tcp_part_reads_back) (simp add: addr_ok_def)
next
  case False
  then show ?thesis
    unfolding tcp_packet_def Let_def if_not_P [OF False]
    using assms by (intro tcp_part_reads_back) (simp add: addr_ok_def)
qed

section \<open>Instances\<close>


theorem write_udp_valid_witness:
  "\<exists>p rs. w_out (snd (write_udp example_env example_udp [1, 2, 3] example_world))
      = TunWrite p # rs \<and> packet_valid 6 IPPROTO_UDP p"
  using write_udp_valid [of example_udp "[1, 2, 3]" example_env "example_world"]
  by (simp add: example_udp_def addr_ok_def example_world_def) blast

theorem tcp_packet_reads_back_witness:
  "\<exists>h. get_tcphdr (tcp_packet example_tcp [7] True True False False) 20 = Some h \<and>
     th_source h = 80 \<and> th_seq h = 200 \<and> th_syn h \<and> \<not> th_rst h \<and>
     drop (20 + 4 * unat (th_doff h)) (tcp_packet example_tcp [7] True True False False) = [7]"
  using tcp_packet_reads_back [of example_tcp "[7]" True True False False]
  by (simp add: addr_ok_def) (simp add: example_tcp_def, blast)

end
