(* ===== verification/Ng_Dns.thy ===== *)
theory Ng_Dns
  imports Ng_Packet
begin

text \<open>
  netguard/dns.c and the DNS part of sunproxy/sunproxy.c: the decoder of compressed names, the
  scan of a response for resolved addresses and blocked names, and the answers made from the
  hosts file. A message is the list of its bytes; a read or a write outside a buffer is \<open>None\<close>.
\<close>

section \<open>get_qname\<close>

definition DNS_QNAME_MAX :: nat where "DNS_QNAME_MAX = 255"
definition DNS_QCLASS_IN :: u16 where "DNS_QCLASS_IN = 1"
definition DNS_QTYPE_A :: u16 where "DNS_QTYPE_A = 1"
definition DNS_QTYPE_AAAA :: u16 where "DNS_QTYPE_AAAA = 28"
definition DNS_SVCB :: u16 where "DNS_SVCB = 64"
definition DNS_HTTPS :: u16 where "DNS_HTTPS = 65"
definition DNS_TTL :: u32 where "DNS_TTL = 600"

lemmas dns_consts = DNS_QNAME_MAX_def DNS_QCLASS_IN_def DNS_QTYPE_A_def DNS_QTYPE_AAAA_def
  DNS_SVCB_def DNS_HTTPS_def DNS_TTL_def

text \<open>The local variables of the loop: \<open>c\<close>, \<open>noff\<close>, \<open>ptr\<close>, \<open>len\<close>, \<open>count\<close>, \<open>off\<close> and the caller's
  buffer. A length with one of the two top bits set is a pointer, any other a label.\<close>

record qname_vars =
  q_c :: bool
  q_noff :: u8
  q_ptr :: u16
  q_len :: u8
  q_off :: u16
  q_name :: bytes

text \<open>One turn of the loop; the flag of the result is \<open>break\<close>.\<close>

definition qname_turn :: "bytes \<Rightarrow> qname_vars \<Rightarrow> (bool \<times> qname_vars) option" where
  "qname_turn data v =
     (let ptr = unat (q_ptr v); len = unat (q_len v); noff = unat (q_noff v)
      in if ptr + 1 < length data \<and> q_len v AND 0xC0 \<noteq> 0 then do {
           b \<leftarrow> rd data (ptr + 1);
           let jump = ucast (q_len v AND 0x3F) * 256 + ucast b;
           if unat jump \<ge> length data then Some (True, v)
           else do {
             l \<leftarrow> rd data (unat jump);
             Some (False, v\<lparr>q_ptr := jump, q_len := l, q_c := True,
               q_off := (if q_c v then q_off v else q_off v + 2)\<rparr>) } }
         else if ptr + 1 + len < length data \<and> noff + len \<le> DNS_QNAME_MAX then do {
           label \<leftarrow> slice data (ptr + 1) len;
           name \<leftarrow> wr (q_name v) noff label;
           name \<leftarrow> wr name (noff + len) [46];
           let jump = q_ptr v + 1 + ucast (q_len v);
           let v = v\<lparr>q_name := name, q_noff := q_noff v + (q_len v + 1)\<rparr>;
           if unat jump \<ge> length data then Some (True, v)
           else do {
             l \<leftarrow> rd data (unat jump);
             Some (False, v\<lparr>q_ptr := jump, q_len := l\<rparr>) } }
         else Some (True, v))"

text \<open>\<open>while (len) { if (count++ > 25) break; ... }\<close>, with \<open>count\<close> an 8-bit variable.\<close>

function qname_loop :: "bytes \<Rightarrow> u8 \<Rightarrow> qname_vars \<Rightarrow> qname_vars option" where
  "qname_loop data count v =
     (if q_len v = 0 \<or> count > 25 then Some v
      else do {
        (stop, v) \<leftarrow> qname_turn data v;
        if stop then Some v else qname_loop data (count + 1) v })"
  by pat_completeness auto
termination
proof (relation "measure (\<lambda>(data, count, v). 26 - unat count)")
  fix data :: bytes and count :: u8 and v :: qname_vars and r :: "bool \<times> qname_vars" and stop v'
  assume "\<not> (q_len v = 0 \<or> 25 < count)"
  then have "unat count \<le> 25" by (simp add: word_less_nat_alt)
  moreover from this have "unat (count + 1) = unat count + 1"
    by (simp add: unat_word_ariths)
  ultimately show "((data, count + 1, v'), data, count, v) \<in> measure (\<lambda>(data, count, v). 26 - unat count)"
    by simp
qed simp

declare qname_loop.simps [simp del]

definition get_qname :: "bytes \<Rightarrow> u16 \<Rightarrow> bytes \<Rightarrow> (int \<times> bytes) option" where
  "get_qname data off qname = do {
     qname \<leftarrow> wr qname 0 [0];
     if unat off \<ge> length data then Some (-1, qname)
     else do {
       len \<leftarrow> rd data (unat off);
       v \<leftarrow> qname_loop data 0 \<lparr>q_c = False, q_noff = 0, q_ptr = off, q_len = len, q_off = off, q_name = qname\<rparr>;
       if q_len v > 0 \<or> q_noff v = 0 then Some (-1, q_name v)
       else do {
         name \<leftarrow> wr (q_name v) (unat (q_noff v) - 1) [0];
         Some (int (unat (if q_c v then q_off v else q_ptr v + 1)), name) } } }"

subsection \<open>No access outside the buffers\<close>

lemma good_wr [good_intro]:
  "i + length ys \<le> length xs \<Longrightarrow> (\<And>zs. wr xs i ys = Some zs \<Longrightarrow> length zs = length xs \<Longrightarrow> good P (f zs)) \<Longrightarrow>
   good P (wr xs i ys \<bind> f)"
  by (simp add: wr_def)

lemma unat_u8_add:
  "unat (a :: u8) + unat b < 256 \<Longrightarrow> unat (a + b) = unat a + unat b"
  by (simp add: unat_word_ariths)

lemma u16_range: "-1 \<le> uint (w :: u16)" "uint (w :: u16) < 65536"
  using unsigned_less [of w, where ?'a = int] order_trans [OF _ unsigned_greater_eq [of w, where ?'a = int], of "-1"]
  by simp_all

lemma u8_pred: "unat (w :: u8) - Suc 0 \<le> 255"
  using unat_u8_lt [of w] by simp

lemma qname_turn_safe:
  assumes "length (q_name v) = 256"
  shows "good (\<lambda>(stop, v'). length (q_name v') = 256) (qname_turn data v)"
  unfolding qname_turn_def Let_def
  by (intro good_intro; (use assms in \<open>auto simp: dns_consts dest!: length_slice\<close>)?)

lemma qname_loop_safe:
  "length (q_name v) = 256 \<Longrightarrow> good (\<lambda>v'. length (q_name v') = 256) (qname_loop data count v)"
proof (induction data count v rule: qname_loop.induct)
  case (1 data count v)
  show ?case
  proof (cases "q_len v = 0 \<or> 25 < count")
    case True
    then show ?thesis using 1 by (subst qname_loop.simps) (simp add: good_def)
  next
    case False
    show ?thesis
      unfolding qname_loop.simps [of data count v] if_not_P [OF False]
      by (rule good_bind [OF qname_turn_safe]) (use 1 False in \<open>auto intro: good_Some split: if_splits\<close>)
  qed
qed

lemma get_qname_ok:
  assumes "length qname = 256"
  shows "\<exists>r q. get_qname data off qname = Some (r, q) \<and> length q = 256 \<and> -1 \<le> r \<and> r < 65536"
proof -
  have "good (\<lambda>(r, q). length q = 256 \<and> -1 \<le> r \<and> r < 65536) (get_qname data off qname)"
    unfolding get_qname_def
  proof (intro good_intro)
    fix zs :: bytes and len
    assume "length zs = length qname"
    then show "good (\<lambda>(r, q). length q = 256 \<and> -1 \<le> r \<and> r < 65536)
      (qname_loop data 0 \<lparr>q_c = False, q_noff = 0, q_ptr = off, q_len = len, q_off = off, q_name = zs\<rparr> \<bind>
        (\<lambda>v. if q_len v > 0 \<or> q_noff v = 0 then Some (-1, q_name v)
          else do {
            name \<leftarrow> wr (q_name v) (unat (q_noff v) - 1) [0];
            Some (int (unat (if q_c v then q_off v else q_ptr v + 1)), name) }))"
      using assms by (intro good_bind [OF qname_loop_safe]) (auto intro!: good_intro u16_range u8_pred)
  qed (use assms in auto)
  then show ?thesis by (auto simp: good_def)
qed

subsection \<open>Names as lists of labels\<close>

text \<open>The wire form of a name (RFC 1035), its text form, and the names the loop takes whole: at most
  26 labels and 255 bytes of text.\<close>

definition enc_labels :: "bytes list \<Rightarrow> bytes" where
  "enc_labels ls = concat (map (\<lambda>l. of_nat (length l) # l) ls)"

definition enc_name :: "bytes list \<Rightarrow> bytes" where
  "enc_name ls = enc_labels ls @ [0]"

definition dotted :: "bytes list \<Rightarrow> bytes" where
  "dotted ls = concat (map (\<lambda>l. l @ [46]) ls)"

definition label_ok :: "bytes \<Rightarrow> bool" where
  "label_ok l \<longleftrightarrow> 0 < length l \<and> length l < 64 \<and> 0 \<notin> set l"

definition name_ok :: "bytes list \<Rightarrow> bool" where
  "name_ok ls \<longleftrightarrow> ls \<noteq> [] \<and> (\<forall>l \<in> set ls. label_ok l) \<and> length ls \<le> 25 \<and> length (dotted ls) \<le> 255"

lemma enc_labels_simps [simp]:
  "enc_labels [] = []" "enc_labels (l # ls) = of_nat (length l) # l @ enc_labels ls"
  by (simp_all add: enc_labels_def)

lemma dotted_simps [simp]: "dotted [] = []" "dotted (l # ls) = l @ 46 # dotted ls"
  by (simp_all add: dotted_def)

lemma length_enc_labels: "length (enc_labels ls) = length (dotted ls)"
  by (induction ls) simp_all

lemma label_len:
  assumes "label_ok l"
  shows "unat (of_nat (length l) :: u8) = length l" and "(of_nat (length l) :: u8) AND 0xC0 = 0"
    and "(of_nat (length l) :: u8) \<noteq> 0"
proof -
  have l: "length l < 64" "0 < length l" using assms by (auto simp: label_ok_def)
  then show u: "unat (of_nat (length l) :: u8) = length l"
    by (simp add: unat_of_nat take_bit_nat_eq_self)
  then show "(of_nat (length l) :: u8) \<noteq> 0" using l by auto
  have t: "(of_nat (length l) :: u8) = take_bit 6 (of_nat (length l))"
    using l by (simp add: take_bit_of_nat take_bit_nat_eq_self)
  have "take_bit 6 (of_nat (length l) :: u8) AND 0xC0 = of_nat (length l) AND (take_bit 6 0xC0)"
    by (simp add: take_bit_eq_mask and.assoc and.commute)
  then show "(of_nat (length l) :: u8) AND 0xC0 = 0" using t by simp
qed

text \<open>One label: it is appended to the buffer with a dot, and the pointer moves past it.\<close>

lemma qname_turn_label:
  assumes "data = pre @ of_nat (length l) # l @ y # post" and "label_ok l" and "length data < 65536"
    and "q_ptr v = of_nat (length pre)" and "q_len v = of_nat (length l)"
    and "q_name v = done @ rest" and "unat (q_noff v) = length done"
    and "length done + length l \<le> 255" and "length (q_name v) = 256"
  shows "qname_turn data v = Some (False, v\<lparr>q_ptr := of_nat (length pre + 1 + length l), q_len := y,
    q_noff := q_noff v + (q_len v + 1), q_name := done @ l @ 46 # drop (length l + 1) rest\<rparr>)"
proof -
  note ll = label_len [OF assms(2)]
  have p: "unat (q_ptr v) = length pre" using assms by (simp add: unat_of_nat take_bit_nat_eq_self)
  have j: "q_ptr v + 1 + ucast (q_len v) = of_nat (length pre + 1 + length l)"
    using assms ll by (simp add: word_unat_eq_iff unat_word_ariths unat_of_nat unsigned_ucast_eq take_bit_eq_mod mod_simps)
  have uj: "unat (of_nat (length pre + 1 + length l) :: u16) = length pre + 1 + length l"
    using assms(1,3) by (intro unat_of_nat16) simp
  have sl: "slice data (length pre + 1) (length l) = Some l"
    by (simp add: assms(1) slice_def)
  have w1: "wr (q_name v) (length done) l = Some (done @ l @ drop (length l) rest)"
    using assms(6,8,9) by (simp add: wr_def)
  have w2: "wr (done @ l @ drop (length l) rest) (length done + length l) [46]
      = Some (done @ l @ 46 # drop (length l + 1) rest)"
    using assms(6,8,9) by (simp add: wr_def)
  have r: "rd data (length pre + 1 + length l) = Some y"
    by (simp add: assms(1) rd_def nth_append)
  have b: "length pre + 1 + length l < length data" by (simp add: assms(1))
  show ?thesis
    unfolding qname_turn_def Let_def j uj
    using assms(5,7,8) ll p sl w1 w2 r b by (simp add: dns_consts)
qed

text \<open>A run of labels.\<close>

lemma qname_loop_labels:
  assumes "data = pre @ enc_labels ls @ y # post" and "\<forall>l \<in> set ls. label_ok l"
    and "length data < 65536" and "q_ptr v = of_nat (length pre)"
    and "q_len v = hd (enc_labels ls @ [y])" and "q_name v = done @ rest"
    and "q_noff v = of_nat (length done)" and "length done + length (dotted ls) \<le> 255"
    and "length (q_name v) = 256" and "unat count + length ls \<le> 26"
  shows "qname_loop data count v = qname_loop data (count + of_nat (length ls))
    (v\<lparr>q_ptr := of_nat (length pre + length (enc_labels ls)), q_len := y,
       q_noff := of_nat (length done + length (dotted ls)),
       q_name := done @ dotted ls @ drop (length (dotted ls)) rest\<rparr>)"
  using assms
proof (induction ls arbitrary: pre v "done" rest count)
  case Nil
  then have "v\<lparr>q_ptr := of_nat (length pre), q_len := y, q_noff := of_nat (length done),
      q_name := done @ rest\<rparr> = v"
    by (cases v) simp
  then show ?case by simp
next
  case (Cons l ls)
  let ?pre = "pre @ of_nat (length l) # l" and ?y = "hd (enc_labels ls @ [y])"
  let ?post = "tl (enc_labels ls @ y # post)"
  let ?v = "v\<lparr>q_ptr := of_nat (length pre + 1 + length l), q_len := ?y,
    q_noff := q_noff v + (q_len v + 1), q_name := done @ l @ 46 # drop (length l + 1) rest\<rparr>"
  have l: "label_ok l" using Cons.prems by simp
  note ll = label_len [OF l]
  have e: "enc_labels ls @ y # post = ?y # ?post" by (cases "enc_labels ls") auto
  have d: "data = pre @ of_nat (length l) # l @ ?y # ?post" using Cons.prems(1) e by simp
  have nd: "unat (q_noff v) = length done"
    using Cons.prems by (simp add: unat_of_nat8)
  have turn: "qname_turn data v = Some (False, ?v)"
    using Cons.prems l d nd by (intro qname_turn_label [OF d]) auto
  have cnt: "\<not> (q_len v = 0 \<or> count > 25)"
    using Cons.prems ll by (auto simp: word_less_nat_alt)
  have uc: "unat (count + 1) = unat count + 1"
    using Cons.prems unat_u8_add [of count 1] by simp
  have step: "qname_loop data count v = qname_loop data (count + 1) ?v"
    using cnt turn by (subst qname_loop.simps) simp
  have "qname_loop data (count + 1) ?v = qname_loop data (count + 1 + of_nat (length ls))
    (?v\<lparr>q_ptr := of_nat (length ?pre + length (enc_labels ls)), q_len := y,
       q_noff := of_nat (length (done @ l @ [46]) + length (dotted ls)),
       q_name := (done @ l @ [46]) @ dotted ls @ drop (length (dotted ls)) (drop (length l + 1) rest)\<rparr>)"
  proof (rule Cons.IH)
    show "data = ?pre @ enc_labels ls @ y # post" using Cons.prems by simp
    show "q_noff ?v = of_nat (length (done @ l @ [46]))" using Cons.prems by simp
    show "unat (count + 1) + length ls \<le> 26" using Cons.prems uc by simp
    show "length (q_name ?v) = 256" using Cons.prems by simp
  qed (use Cons.prems in simp_all)
  then show ?case using step by (simp add: add_ac)
qed

lemma qname_loop_end: "q_len v = 0 \<Longrightarrow> qname_loop data count v = Some v"
  by (subst qname_loop.simps) simp

text \<open>What is left in the buffer after the labels: the text with its last dot replaced.\<close>

lemma qname_text:
  assumes "ls \<noteq> []" and "\<forall>l \<in> set ls. label_ok l" and "length (dotted ls) \<le> 255"
    and "length (dotted ls @ r) = 256"
  shows "\<exists>q. wr (dotted ls @ r) (length (dotted ls) - 1) [0] = Some q \<and> cstr q = butlast (dotted ls) \<and>
    length q = 256"
proof -
  have ne: "dotted ls \<noteq> []" using assms(1) by (cases ls) auto
  have "0 \<notin> set (dotted ls)" using assms(2) by (auto simp: dotted_def label_ok_def)
  then have nz: "0 \<notin> set (butlast (dotted ls))" by (auto dest: in_set_butlastD)
  have t: "take (length (dotted ls) - 1) (dotted ls @ r) = butlast (dotted ls)"
    by (simp add: butlast_conv_take)
  have "length (dotted ls) - 1 + 1 \<le> length (dotted ls @ r)" using ne by (cases "dotted ls") auto
  then show ?thesis
    using t nz assms(4) ne by (cases "length (dotted ls)") (simp_all add: wr_def cstr_append_nul)
qed

lemma get_qname_labels:
  assumes "data = pre @ enc_name ls @ post" and "name_ok ls" and "length data < 65536"
    and "length buf = 256"
  shows "\<exists>q. get_qname data (of_nat (length pre)) buf = Some (int (length pre + length (enc_name ls)), q) \<and>
    cstr q = butlast (dotted ls) \<and> length q = 256"
proof -
  let ?b = "0 # drop 1 buf"
  have ls: "ls \<noteq> []" "\<forall>l \<in> set ls. label_ok l" "length ls \<le> 25" "length (dotted ls) \<le> 255"
    using assms(2) by (auto simp: name_ok_def)
  have w: "wr buf 0 [0] = Some ?b" using assms(4) by (simp add: wr_def)
  have u: "unat (of_nat (length pre) :: u16) = length pre"
    using assms(1,3) by (intro unat_of_nat16) simp
  have h: "rd data (length pre) = Some (hd (enc_labels ls @ [0]))"
    using ls(1) by (cases ls) (simp_all add: assms(1) enc_name_def rd_def)
  let ?v = "\<lparr>q_c = False, q_noff = 0, q_ptr = of_nat (length pre), q_len = hd (enc_labels ls @ [0]),
    q_off = of_nat (length pre), q_name = ?b\<rparr>"
  let ?w = "?v\<lparr>q_ptr := of_nat (length pre + length (enc_labels ls)), q_len := 0,
       q_noff := of_nat (length ([] :: bytes) + length (dotted ls)),
       q_name := [] @ dotted ls @ drop (length (dotted ls)) ?b\<rparr>"
  have lb: "length ?b = 256" using assms(4) by simp
  have "qname_loop data 0 ?v = qname_loop data (0 + of_nat (length ls)) ?w"
    using assms(1,3) ls lb by (intro qname_loop_labels [where post = post]) (simp_all add: enc_name_def)
  then have l: "qname_loop data 0 ?v = Some ?w" by (simp add: qname_loop_end)
  have n: "unat (of_nat (length (dotted ls)) :: u8) = length (dotted ls)"
    using ls(4) by (intro unat_of_nat8) simp
  have nz: "(of_nat (length (dotted ls)) :: u8) \<noteq> 0"
    using n ls(1) by (cases ls) auto
  have r: "unat (of_nat (length pre + length (enc_labels ls)) + 1 :: u16) = length pre + length (enc_name ls)"
    using assms(1,3) unat_of_nat16 [of "length pre + length (enc_name ls)"] by (simp add: enc_name_def add_ac)
  have "length (dotted ls @ drop (length (dotted ls)) ?b) = 256" using lb ls(4) by simp
  then obtain q where "wr (dotted ls @ drop (length (dotted ls)) ?b) (length (dotted ls) - 1) [0] = Some q"
    "cstr q = butlast (dotted ls)" "length q = 256"
    using qname_text [OF ls(1,2,4)] by blast
  then show ?thesis
    using w u h l n nz r assms(1) by (simp add: get_qname_def enc_name_def)
qed

text \<open>A pointer to position \<open>n\<close> of the message.\<close>

definition enc_ptr :: "nat \<Rightarrow> bytes" where
  "enc_ptr n = [of_nat (192 + n div 256), of_nat (n mod 256)]"

lemma enc_ptr_byte:
  assumes "m < 64"
  shows "(of_nat (192 + m) :: u8) AND 0xC0 \<noteq> 0" and "(of_nat (192 + m) :: u8) AND 0x3F = of_nat m"
    and "(of_nat (192 + m) :: u8) \<noteq> 0"
proof -
  have m: "m \<in> set [0..<64]" using assms by simp
  have "\<forall>m \<in> set [0..<64]. (of_nat (192 + m) :: u8) AND 0xC0 \<noteq> 0 \<and>
      (of_nat (192 + m) :: u8) AND 0x3F = of_nat m \<and> (of_nat (192 + m) :: u8) \<noteq> 0"
    by (simp add: upt_conv_Cons)
  with m show "(of_nat (192 + m) :: u8) AND 0xC0 \<noteq> 0" and "(of_nat (192 + m) :: u8) AND 0x3F = of_nat m"
    and "(of_nat (192 + m) :: u8) \<noteq> 0" by blast+
qed

lemma qname_turn_ptr:
  assumes "data = pre @ enc_ptr n @ post" and "n < 16384" and "n < length data" and "length data < 65536"
    and "q_ptr v = of_nat (length pre)" and "q_len v = of_nat (192 + n div 256)" and "\<not> q_c v"
  shows "qname_turn data v = Some (False, v\<lparr>q_ptr := of_nat n, q_len := data ! n, q_c := True,
    q_off := q_off v + 2\<rparr>)"
proof -
  have m: "n div 256 < 64" using assms(2) by simp
  note b = enc_ptr_byte [OF m]
  have p: "unat (q_ptr v) = length pre" using assms by (simp add: unat_of_nat16)
  have r: "rd data (length pre + 1) = Some (of_nat (n mod 256))"
    by (simp add: assms(1) rd_def enc_ptr_def nth_append)
  have j: "ucast (of_nat (n div 256) :: u8) * 256 + ucast (of_nat (n mod 256) :: u8) = (of_nat n :: u16)"
  proof -
    have "unat (of_nat (n div 256) :: u8) = n div 256" using m by (intro unat_of_nat8) simp
    moreover have "unat (of_nat (n mod 256) :: u8) = n mod 256" by (intro unat_of_nat8) simp
    moreover have "n div 256 * 256 + n mod 256 = n" by simp
    moreover have "(ucast (of_nat (n div 256) :: u8) :: u16) = of_nat (unat (of_nat (n div 256) :: u8))"
      "(ucast (of_nat (n mod 256) :: u8) :: u16) = of_nat (unat (of_nat (n mod 256) :: u8))"
      by simp_all
    ultimately show ?thesis by (metis of_nat_add of_nat_mult of_nat_numeral)
  qed
  have un: "unat (of_nat n :: u16) = n" using assms(2) by (intro unat_of_nat16) simp
  have l: "length pre + 1 < length data" by (simp add: assms(1) enc_ptr_def)
  show ?thesis
    unfolding qname_turn_def Let_def assms(6) p r b(2)
    using b(1) l assms(3,7) un by (simp add: r j rd_def del: of_nat_add)
qed

lemma get_qname_labels_ptr:
  assumes "data = pre @ enc_labels ls @ enc_ptr (length tgt) @ post" and "data = tgt @ enc_name ls' @ rest"
    and "length tgt < 16384" and "name_ok (ls @ ls')" and "length data < 65536" and "length buf = 256"
  shows "\<exists>q. get_qname data (of_nat (length pre)) buf = Some (int (length pre + 2), q) \<and>
    cstr q = butlast (dotted (ls @ ls')) \<and> length q = 256"
proof -
  let ?n = "length tgt" and ?b = "0 # drop 1 buf"
  have ls: "ls @ ls' \<noteq> []" "\<forall>l \<in> set (ls @ ls'). label_ok l" "length (ls @ ls') \<le> 25"
    "length (dotted (ls @ ls')) \<le> 255"
    using assms(4) by (auto simp: name_ok_def)
  have dd: "dotted (ls @ ls') = dotted ls @ dotted ls'" by (simp add: dotted_def)
  let ?p1 = "of_nat (192 + ?n div 256) :: u8" and ?p2 = "of_nat (?n mod 256) :: u8"
  have m: "?n div 256 < 64" using assms(3) by simp
  note pb = enc_ptr_byte [OF m]
  have lb: "length ?b = 256" using assms(6) by simp
  have w: "wr buf 0 [0] = Some ?b" using assms(6) by (simp add: wr_def)
  have u: "unat (of_nat (length pre) :: u16) = length pre"
    using assms(1,5) by (intro unat_of_nat16) simp
  have h: "rd data (length pre) = Some (hd (enc_labels ls @ [?p1]))"
    by (cases ls) (simp_all add: assms(1) rd_def enc_ptr_def)
  let ?v = "\<lparr>q_c = False, q_noff = 0, q_ptr = of_nat (length pre), q_len = hd (enc_labels ls @ [?p1]),
    q_off = of_nat (length pre), q_name = ?b\<rparr>"
  let ?r1 = "drop (length (dotted ls)) ?b"
  let ?w = "?v\<lparr>q_ptr := of_nat (length pre + length (enc_labels ls)), q_len := ?p1,
       q_noff := of_nat (length ([] :: bytes) + length (dotted ls)),
       q_name := [] @ dotted ls @ ?r1\<rparr>"
  have d1: "data = pre @ enc_labels ls @ ?p1 # (?p2 # post)" using assms(1) by (simp add: enc_ptr_def)
  have s1: "qname_loop data 0 ?v = qname_loop data (0 + of_nat (length ls)) ?w"
    using assms(5) ls lb dd by (intro qname_loop_labels [OF d1]) simp_all
  have dn: "data ! ?n = hd (enc_labels ls' @ [0])"
    unfolding assms(2) by (cases ls') (simp_all add: enc_name_def)
  let ?x = "?w\<lparr>q_ptr := of_nat ?n, q_len := hd (enc_labels ls' @ [0]), q_c := True, q_off := q_off ?w + 2\<rparr>"
  have d2: "data = (pre @ enc_labels ls) @ enc_ptr ?n @ post" using assms(1) by simp
  have nd: "?n < length data" by (subst assms(2)) (simp add: enc_name_def)
  have turn: "qname_turn data ?w = Some (False, ?x)"
    using assms(3,5) nd dn by (subst qname_turn_ptr [OF d2]) simp_all
  have c1: "unat (of_nat (length ls) :: u8) = length ls" using ls(3) by (intro unat_of_nat8) simp
  have c2: "unat (of_nat (length ls) + 1 :: u8) = length ls + 1"
    using c1 ls(3) unat_u8_add [of "of_nat (length ls)" 1] by simp
  have "\<not> (q_len ?w = 0 \<or> of_nat (length ls) > (25 :: u8))"
    using pb(3) c1 ls(3) by (simp add: word_less_nat_alt)
  then have s2: "qname_loop data (of_nat (length ls)) ?w = qname_loop data (of_nat (length ls) + 1) ?x"
    using turn by (subst qname_loop.simps) simp
  let ?y = "?x\<lparr>q_ptr := of_nat (?n + length (enc_labels ls')), q_len := 0,
       q_noff := of_nat (length (dotted ls) + length (dotted ls')),
       q_name := dotted ls @ dotted ls' @ drop (length (dotted ls')) ?r1\<rparr>"
  have d3: "data = tgt @ enc_labels ls' @ 0 # rest" using assms(2) by (simp add: enc_name_def)
  have "qname_loop data (of_nat (length ls) + 1) ?x
      = qname_loop data (of_nat (length ls) + 1 + of_nat (length ls')) ?y"
    using assms(5) ls lb dd c2 by (intro qname_loop_labels [OF d3]) simp_all
  then have l: "qname_loop data 0 ?v = Some ?y" using s1 s2 by (simp add: qname_loop_end)
  have n: "unat (of_nat (length (dotted (ls @ ls'))) :: u8) = length (dotted (ls @ ls'))"
    using ls(4) by (intro unat_of_nat8) simp
  have nz: "(of_nat (length (dotted (ls @ ls'))) :: u8) \<noteq> 0"
    using n ls(1) by (cases "ls @ ls'") auto
  have r: "unat (of_nat (length pre) + 2 :: u16) = length pre + 2"
    using assms(1,5) unat_of_nat16 [of "length pre + 2"] by (simp add: enc_ptr_def add_ac)
  have "length (dotted (ls @ ls') @ drop (length (dotted ls')) ?r1) = 256" using lb ls(4) dd by simp
  then obtain q where "wr (dotted (ls @ ls') @ drop (length (dotted ls')) ?r1) (length (dotted (ls @ ls')) - 1) [0] = Some q"
    "cstr q = butlast (dotted (ls @ ls'))" "length q = 256"
    using qname_text [OF ls(1,2,4)] by blast
  then show ?thesis
    using w u h l n nz r assms(1) dd by (simp add: get_qname_def enc_ptr_def)
qed

section \<open>The name decoder\<close>

text \<open>\<open>get_qname\<close> reads only inside the message and writes only inside the caller's buffer of
  \<open>DNS_QNAME_MAX + 1\<close> bytes, for every message, however its pointers are chained; the loop ends,
  since it is a total function.\<close>

theorem get_qname_safe:
  assumes "length qname = 256"
  shows "\<exists>r q. get_qname data off qname = Some (r, q) \<and> length q = 256 \<and> -1 \<le> r \<and> r < 65536"
  using assms by (rule get_qname_ok)

text \<open>A name of labels is decoded to its dotted text, whatever the buffer held, and the result is
  the offset behind the terminating zero.\<close>

theorem get_qname_plain:
  assumes "data = pre @ enc_name ls @ post" and "name_ok ls" and "length data < 65536"
    and "length buf = 256"
  shows "\<exists>q. get_qname data (of_nat (length pre)) buf = Some (int (length pre + length (enc_name ls)), q) \<and>
    cstr q = butlast (dotted ls) \<and> length q = 256"
  using assms by (rule get_qname_labels)


text \<open>The message \<open>...www.a... b<ptr>\<close>: a name at offset 1 and a name with a pointer to it behind.\<close>

definition example_names :: bytes where
  "example_names = [9] @ enc_name [[119, 119, 119], [97]] @ enc_labels [[98]] @ enc_ptr 1 @ [7]"

lemma example_name_ok: "name_ok [[119, 119, 119], [97]]" "name_ok [[98], [119, 119, 119], [97]]"
  by (simp_all add: name_ok_def label_ok_def)

theorem get_qname_safe_witness:
  "\<exists>r q. get_qname example_names 65535 (replicate 256 1) = Some (r, q) \<and> length q = 256"
  using get_qname_safe [of "replicate 256 1" example_names 65535] by auto

theorem get_qname_plain_witness:
  "\<exists>q. get_qname example_names 1 (replicate 256 1) = Some (8, q) \<and> cstr q = [119, 119, 119, 46, 97]"
  using get_qname_plain [of example_names "[9]" "[[119, 119, 119], [97]]" "enc_labels [[98]] @ enc_ptr 1 @ [7]"
      "replicate 256 1"]
  by (simp add: example_name_ok example_names_def enc_name_def enc_ptr_def) blast


section \<open>parse_dns_response\<close>

text \<open>Turn a message into a reply: \<open>qr\<close> set, the other flags but the opcode cleared, the response
  code and the number of answers stored, no authority and additional records. The bit fields are
  those of a little endian host.\<close>

definition dns_reply :: "bytes \<Rightarrow> u16 \<Rightarrow> u16 \<Rightarrow> bytes option" where
  "dns_reply data rc ans_count = do {
     b \<leftarrow> rd data 2;
     data \<leftarrow> wr data 2 [b AND 0x78 OR 0x80, ucast rc AND 0x0F];
     wr data 6 (u16_be ans_count @ [0, 0, 0, 0]) }"

text \<open>The loop over the answers. The result is \<open>None\<close> for an early return, else whether an SVCB
  or HTTPS record was seen.\<close>

fun dns_answers :: "bytes \<Rightarrow> bytes \<Rightarrow> nat \<Rightarrow> nat \<Rightarrow> bytes \<Rightarrow> bool \<Rightarrow> world \<Rightarrow> (bool option \<times> world) option" where
  "dns_answers data qname 0 off name svcb w = Some (Some svcb, w)"
| "dns_answers data qname (Suc a) off name svcb w = do {
     (off, name) \<leftarrow> get_qname data (of_nat off) name;
     if off > 0 \<and> nat off + 10 \<le> length data then do {
       qtype \<leftarrow> rd16 data (nat off);
       qclass \<leftarrow> rd16 data (nat off + 2);
       ttl \<leftarrow> rd32 data (nat off + 4);
       rdlength \<leftarrow> rd16 data (nat off + 8);
       let off = nat off + 10;
       if off + unat rdlength \<le> length data then
         if qclass = DNS_QCLASS_IN \<and> (qtype = DNS_QTYPE_A \<or> qtype = DNS_QTYPE_AAAA) then
           let n = (if qtype = DNS_QTYPE_A then 4 else 16)
           in if off + n \<le> length data then do {
                res \<leftarrow> slice data off n;
                dns_answers data qname a (off + unat rdlength) name svcb
                  (emit (DnsResolved (cstr qname) (cstr name) res (sint ttl) (-1)) w) }
              else Some (None, w)
         else dns_answers data qname a (off + unat rdlength) name
                (svcb \<or> qclass = DNS_QCLASS_IN \<and> (qtype = DNS_SVCB \<or> qtype = DNS_HTTPS)) w
       else Some (None, w) }
     else Some (None, w) }"

declare dns_answers.simps(2) [simp del]

text \<open>The message, possibly changed in place, and its new length. The local name buffers are
  uninitialised in C; they are read only after \<open>get_qname\<close> has filled them.\<close>

definition parse_dns_response :: "env \<Rightarrow> bytes \<Rightarrow> world \<Rightarrow> ((bytes \<times> nat) \<times> world) option" where
  "parse_dns_response E data w =
     (if length data < 12 + 1 then Some ((data, length data), w)
      else do {
        flags \<leftarrow> rd data 2;
        qcount \<leftarrow> rd16 data 4;
        acount \<leftarrow> rd16 data 6;
        if flags AND 0xF8 = 0x80 \<and> qcount > 0 \<and> acount > 0 then do {
          (off, name) \<leftarrow> get_qname data 12 (replicate 256 0);
          if off > 0 \<and> nat off + 4 \<le> length data then do {
            qtype \<leftarrow> rd16 data (nat off);
            let qname = name;
            let aoff = nat off + 4;
            (r, w) \<leftarrow> dns_answers data qname (unat acount) aoff name False w;
            (case r of
               None \<Rightarrow> Some ((data, length data), w)
             | Some svcb \<Rightarrow>
                 (let (blocked, w) = (if svcb then (True, w) else ask (\<lambda>k. e_blocked E k (cstr qname)) w)
                  in if blocked then do {
                       data \<leftarrow> dns_reply data (rcode E) 0;
                       Some ((data, aoff), emit (LogBlocked qtype (cstr qname)) w) }
                     else Some ((data, length data), w))) }
          else Some ((data, length data), w) }
        else Some ((data, length data), w) })"

section \<open>Queries answered from the hosts file\<close>

text \<open>\<open>get_dns_query\<close>: \<open>Some None\<close> is -1.\<close>

definition get_dns_query :: "bytes \<Rightarrow> bytes \<Rightarrow> (u16 \<times> u16 \<times> bytes) option option" where
  "get_dns_query data qname =
     (if length data < 12 + 1 then Some None
      else do {
        flags \<leftarrow> rd data 2;
        qcount \<leftarrow> rd16 data 4;
        if flags AND 0xF8 = 0 \<and> qcount > 0 then do {
          (off, qname) \<leftarrow> get_qname data 12 qname;
          if off > 0 \<and> nat off + 4 = length data then do {
            qtype \<leftarrow> rd16 data (nat off);
            qclass \<leftarrow> rd16 data (nat off + 2);
            Some (Some (qtype, qclass, qname)) }
          else Some None }
        else Some None })"

text \<open>The answer record behind the copied query: a pointer to the question, type, class, TTL and
  the address from the hosts file.\<close>

definition dns_rr :: "u16 \<Rightarrow> u16 \<Rightarrow> bytes \<Rightarrow> bytes" where
  "dns_rr qtype qclass addr =
     u16_be (12 OR 0xC000) @ u16_be qtype @ u16_be qclass @ u32_be DNS_TTL @
     u16_be (of_nat (length addr)) @ addr"

definition check_domain :: "env \<Rightarrow> udp_session \<Rightarrow> bytes \<Rightarrow> u16 \<Rightarrow> u16 \<Rightarrow> bytes \<Rightarrow> world \<Rightarrow> (bool \<times> world) option" where
  "check_domain E u data qclass qtype name w =
     (if qclass \<noteq> DNS_QCLASS_IN \<or> qtype \<noteq> DNS_QTYPE_A \<and> qtype \<noteq> DNS_QTYPE_AAAA then Some (False, w)
      else let addrlen = (if qtype = DNS_QTYPE_A then 4 else 16);
               (addr, w) = ask (\<lambda>k. e_from_hosts E k (cstr name) qtype) w
           in (case addr of
                 None \<Rightarrow> Some (False, w)
               | Some addr \<Rightarrow> do {
                   response \<leftarrow> dns_reply data 0 1;
                   Some (True, snd (write_udp E u (response @ dns_rr qtype qclass (take addrlen addr)) w)) }))"

subsection \<open>No access outside the buffers\<close>

lemma good_get_qname:
  assumes "length qname = 256"
    and "\<And>r q. length q = 256 \<Longrightarrow> -1 \<le> r \<Longrightarrow> r < 65536 \<Longrightarrow> good P (f (r, q))"
  shows "good P (get_qname data off qname \<bind> f)"
  using get_qname_ok [of qname data off] assms by auto

lemma good_dns_reply:
  assumes "12 \<le> length data" and "\<And>d. length d = length data \<Longrightarrow> good P (f d)"
  shows "good P (dns_reply data rc n \<bind> f)"
  unfolding dns_reply_def bind_assoc
  by (intro good_intro assms(2); (use assms in simp)?)

lemma dns_reply_eq:
  assumes "12 \<le> length data"
  shows "dns_reply data rc n = Some (take 2 data @ [data ! 2 AND 0x78 OR 0x80, ucast rc AND 0x0F] @
    take 2 (drop 4 data) @ u16_be n @ [0, 0, 0, 0] @ drop 12 data)"
proof -
  let ?f = "[data ! 2 AND 0x78 OR 0x80, ucast rc AND 0x0F] :: bytes"
  have w1: "wr data 2 ?f = Some (take 2 data @ ?f @ drop 4 data)"
    using assms by (simp add: wr_def)
  have "take 6 (take 2 data @ ?f @ drop 4 data) = take 2 data @ ?f @ take 2 (drop 4 data)"
    using assms by (simp add: min_def)
  moreover have "drop 12 (take 2 data @ ?f @ drop 4 data) = drop 12 data"
    using assms by (simp add: min_def)
  ultimately have "wr (take 2 data @ ?f @ drop 4 data) 6 (u16_be n @ [0, 0, 0, 0]) =
      Some (take 2 data @ ?f @ take 2 (drop 4 data) @ u16_be n @ [0, 0, 0, 0] @ drop 12 data)"
    using assms by (simp add: wr_def min_def)
  then show ?thesis using assms w1 by (simp add: dns_reply_def rd_def)
qed

lemma dns_answers_safe:
  "length name = 256 \<Longrightarrow> good (\<lambda>_. True) (dns_answers data qname a off name svcb w)"
proof (induction a arbitrary: off name svcb w)
  case (Suc a)
  show ?case
    unfolding dns_answers.simps Let_def
    by (rule good_get_qname [OF Suc.prems], simp only: prod.case)
      (intro good_intro Suc.IH; simp)
qed (simp add: good_def)

lemma parse_dns_response_ok:
  "\<exists>d n w'. parse_dns_response E data w = Some ((d, n), w') \<and> length d = length data \<and> n \<le> length data \<and>
    (d = data \<and> n = length data \<or>
     d = take 2 data @ (data ! 2 AND 0x78 OR 0x80) # (ucast (rcode E) AND 0x0F) # take 2 (drop 4 data) @
       replicate 6 0 @ drop 12 data)"
proof -
  let ?d = "take 2 data @ (data ! 2 AND 0x78 OR 0x80) # (ucast (rcode E) AND 0x0F) # take 2 (drop 4 data) @
       replicate 6 0 @ drop 12 data"
  let ?P = "\<lambda>((d, n), w' :: world). length d = length data \<and> n \<le> length data \<and>
    (d = data \<and> n = length data \<or> d = ?d)"
  have r: "good ?P (dns_reply data (rcode E) 0 \<bind> (\<lambda>d. Some ((d, n), w')))"
    if "n \<le> length data" "13 \<le> length data" for n w'
    using that by (simp add: dns_reply_eq good_def u16_be_def numeral_eq_Suc)
  have "good ?P (parse_dns_response E data w)"
  proof (cases "length data < 12 + 1")
    case True
    then show ?thesis by (simp add: parse_dns_response_def good_def)
  next
    case False
    then have l: "13 \<le> length data" by simp
    have same: "good ?P (Some ((data, length data), w'))" for w' by (simp add: good_def)
    show ?thesis
      unfolding parse_dns_response_def Let_def if_not_P [OF False]
    proof (intro good_intro)
      fix flags qcount acount
      show "good ?P (get_qname data 12 (replicate 256 0) \<bind>
        (\<lambda>(off, name). if off > 0 \<and> nat off + 4 \<le> length data then do {
            qtype \<leftarrow> rd16 data (nat off);
            (r, w) \<leftarrow> dns_answers data name (unat acount) (nat off + 4) name False w;
            (case r of
               None \<Rightarrow> Some ((data, length data), w)
             | Some svcb \<Rightarrow>
                 (case (if svcb then (True, w) else ask (\<lambda>k. e_blocked E k (cstr name)) w) of
                    (blocked, w) \<Rightarrow> if blocked then do {
                       data \<leftarrow> dns_reply data (rcode E) 0;
                       Some ((data, nat off + 4), emit (LogBlocked qtype (cstr name)) w) }
                     else Some ((data, length data), w))) }
          else Some ((data, length data), w)))"
        by (rule good_get_qname, simp, simp only: prod.case)
          (intro good_intro good_bind [OF dns_answers_safe];
           (use l same in \<open>auto intro!: r split: option.split prod.split\<close>)?)
    qed (use l same in auto)
  qed
  then show ?thesis by (auto simp: good_def)
qed

text \<open>C26: \<open>parse_dns_response\<close> stays inside the message for every input, and it either leaves the
  message alone or turns it into a reply to the same query that ends behind the question: the flags
  and the response code are set, the question and the identifier kept, and no record is counted.\<close>

theorem parse_dns_response_safe:
  "\<exists>d n w'. parse_dns_response E data w = Some ((d, n), w') \<and> length d = length data \<and> n \<le> length data \<and>
    (d = data \<and> n = length data \<or>
     d = take 2 data @ (data ! 2 AND 0x78 OR 0x80) # (ucast (rcode E) AND 0x0F) # take 2 (drop 4 data) @
       replicate 6 0 @ drop 12 data)"
  by (rule parse_dns_response_ok)

section \<open>Responses as lists of address records\<close>

text \<open>An address record that points at the question, and a response with any flags, one name, and
  address records.\<close>

definition enc_rr :: "u32 \<times> bytes \<Rightarrow> bytes" where
  "enc_rr r = enc_ptr 12 @ u16_be (if length (snd r) = 4 then 1 else 28) @ u16_be 1 @ u32_be (fst r) @
     u16_be (of_nat (length (snd r))) @ snd r"

definition enc_question :: "bytes list \<Rightarrow> u16 \<Rightarrow> u16 \<Rightarrow> bytes" where
  "enc_question ls qtype qclass = enc_name ls @ u16_be qtype @ u16_be qclass"

definition enc_response :: "u16 \<Rightarrow> u8 \<Rightarrow> u8 \<Rightarrow> bytes list \<Rightarrow> u16 \<Rightarrow> u16 \<Rightarrow> (u32 \<times> bytes) list \<Rightarrow> bytes" where
  "enc_response ident f1 f2 ls qtype qclass rs =
     u16_be ident @ [f1, f2] @ u16_be 1 @ u16_be (of_nat (length rs)) @ [0, 0, 0, 0] @
     enc_question ls qtype qclass @ concat (map enc_rr rs)"

definition rr_ok :: "u32 \<times> bytes \<Rightarrow> bool" where
  "rr_ok r \<longleftrightarrow> length (snd r) = 4 \<or> length (snd r) = 16"

lemma length_enc_name: "length (enc_name ls) = length (dotted ls) + 1"
  by (simp add: enc_name_def length_enc_labels)

lemma dns_answers_rr:
  assumes "data = pre @ enc_rr r @ post" and "data = tgt @ enc_name ls @ rest" and "length tgt = 12"
    and "name_ok ls" and "rr_ok r" and "length data < 65536" and "length name = 256"
  shows "\<exists>name'. length name' = 256 \<and>
    dns_answers data qname (Suc a) (length pre) name svcb w =
    dns_answers data qname a (length pre + length (enc_rr r)) name' svcb
      (emit (DnsResolved (cstr qname) (butlast (dotted ls)) (snd r) (sint (fst r)) (-1)) w)"
proof -
  obtain ttl addr where r: "r = (ttl, addr)" by (cases r)
  let ?t = "if length addr = 4 then 1 else 28 :: u16" and ?p = "enc_ptr 12"
  have lp: "length ?p = 2" by (simp add: enc_ptr_def)
  have la: "length addr = 4 \<or> length addr = 16" using assms(5) r by (simp add: rr_ok_def)
  have d1: "data = pre @ enc_labels [] @ enc_ptr (length tgt) @
      u16_be ?t @ u16_be 1 @ u32_be ttl @ u16_be (of_nat (length addr)) @ addr @ post"
    using assms(1,3) r by (simp add: enc_rr_def)
  obtain q where q: "get_qname data (of_nat (length pre)) name = Some (int (length pre + 2), q)"
    "cstr q = butlast (dotted ls)" "length q = 256"
    using get_qname_labels_ptr [OF d1 assms(2) _ _ assms(6,7)] assms(3,4) by auto
  let ?o = "length pre + 2"
  have n: "nat (int ?o) = ?o" by simp
  have ft: "rd16 data ?o = Some ?t"
    using rd16_mid [of "pre @ ?p" ?o ?t] d1 lp assms(3) by simp
  have fc: "rd16 data (?o + 2) = Some 1"
    using rd16_mid [of "pre @ ?p @ u16_be ?t" "?o + 2" 1] d1 lp assms(3) by simp
  have fl: "rd32 data (?o + 4) = Some ttl"
    using rd32_mid [of "pre @ ?p @ u16_be ?t @ u16_be 1" "?o + 4" ttl] d1 lp assms(3) by simp
  have fr: "rd16 data (?o + 8) = Some (of_nat (length addr))"
    using rd16_mid [of "pre @ ?p @ u16_be ?t @ u16_be 1 @ u32_be ttl" "?o + 8" "of_nat (length addr)"]
      d1 lp assms(3) by simp
  have fa: "slice data (?o + 10) (length addr) = Some addr"
    using slice_at [of "?o + 10" "pre @ ?p @ u16_be ?t @ u16_be 1 @ u32_be ttl @ u16_be (of_nat (length addr))"
        "length addr" addr] d1 lp assms(3) by simp
  have ln: "length data = ?o + 10 + length addr + length post" using d1 lp assms(3) by simp
  have u: "unat (of_nat (length addr) :: u16) = length addr" using la by (intro unat_of_nat16) auto
  have "dns_answers data qname (Suc a) (length pre) name svcb w =
    dns_answers data qname a (?o + 10 + length addr) q svcb
      (emit (DnsResolved (cstr qname) (cstr q) addr (sint ttl) (-1)) w)"
    using la ln u ft fc fl fr fa
    by (subst dns_answers.simps(2), subst q(1))
      (simp only: bind.bind_lunit prod.case n Let_def, auto simp: dns_consts)
  moreover have "length pre + length (enc_rr r) = ?o + 10 + length addr"
    using r lp by (simp add: enc_rr_def)
  ultimately have "dns_answers data qname (Suc a) (length pre) name svcb w =
    dns_answers data qname a (length pre + length (enc_rr r)) q svcb
      (emit (DnsResolved (cstr qname) (butlast (dotted ls)) (snd r) (sint (fst r)) (-1)) w)"
    by (simp only: q(2) r fst_conv snd_conv)
  then show ?thesis using q(3) by blast
qed

lemma dns_answers_rrs:
  assumes "data = pre @ concat (map enc_rr rs) @ post" and "data = tgt @ enc_name ls @ rest"
    and "length tgt = 12" and "name_ok ls" and "\<forall>r \<in> set rs. rr_ok r" and "length data < 65536"
    and "length name = 256"
  shows "dns_answers data qname (length rs) (length pre) name svcb w = Some (Some svcb,
    w\<lparr>w_out := w_out w @
      map (\<lambda>r. DnsResolved (cstr qname) (butlast (dotted ls)) (snd r) (sint (fst r)) (-1)) rs\<rparr>)"
  using assms
proof (induction rs arbitrary: pre name w)
  case (Cons r rs)
  have d: "data = pre @ enc_rr r @ (concat (map enc_rr rs) @ post)" using Cons.prems(1) by simp
  let ?w = "emit (DnsResolved (cstr qname) (butlast (dotted ls)) (snd r) (sint (fst r)) (-1)) w"
  obtain q where q: "length q = 256"
    "dns_answers data qname (Suc (length rs)) (length pre) name svcb w =
     dns_answers data qname (length rs) (length (pre @ enc_rr r)) q svcb ?w"
    using dns_answers_rr [where a = "length rs" and qname = qname and svcb = svcb and w = w,
        OF d Cons.prems(2,3,4) _ Cons.prems(6,7)] Cons.prems(5) by auto
  have "dns_answers data qname (length rs) (length (pre @ enc_rr r)) q svcb ?w = Some (Some svcb,
    ?w\<lparr>w_out := w_out ?w @
      map (\<lambda>r. DnsResolved (cstr qname) (butlast (dotted ls)) (snd r) (sint (fst r)) (-1)) rs\<rparr>)"
    using Cons.prems q(1) d by (intro Cons.IH) auto
  then show ?case using q(2) by (simp only: list.size) (simp add: emit_def)
qed simp

text \<open>C19: a standard response (QR set, opcode 0) of less than 65536 bytes with one question of at most 25 labels
  and one or more A or AAAA records, each of which names its owner by the pointer 12 to the question: every record is reported with the name of the
  question, its address and its time to live, in order; then the message is left alone unless the name is
  blocked, in which case it becomes a reply with the configured response code and no records that ends
  behind the question, and the event is logged. (Other record types, and owner names with labels before a
  pointer, whose end \<open>get_qname\<close> reports wrongly, are not covered.)\<close>

theorem parse_dns_response_records:
  assumes msg: "msg = enc_response ident f1 f2 ls qtype qclass rs"
    and name: "name = butlast (dotted ls)"
    and "f1 AND 0xF8 = 0x80" and "name_ok ls" and "\<forall>r \<in> set rs. rr_ok r" and "rs \<noteq> []"
    and "length msg < 65536"
  shows "\<exists>d n w'. parse_dns_response E msg w = Some ((d, n), w') \<and>
    w_out w' = w_out w @ map (\<lambda>r. DnsResolved name name (snd r) (sint (fst r)) (-1)) rs @
      (if e_blocked E (w_calls w) name then [LogBlocked qtype name] else []) \<and>
    take n d = (if e_blocked E (w_calls w) name
      then u16_be ident @ [f1 AND 0x78 OR 0x80, ucast (rcode E) AND 0x0F] @ u16_be 1 @ replicate 6 0 @
        enc_question ls qtype qclass
      else msg)"
proof -
  let ?h = "u16_be ident @ [f1, f2] @ u16_be 1 @ u16_be (of_nat (length rs)) @ [0, 0, 0, 0]"
  let ?ans = "concat (map enc_rr rs)" and ?q = "enc_question ls qtype qclass"
  have h: "length ?h = 12" by simp
  have m: "msg = ?h @ enc_name ls @ (u16_be qtype @ u16_be qclass @ ?ans)"
    by (simp add: msg enc_response_def enc_question_def)
  have lq: "length ?q = length (enc_name ls) + 4" by (simp add: enc_question_def)
  have "12 * length rs \<le> length ?ans"
    by (induction rs) (simp_all add: enc_rr_def enc_ptr_def)
  then have lr: "length rs < 65536" using assms(7) by (simp add: m)
  have big: "13 \<le> length msg" by (simp add: m length_enc_name)
  have r2: "rd msg 2 = Some f1" by (simp add: m rd_def u16_be_def)
  have r4: "rd16 msg 4 = Some 1"
    using rd16_mid [of "u16_be ident @ [f1, f2]" 4 1] m by simp
  have r6: "rd16 msg 6 = Some (of_nat (length rs))"
    using rd16_mid [of "u16_be ident @ [f1, f2] @ u16_be 1" 6 "of_nat (length rs)"] m by simp
  have ua: "unat (of_nat (length rs) :: u16) = length rs" using lr by (rule unat_of_nat16)
  then have pa: "(0 :: u16) < of_nat (length rs)" using assms(6) by (simp add: word_less_nat_alt)
  obtain q where gq: "get_qname msg 12 (replicate 256 0) = Some (int (12 + length (enc_name ls)), q)"
    "cstr q = name" "length q = 256"
    using get_qname_labels [OF m assms(4,7), of "replicate 256 0"] h name by auto
  let ?o = "12 + length (enc_name ls)"
  have rt: "rd16 msg ?o = Some qtype"
    using rd16_mid [of "?h @ enc_name ls" ?o qtype] m h by simp
  have lo: "?o + 4 \<le> length msg" by (simp add: m)
  let ?w = "w\<lparr>w_out := w_out w @ map (\<lambda>r. DnsResolved name name (snd r) (sint (fst r)) (-1)) rs\<rparr>"
  have ans: "dns_answers msg q (length rs) (?o + 4) q False w = Some (Some False, ?w)"
  proof -
    have "msg = (?h @ ?q) @ ?ans @ []" using m by (simp add: enc_question_def)
    then have "dns_answers msg q (length rs) (length (?h @ ?q)) q False w = Some (Some False,
        w\<lparr>w_out := w_out w @
          map (\<lambda>r. DnsResolved (cstr q) (butlast (dotted ls)) (snd r) (sint (fst r)) (-1)) rs\<rparr>)"
      by (rule dns_answers_rrs [OF _ m h assms(4,5,7) gq(3)])
    moreover have "length (?h @ ?q) = ?o + 4" using h lq by simp
    ultimately show ?thesis by (simp only: gq(2) name)
  qed
  let ?b = "e_blocked E (w_calls w) name"
  have eq: "parse_dns_response E msg w =
      (if ?b then dns_reply msg (rcode E) 0 \<bind> (\<lambda>d. Some ((d, ?o + 4), emit (LogBlocked qtype name) (called ?w)))
       else Some ((msg, length msg), called ?w))"
    unfolding parse_dns_response_def
    using assms(3) big r2 r4 r6 pa lo rt gq(1,2) ans ua
    by (simp add: ask_def nat_add_distrib)
  show ?thesis
  proof (cases ?b)
    case True
    have "drop 12 msg = ?q @ ?ans" using h by (simp add: m enc_question_def)
    moreover have "take 2 msg = u16_be ident" "msg ! 2 = f1" "take 2 (drop 4 msg) = u16_be 1"
      by (simp_all add: m u16_be_def)
    ultimately have "dns_reply msg (rcode E) 0 = Some (u16_be ident @
        [f1 AND 0x78 OR 0x80, ucast (rcode E) AND 0x0F] @ u16_be 1 @ replicate 6 0 @ ?q @ ?ans)"
      using big by (simp add: dns_reply_eq u16_be_def numeral_eq_Suc)
    moreover have "take (?o + 4) ((u16_be ident @ [f1 AND 0x78 OR 0x80, ucast (rcode E) AND 0x0F] @
        u16_be 1 @ replicate 6 0 @ ?q) @ ?ans) =
        u16_be ident @ [f1 AND 0x78 OR 0x80, ucast (rcode E) AND 0x0F] @ u16_be 1 @ replicate 6 0 @ ?q"
      using lq by (intro take_exact) simp
    ultimately show ?thesis using eq True by (simp add: emit_def called_def)
  next
    case False
    then show ?thesis using eq by (simp add: called_def)
  qed
qed

section \<open>Answers from the hosts file\<close>

definition enc_query :: "u16 \<Rightarrow> u8 \<Rightarrow> u8 \<Rightarrow> bytes list \<Rightarrow> u16 \<Rightarrow> u16 \<Rightarrow> bytes" where
  "enc_query ident f1 f2 ls qtype qclass =
     u16_be ident @ [f1, f2] @ u16_be 1 @ replicate 6 0 @ enc_question ls qtype qclass"

lemma get_dns_query_enc:
  assumes "f1 AND 0xF8 = 0" and "name_ok ls" and "length (enc_query ident f1 f2 ls qtype qclass) < 65536"
    and "length buf = 256"
  shows "\<exists>q. get_dns_query (enc_query ident f1 f2 ls qtype qclass) buf = Some (Some (qtype, qclass, q)) \<and>
    cstr q = butlast (dotted ls)"
proof -
  let ?m = "enc_query ident f1 f2 ls qtype qclass" and ?h = "u16_be ident @ [f1, f2] @ u16_be 1 @ replicate 6 0"
  have m: "?m = ?h @ enc_name ls @ (u16_be qtype @ u16_be qclass)"
    by (simp add: enc_query_def enc_question_def)
  have h: "length ?h = 12" by simp
  let ?o = "12 + length (enc_name ls)"
  have lm: "length ?m = ?o + 4" by (simp add: m)
  have big: "13 \<le> length ?m" by (simp add: m length_enc_name)
  have r2: "rd ?m 2 = Some f1" by (simp add: m rd_def u16_be_def)
  have r4: "rd16 ?m 4 = Some 1"
    using rd16_mid [of "u16_be ident @ [f1, f2]" 4 1] m by simp
  obtain q where gq: "get_qname ?m 12 buf = Some (int ?o, q)" "cstr q = butlast (dotted ls)"
    using get_qname_labels [OF m assms(2,3,4)] h by auto
  have rt: "rd16 ?m ?o = Some qtype"
    using rd16_mid [of "?h @ enc_name ls" ?o qtype] m h by simp
  have rc: "rd16 ?m (?o + 2) = Some qclass"
    using rd16_mid [of "?h @ enc_name ls @ u16_be qtype" "?o + 2" qclass "[]"] m h by simp
  show ?thesis
    using assms(1) big r2 r4 gq rt rc lm by (simp add: get_dns_query_def nat_add_distrib)
qed


section \<open>Instances\<close>

theorem parse_dns_response_records_witness:
  "\<exists>d n w'. parse_dns_response example_env
      (enc_response 7 0x80 0 [[97]] 1 1 [(60, [1, 2, 3, 4]), (70, [1, 2, 3, 5])]) example_world = Some ((d, n), w') \<and>
    w_out w' = [DnsResolved [97] [97] [1, 2, 3, 4] 60 (-1), DnsResolved [97] [97] [1, 2, 3, 5] 70 (-1)]"
  using parse_dns_response_records [of _ 7 "0x80" 0 "[[97]]" 1 1 "[(60, [1, 2, 3, 4]), (70, [1, 2, 3, 5])]"
      "[97]" example_env example_world, OF refl]
  by (simp add: name_ok_def label_ok_def rr_ok_def enc_response_def enc_question_def enc_name_def
      enc_rr_def enc_ptr_def example_world_def example_env_def) blast


end
