(* ===== verification/Ng_Timeout.thy ===== *)
theory Ng_Timeout
  imports Ng_Types "HOL-Library.Signed_Division"
begin

text \<open>
  The idle timeouts of the three protocols. \<open>get_tcp_timeout\<close>, \<open>get_udp_timeout\<close> and
  \<open>get_icmp_timeout\<close> scale a base timeout down with the number of sessions; what the callers rely
  on is proved once, in a locale, and holds for each of the three.
\<close>

section \<open>The timeouts\<close>

text \<open>\<open>scale = 100 - sessions * 100 / maxsessions; timeout * scale / 100\<close> on C integers, whose
  division truncates.\<close>

definition scale_timeout :: "int \<Rightarrow> int \<Rightarrow> int \<Rightarrow> int" where
  "scale_timeout timeout sessions maxsessions =
     (let scale = 100 - (sessions * 100) sdiv maxsessions in (timeout * scale) sdiv 100)"

definition get_tcp_timeout :: "tcp_session \<Rightarrow> int \<Rightarrow> int \<Rightarrow> int" where
  "get_tcp_timeout t sessions maxsessions =
     scale_timeout
       (if t_state t = TCP_LISTEN \<or> t_state t = TCP_SYN_RECV then 20
        else if t_state t = TCP_ESTABLISHED then 3600 else 20) sessions maxsessions"

definition get_udp_timeout :: "udp_session \<Rightarrow> int \<Rightarrow> int \<Rightarrow> int" where
  "get_udp_timeout u sessions maxsessions =
     scale_timeout (if u_dest u = 53 then 15 else 300) sessions maxsessions"

definition get_icmp_timeout :: "icmp_session \<Rightarrow> int \<Rightarrow> int \<Rightarrow> int" where
  "get_icmp_timeout c sessions maxsessions = scale_timeout 5 sessions maxsessions"

section \<open>What the session checks rely on\<close>

lemma sdiv_nonneg: "0 \<le> a \<Longrightarrow> 0 < b \<Longrightarrow> a sdiv b = (a :: int) div b"
  by (auto simp: signed_divide_int_def sgn_if)

lemma scale_timeout_div:
  assumes "0 \<le> base" and "0 \<le> n" and "n \<le> m" and "0 < m"
  shows "scale_timeout base n m = base * (100 - n * 100 div m) div 100" and "n * 100 div m \<le> 100"
proof -
  have "n * 100 \<le> 100 * m" using assms by simp
  then have "n * 100 div m \<le> 100 * m div m" using assms(4) by (intro zdiv_mono1)
  then show le: "n * 100 div m \<le> 100" using assms(4) by simp
  have "(n * 100) sdiv m = n * 100 div m" using assms by (intro sdiv_nonneg) simp_all
  moreover have "0 \<le> base * (100 - n * 100 div m)" using assms(1) le by simp
  ultimately show "scale_timeout base n m = base * (100 - n * 100 div m) div 100"
    by (simp add: scale_timeout_def Let_def sdiv_nonneg)
qed

locale timeout_policy =
  fixes base :: "'s \<Rightarrow> int"
    and timeout :: "'s \<Rightarrow> int \<Rightarrow> int \<Rightarrow> int"
  assumes base_nonneg: "0 \<le> base s"
    and timeout_eq: "timeout s n m = scale_timeout (base s) n m"
begin

text \<open>Never negative, never above the base value, and shorter the more sessions there are; the full
  value without sessions and none at all at the limit.\<close>

lemma timeout_range:
  assumes "0 \<le> n" and "n \<le> m" and "0 < m"
  shows "0 \<le> timeout s n m" and "timeout s n m \<le> base s"
proof -
  let ?k = "100 - n * 100 div m"
  note d = scale_timeout_div(1) [OF base_nonneg [of s] assms] scale_timeout_div(2) [OF base_nonneg [of s] assms]
  have k: "0 \<le> ?k" "?k \<le> 100"
    using d(2) assms by (simp_all add: pos_imp_zdiv_nonneg_iff)
  then show "0 \<le> timeout s n m"
    using base_nonneg [of s] by (simp add: timeout_eq d(1) pos_imp_zdiv_nonneg_iff)
  have "base s * ?k \<le> base s * 100" using k base_nonneg [of s] by (intro mult_left_mono)
  then have "base s * ?k div 100 \<le> base s * 100 div 100" by (intro zdiv_mono1) simp_all
  then show "timeout s n m \<le> base s" by (simp add: timeout_eq d(1))
qed

lemma timeout_antimono:
  assumes "0 \<le> n" and "n \<le> n'" and "n' \<le> m" and "0 < m"
  shows "timeout s n' m \<le> timeout s n m"
proof -
  have "n * 100 div m \<le> n' * 100 div m" using assms by (intro zdiv_mono1) simp_all
  then have "base s * (100 - n' * 100 div m) \<le> base s * (100 - n * 100 div m)"
    using base_nonneg [of s] by (intro mult_left_mono) simp_all
  then have "base s * (100 - n' * 100 div m) div 100 \<le> base s * (100 - n * 100 div m) div 100"
    by (intro zdiv_mono1) simp_all
  then show ?thesis
    using assms scale_timeout_div(1) [OF base_nonneg, of n m s] scale_timeout_div(1) [OF base_nonneg, of n' m s]
    by (simp add: timeout_eq)
qed

lemma timeout_ends: "0 < m \<Longrightarrow> timeout s 0 m = base s" "0 < m \<Longrightarrow> timeout s m m = 0"
  using scale_timeout_div(1) [OF base_nonneg, of 0 m s] scale_timeout_div(1) [OF base_nonneg, of m m s]
  by (simp_all add: timeout_eq)

end

definition tcp_base_timeout :: "tcp_session \<Rightarrow> int" where
  "tcp_base_timeout t = (if t_state t = TCP_ESTABLISHED then 3600 else 20)"

definition udp_base_timeout :: "udp_session \<Rightarrow> int" where
  "udp_base_timeout u = (if u_dest u = 53 then 15 else 300)"

interpretation tcp_to: timeout_policy tcp_base_timeout get_tcp_timeout
  by unfold_locales (auto simp: tcp_base_timeout_def get_tcp_timeout_def)

interpretation udp_to: timeout_policy udp_base_timeout get_udp_timeout
  by unfold_locales (auto simp: udp_base_timeout_def get_udp_timeout_def)

interpretation icmp_to: timeout_policy "\<lambda>_. 5" get_icmp_timeout
  by unfold_locales (auto simp: get_icmp_timeout_def)

text \<open>Under the session limit the idle timeout of a TCP session lies between 0 and 3600 seconds
  for an established connection, 20 for any other; it only shrinks when sessions are added, is
  the full value without load and 0 at the limit.\<close>

theorem tcp_timeout_policy:
  assumes "0 \<le> n" and "n \<le> n'" and "n' \<le> m" and "0 < m"
  shows "0 \<le> get_tcp_timeout t n' m \<and> get_tcp_timeout t n' m \<le> get_tcp_timeout t n m \<and>
    get_tcp_timeout t n m \<le> (if t_state t = TCP_ESTABLISHED then 3600 else 20) \<and>
    get_tcp_timeout t 0 m = (if t_state t = TCP_ESTABLISHED then 3600 else 20) \<and>
    get_tcp_timeout t m m = 0"
  using assms tcp_to.timeout_range [of n m t] tcp_to.timeout_range [of n' m t]
    tcp_to.timeout_antimono [OF assms, of t] tcp_to.timeout_ends [of m t]
  by (simp add: tcp_base_timeout_def)

theorem tcp_timeout_policy_witness:
  "get_tcp_timeout example_tcp 100 409 \<le> 3600 \<and> get_tcp_timeout example_tcp 409 409 = 0"
  using tcp_timeout_policy [of 100 409 409 example_tcp] by (simp add: example_tcp_def)

end
