(* ===== verification/Ng_Tcp_Session.thy ===== *)
theory Ng_Tcp_Session
  imports Ng_Packet Ng_Timeout
begin

text \<open>
  The operations of tcp.c on one session: the wrappers that write a segment and close the session
  when that fails, the windows, the queue of segments to forward, the periodic check and the
  choice of the events to poll for. A routine that gets \<open>s\<close> in C gets the \<open>ng_session\<close> and its
  union member \<open>t\<close> here, and returns the ones it changes.
\<close>

section \<open>Segments to the client\<close>

definition write_or_close :: "env \<Rightarrow> tcp_session \<Rightarrow> bytes \<Rightarrow> bool \<Rightarrow> bool \<Rightarrow> bool \<Rightarrow> world \<Rightarrow> int \<times> tcp_session \<times> world" where
  "write_or_close E t data syn ack fin w =
     (let (r, w) = write_tcp E t data syn ack fin False w
      in if r < 0 then (-1, t\<lparr>t_state := TCP_CLOSING\<rparr>, w) else (0, t, w))"

definition write_syn_ack :: "env \<Rightarrow> tcp_session \<Rightarrow> world \<Rightarrow> int \<times> tcp_session \<times> world" where
  "write_syn_ack E t w = write_or_close E t [] True True False w"

definition write_ack :: "env \<Rightarrow> tcp_session \<Rightarrow> world \<Rightarrow> int \<times> tcp_session \<times> world" where
  "write_ack E t w = write_or_close E t [] False True False w"

definition write_data :: "env \<Rightarrow> tcp_session \<Rightarrow> bytes \<Rightarrow> world \<Rightarrow> int \<times> tcp_session \<times> world" where
  "write_data E t data w = write_or_close E t data False True False w"

definition write_fin_ack :: "env \<Rightarrow> tcp_session \<Rightarrow> world \<Rightarrow> int \<times> tcp_session \<times> world" where
  "write_fin_ack E t w = write_or_close E t [] False True True w"

definition write_rst :: "env \<Rightarrow> tcp_session \<Rightarrow> world \<Rightarrow> tcp_session \<times> world" where
  "write_rst E t w =
     (let (ack, t) = (if t_state t = TCP_LISTEN then (True, t\<lparr>t_remote_seq := t_remote_seq t + 1\<rparr>)
                      else (False, t));
          (_, w) = write_tcp E t [] False ack False True w
      in (if t_state t \<noteq> TCP_CLOSE then t\<lparr>t_state := TCP_CLOSING\<rparr> else t, w))"

section \<open>Windows\<close>

text \<open>The constant that is added when \<open>acked\<close> is above \<open>local_seq\<close> is \<open>0x10000\<close>, as in the code.\<close>

definition get_send_window :: "tcp_session \<Rightarrow> u32" where
  "get_send_window t =
     (let behind = (if t_acked t \<le> t_local_seq t then t_local_seq t - t_acked t
                    else 0x10000 + t_local_seq t - t_acked t);
          behind = behind + (ucast (t_unconfirmed t) + 1) * 40
      in if behind < t_send_window t then t_send_window t - behind else 0)"

definition SEND_BUF_DEFAULT :: int where "SEND_BUF_DEFAULT = 163840"

definition get_receive_buffer :: "env \<Rightarrow> int \<Rightarrow> world \<Rightarrow> u32 \<times> world" where
  "get_receive_buffer E sock w =
     (if sock < 0 then (0, w)
      else let (sendbuf, w) = ask (\<lambda>k. e_sndbuf E k sock) w;
               sendbuf = (if sendbuf = 0 then SEND_BUF_DEFAULT else sendbuf);
               (unsent, w) = ask (\<lambda>k. e_outq E k sock) w
           in (if unsent < sendbuf then of_int (sendbuf - unsent) else 0, w))"

text \<open>What of a segment is still to be sent; the difference of two 16-bit values is an \<open>int\<close> that
  is converted to 32 bits unsigned.\<close>

definition seg_left :: "segment \<Rightarrow> u32" where
  "seg_left g = ucast (g_len g) - ucast (g_sent g)"

definition get_receive_window :: "env \<Rightarrow> int \<Rightarrow> tcp_session \<Rightarrow> world \<Rightarrow> u32 \<times> world" where
  "get_receive_window E sock t w =
     (let toforward = foldl (\<lambda>n g. n + seg_left g) 0 (t_forward t);
          (window, w) = get_receive_buffer E sock w;
          max = push_bit (unat (t_recv_scale t)) 0xFFFF;
          window = (if window > max then max else window)
      in (if toforward < window then window - toforward else 0, w))"

section \<open>The queue of segments to forward\<close>

text \<open>The walk of \<open>queue_tcp\<close> to the first segment that is not before \<open>seq\<close>, and what it does
  there: insert, keep, or replace the data.\<close>

fun queue_insert :: "u32 \<Rightarrow> bool \<Rightarrow> bytes \<Rightarrow> segment list \<Rightarrow> segment list" where
  "queue_insert seq psh data [] =
     [\<lparr>g_seq = seq, g_len = of_nat (length data), g_sent = 0, g_psh = psh, g_data = data\<rparr>]"
| "queue_insert seq psh data (g # gs) =
     (if compare_u32 (g_seq g) seq < 0 then g # queue_insert seq psh data gs
      else if compare_u32 (g_seq g) seq > 0 then
        \<lparr>g_seq = seq, g_len = of_nat (length data), g_sent = 0, g_psh = psh, g_data = data\<rparr> # g # gs
      else if g_len g = of_nat (length data) then g # gs
      else g\<lparr>g_len := of_nat (length data), g_data := data\<rparr> # gs)"

definition queue_tcp :: "u32 \<Rightarrow> bool \<Rightarrow> tcp_session \<Rightarrow> bytes \<Rightarrow> tcp_session" where
  "queue_tcp seq psh t data =
     (if compare_u32 seq (t_remote_seq t) < 0 then t
      else t\<lparr>t_forward := queue_insert seq psh data (t_forward t)\<rparr>)"

section \<open>The periodic check\<close>

text \<open>An idle session: a connecting one is closed, any other reset.\<close>

definition tcp_expire :: "env \<Rightarrow> tcp_session \<Rightarrow> int \<Rightarrow> int \<Rightarrow> world \<Rightarrow> tcp_session \<times> world" where
  "tcp_expire E t timeout now w =
     (if t_state t \<noteq> TCP_CLOSING \<and> t_state t \<noteq> TCP_CLOSE \<and> t_time t + timeout < now
      then if t_state t = TCP_LISTEN then (t\<lparr>t_state := TCP_CLOSING\<rparr>, w) else write_rst E t w
      else (t, w))"

text \<open>A closing session gives its socket back.\<close>

definition tcp_close_socket :: "env \<Rightarrow> ng_session \<Rightarrow> tcp_session \<Rightarrow> world \<Rightarrow> ng_session \<times> tcp_session \<times> world" where
  "tcp_close_socket E s t w =
     (if t_state t = TCP_CLOSING
      then let (s, w) = (if s_socket s \<ge> 0 then (s\<lparr>s_socket := -1\<rparr>, sys_close (s_socket s) w) else (s, w));
               (tm, w) = sys_time E w
           in (s, t\<lparr>t_time := tm, t_state := TCP_CLOSE\<rparr>, w)
      else (s, t, w))"

text \<open>A closed session reports its usage once.\<close>

definition tcp_account :: "tcp_session \<Rightarrow> world \<Rightarrow> tcp_session \<times> world" where
  "tcp_account t w =
     (if (t_state t = TCP_CLOSING \<or> t_state t = TCP_CLOSE) \<and> (t_sent t \<noteq> 0 \<or> t_received t \<noteq> 0)
      then (t\<lparr>t_sent := 0, t_received := 0\<rparr>,
            emit (Account (t_version t) IPPROTO_TCP (t_daddr t) (t_dest t) (t_uid t)
              (t_sent t) (t_received t)) w)
      else (t, w))"

definition check_tcp_session :: "env \<Rightarrow> ng_session \<Rightarrow> tcp_session \<Rightarrow> int \<Rightarrow> int \<Rightarrow> world \<Rightarrow>
    bool \<times> ng_session \<times> tcp_session \<times> world" where
  "check_tcp_session E s t sessions maxsessions w =
     (let (now, w) = sys_time E w;
          timeout = get_tcp_timeout t sessions maxsessions;
          (t, w) = tcp_expire E t timeout now w;
          (s, t, w) = tcp_close_socket E s t w;
          (t, w) = tcp_account t w
      in (t_state t = TCP_CLOSE \<and> t_time t + 300 < now, s, t, w))"

section \<open>The events to poll for\<close>

text \<open>A keep alive makes the client repeat its window: an ACK of one byte less.\<close>

definition tcp_keep_alive :: "env \<Rightarrow> tcp_session \<Rightarrow> world \<Rightarrow> tcp_session \<times> world" where
  "tcp_keep_alive E t w =
     (let (ms, w) = sys_ms E w
      in if ms - t_last_keep_alive t > 100 then
           let (_, t, w) = write_ack E (t\<lparr>t_last_keep_alive := ms, t_remote_seq := t_remote_seq t - 1\<rparr>) w
           in (t\<lparr>t_remote_seq := t_remote_seq t + 1\<rparr>, w)
         else (t, w))"

definition tcp_poll_events :: "env \<Rightarrow> int \<Rightarrow> tcp_session \<Rightarrow> world \<Rightarrow> u32 \<times> bool \<times> tcp_session \<times> world" where
  "tcp_poll_events E sock t w =
     (if t_state t = TCP_LISTEN
      then (EPOLLERR OR (if t_socks5 t = SOCKS5_NONE then EPOLLOUT else EPOLLIN), False, t, w)
      else if t_state t = TCP_ESTABLISHED \<or> t_state t = TCP_CLOSE_WAIT then
        let (events, recheck, t, w) =
              (if get_send_window t > 0 then (EPOLLERR OR EPOLLIN, False, t, w)
               else let (t, w) = tcp_keep_alive E t w in (EPOLLERR, True, t, w))
        in (case t_forward t of
              [] \<Rightarrow> (events, recheck, t, w)
            | g # _ \<Rightarrow>
                let (buffer_size, w) = get_receive_buffer E sock w
                in if g_seq g = t_remote_seq t \<and> seg_left g < buffer_size
                   then (events OR EPOLLOUT, recheck, t, w) else (events, True, t, w))
      else (EPOLLERR, False, t, w))"

definition monitor_tcp_session :: "env \<Rightarrow> ng_session \<Rightarrow> tcp_session \<Rightarrow> world \<Rightarrow>
    bool \<times> ng_session \<times> tcp_session \<times> world" where
  "monitor_tcp_session E s t w =
     (let (events, recheck, t, w) = tcp_poll_events E (s_socket s) t w
      in if events \<noteq> s_events s then
           let s = s\<lparr>s_events := events\<rparr>;
               (ok, w) = sys_epoll E (EpollMod (s_socket s) events) (s_socket s) w
           in (recheck, s, if ok then t else t\<lparr>t_state := TCP_CLOSING\<rparr>, w)
         else (recheck, s, t, w))"

end
