(* ===== verification/Ng_Tcp_Socket.thy ===== *)
theory Ng_Tcp_Socket
  imports Ng_Tcp_Session Ng_Dns
begin

text \<open>
  \<open>check_tcp_socket\<close> of tcp.c, the reaction to an event on the upstream socket, in the parts the
  function has: the SOCKS5 handshake of a connecting session, the loop that forwards the queue,
  the window update and the acknowledgement, and the read from upstream. \<open>None\<close> is an access
  outside a buffer.
\<close>

section \<open>Connecting\<close>

definition socks5_enabled :: "env \<Rightarrow> bool" where
  "socks5_enabled E \<longleftrightarrow> cstr (socks5_addr E) \<noteq> [] \<and> socks5_port E \<noteq> 0"

definition socks5_fail :: "env \<Rightarrow> tcp_session \<Rightarrow> world \<Rightarrow> tcp_session \<times> world" where
  "socks5_fail E t w = write_rst E (t\<lparr>t_socks5 := SOCKS5_ZERO\<rparr>) w"

text \<open>The answer of the proxy.\<close>

definition socks5_recv :: "env \<Rightarrow> int \<Rightarrow> tcp_session \<Rightarrow> world \<Rightarrow> tcp_session \<times> world" where
  "socks5_recv E sock t w =
     (case sys_recv E sock 32 w of
        (RecvError _, w) \<Rightarrow> write_rst E t w
      | (RecvData b, w) \<Rightarrow>
          if t_socks5 t = SOCKS5_HELLO \<and> length b = 2 \<and> b ! 0 = 5 then
            if b ! 1 = 0 then (t\<lparr>t_socks5 := SOCKS5_CONNECT\<rparr>, w)
            else if b ! 1 = 2 then (t\<lparr>t_socks5 := SOCKS5_AUTH\<rparr>, w)
            else socks5_fail E t w
          else if t_socks5 t = SOCKS5_AUTH \<and> length b = 2 \<and> (b ! 0 = 1 \<or> b ! 0 = 5) then
            if b ! 1 = 0 then (t\<lparr>t_socks5 := SOCKS5_CONNECT\<rparr>, w) else socks5_fail E t w
          else if t_socks5 t = SOCKS5_CONNECT \<and> length b = 6 + (if t_version t = 4 then 4 else 16) \<and> b ! 0 = 5 then
            if b ! 1 = 0 then (t\<lparr>t_socks5 := SOCKS5_CONNECTED\<rparr>, w) else socks5_fail E t w
          else socks5_fail E t w)"

text \<open>The requests to the proxy.\<close>

definition socks5_hello :: bytes where
  "socks5_hello = [5, 2, 0, 2]"

definition socks5_auth :: "bytes \<Rightarrow> bytes \<Rightarrow> bytes" where
  "socks5_auth username password =
     (let ulen = of_nat (length (cstr username)) :: u8; plen = of_nat (length (cstr password)) :: u8
      in [1, ulen] @ take (unat ulen) (cstr username) @ [plen] @ take (unat plen) (cstr password))"

definition socks5_connect :: "tcp_session \<Rightarrow> bytes" where
  "socks5_connect t = [5, 1, 0, if t_version t = 4 then 1 else 4] @ t_daddr t @ u16_be (t_dest t)"

definition socks5_request :: "env \<Rightarrow> int \<Rightarrow> tcp_session \<Rightarrow> bytes \<Rightarrow> world \<Rightarrow> tcp_session \<times> world" where
  "socks5_request E sock t b w =
     (let ((sent, _), w) = sys_send E sock b False w
      in if sent < 0 then write_rst E t w else (t, w))"

definition socks5_send :: "env \<Rightarrow> int \<Rightarrow> tcp_session \<Rightarrow> world \<Rightarrow> tcp_session \<times> world" where
  "socks5_send E sock t w =
     (case t_socks5 t of
        SOCKS5_HELLO \<Rightarrow> socks5_request E sock t socks5_hello w
      | SOCKS5_AUTH \<Rightarrow> socks5_request E sock t (socks5_auth (socks5_username E) (socks5_password E)) w
      | SOCKS5_CONNECT \<Rightarrow> socks5_request E sock t (socks5_connect t) w
      | SOCKS5_CONNECTED \<Rightarrow>
          (let t = t\<lparr>t_remote_seq := t_remote_seq t + 1\<rparr>;
               (r, t, w) = write_syn_ack E t w
           in if r \<ge> 0 then
                let (tm, w) = sys_time E w
                in (t\<lparr>t_time := tm, t_local_seq := t_local_seq t + 1, t_state := TCP_SYN_RECV\<rparr>, w)
              else (t, w))
      | _ \<Rightarrow> (t, w))"

definition tcp_connecting :: "env \<Rightarrow> int \<Rightarrow> tcp_session \<Rightarrow> u32 \<Rightarrow> world \<Rightarrow> tcp_session \<times> world" where
  "tcp_connecting E sock t events w =
     (let (t, w) =
        (if t_socks5 t = SOCKS5_NONE then
           (if events AND EPOLLOUT \<noteq> 0
            then (t\<lparr>t_socks5 := (if socks5_enabled E then SOCKS5_HELLO else SOCKS5_CONNECTED)\<rparr>, w)
            else (t, w))
         else if events AND EPOLLIN \<noteq> 0 then socks5_recv E sock t w
         else (t, w))
      in socks5_send E sock t w)"

section \<open>Forwarding\<close>

text \<open>The \<open>while\<close> loop over the head of \<open>forward\<close>; \<open>gs\<close> is the queue. The result tells whether
  anything was sent.\<close>

fun forward_loop :: "env \<Rightarrow> int \<Rightarrow> segment list \<Rightarrow> tcp_session \<Rightarrow> bool \<Rightarrow> u32 \<Rightarrow> world \<Rightarrow>
    (bool \<times> tcp_session \<times> world) option" where
  "forward_loop E sock [] t fwd buffer_size w = Some (fwd, t\<lparr>t_forward := []\<rparr>, w)"
| "forward_loop E sock (g # gs) t fwd buffer_size w =
     (if g_seq g = t_remote_seq t \<and> seg_left g < buffer_size then do {
        b \<leftarrow> (if g_sent g \<le> g_len g
             then slice (g_data g) (unat (g_sent g)) (unat (g_len g) - unat (g_sent g)) else None);
        (case sys_send E sock b (\<not> g_psh g) w of ((sent, err), w) \<Rightarrow>
           if sent < 0 then
             if err = EINTR \<or> err = EAGAIN then Some (fwd, t\<lparr>t_forward := g # gs\<rparr>, w)
             else (case write_rst E (t\<lparr>t_forward := g # gs\<rparr>) w of (t, w) \<Rightarrow> Some (fwd, t, w))
           else
             (let t = t\<lparr>t_sent := t_sent t + of_int sent\<rparr>;
                  g = g\<lparr>g_sent := g_sent g + of_int sent\<rparr>
              in if g_len g = g_sent g
                 then forward_loop E sock gs (t\<lparr>t_remote_seq := g_seq g + ucast (g_sent g)\<rparr>) True
                        (buffer_size - of_int sent) w
                 else Some (True, t\<lparr>t_forward := g # gs\<rparr>, w))) }
      else Some (fwd, t\<lparr>t_forward := g # gs\<rparr>, w))"

text \<open>One turn of the loop, by what it does: nothing, an error to retry, a reset, a part of the
  segment, or all of it.\<close>

lemma forward_loop_cases [consumes 1, case_names stop retry reset part full]:
  assumes "forward_loop E sock (g # gs) t fwd bs w = Some (fwd', t', w')"
  obtains
    "\<not> (g_seq g = t_remote_seq t \<and> seg_left g < bs)" "fwd' = fwd" "t' = t\<lparr>t_forward := g # gs\<rparr>" "w' = w"
  | b err where "g_seq g = t_remote_seq t" "seg_left g < bs" "g_sent g \<le> g_len g"
      "slice (g_data g) (unat (g_sent g)) (unat (g_len g) - unat (g_sent g)) = Some b"
      "sys_send E sock b (\<not> g_psh g) w = ((-1, err), w')" "fwd' = fwd" "t' = t\<lparr>t_forward := g # gs\<rparr>"
  | b err w1 where "g_seq g = t_remote_seq t" "seg_left g < bs" "g_sent g \<le> g_len g"
      "slice (g_data g) (unat (g_sent g)) (unat (g_len g) - unat (g_sent g)) = Some b"
      "sys_send E sock b (\<not> g_psh g) w = ((-1, err), w1)" "fwd' = fwd"
      "write_rst E (t\<lparr>t_forward := g # gs\<rparr>) w1 = (t', w')"
  | b n err where "g_seq g = t_remote_seq t" "seg_left g < bs" "g_sent g \<le> g_len g"
      "slice (g_data g) (unat (g_sent g)) (unat (g_len g) - unat (g_sent g)) = Some b"
      "sys_send E sock b (\<not> g_psh g) w = ((int n, err), w')" "n \<le> length b" "g_len g \<noteq> g_sent g + of_nat n"
      "fwd'" "t' = t\<lparr>t_sent := t_sent t + of_nat n, t_forward := g\<lparr>g_sent := g_sent g + of_nat n\<rparr> # gs\<rparr>"
  | b n err w1 where "g_seq g = t_remote_seq t" "seg_left g < bs" "g_sent g \<le> g_len g"
      "slice (g_data g) (unat (g_sent g)) (unat (g_len g) - unat (g_sent g)) = Some b"
      "sys_send E sock b (\<not> g_psh g) w = ((int n, err), w1)" "n \<le> length b" "g_len g = g_sent g + of_nat n"
      "forward_loop E sock gs (t\<lparr>t_sent := t_sent t + of_nat n, t_remote_seq := g_seq g + ucast (g_len g)\<rparr>) True
         (bs - of_nat n) w1 = Some (fwd', t', w')"
proof (cases "g_seq g = t_remote_seq t \<and> seg_left g < bs")
  case False
  then have "fwd' = fwd" "t' = t\<lparr>t_forward := g # gs\<rparr>" "w' = w" using assms by (simp_all split: if_split_asm)
  with False show ?thesis by (rule that(1))
next
  case True
  then have le: "g_sent g \<le> g_len g"
    using assms by (cases "g_sent g \<le> g_len g") simp_all
  then have "slice (g_data g) (unat (g_sent g)) (unat (g_len g) - unat (g_sent g)) \<noteq> None"
    using assms True by (cases "slice (g_data g) (unat (g_sent g)) (unat (g_len g) - unat (g_sent g))") simp_all
  then obtain b where
    b: "slice (g_data g) (unat (g_sent g)) (unat (g_len g) - unat (g_sent g)) = Some b" by blast
  obtain sent err w1 where snd: "sys_send E sock b (\<not> g_psh g) w = ((sent, err), w1)"
    by (metis prod.exhaust)
  have eq: "(if sent < 0 then
             if err = EINTR \<or> err = EAGAIN then Some (fwd, t\<lparr>t_forward := g # gs\<rparr>, w1)
             else (case write_rst E (t\<lparr>t_forward := g # gs\<rparr>) w1 of (t, w) \<Rightarrow> Some (fwd, t, w))
           else
             (let t = t\<lparr>t_sent := t_sent t + of_int sent\<rparr>;
                  g = g\<lparr>g_sent := g_sent g + of_int sent\<rparr>
              in if g_len g = g_sent g
                 then forward_loop E sock gs (t\<lparr>t_remote_seq := g_seq g + ucast (g_sent g)\<rparr>) True
                        (bs - of_int sent) w1
                 else Some (True, t\<lparr>t_forward := g # gs\<rparr>, w1))) = Some (fwd', t', w')"
    using assms True le b snd by simp
  have range: "sent = -1 \<or> 0 \<le> sent \<and> sent \<le> int (length b)"
    using snd by (auto simp: sys_send_def Let_def split: prod.splits if_split_asm)
  show ?thesis
  proof (cases "sent < 0")
    case neg: True
    then have m: "sent = -1" using range by simp
    show ?thesis
    proof (cases "err = EINTR \<or> err = EAGAIN")
      case retry: True
      then show ?thesis using eq neg m True le b snd by (intro that(2)) auto
    next
      case False
      then show ?thesis using eq neg m True le b snd by (intro that(3)) (auto split: prod.splits)
    qed
  next
    case pos: False
    then obtain n where n: "sent = int n" "n \<le> length b" using range by (cases sent) auto
    show ?thesis
    proof (cases "g_len g = g_sent g + of_nat n")
      case full: True
      then show ?thesis using eq pos n True le b snd by (intro that(5)) (auto simp: Let_def)
    next
      case False
      then show ?thesis using eq pos n True le b snd by (intro that(4)) (auto simp: Let_def)
    qed
  qed
qed

declare forward_loop.simps(2) [simp del]

text \<open>Window and acknowledgement after the loop.\<close>

definition tcp_acknowledge :: "env \<Rightarrow> int \<Rightarrow> bool \<Rightarrow> tcp_session \<Rightarrow> world \<Rightarrow> tcp_session \<times> world" where
  "tcp_acknowledge E sock fwd t w =
     (let (window, w) = get_receive_window E sock t w;
          prev = t_recv_window t;
          t = t\<lparr>t_recv_window := window\<rparr>
      in if fwd \<or> prev = 0 \<and> window > 0 then
           let t = (if fwd \<and> t_forward t = [] \<and> t_state t = TCP_CLOSE_WAIT
                    then t\<lparr>t_remote_seq := t_remote_seq t + 1\<rparr> else t);
               (r, t, w) = write_ack E t w
           in if r \<ge> 0 then let (tm, w) = sys_time E w in (t\<lparr>t_time := tm\<rparr>, w) else (t, w)
         else (t, w))"

definition tcp_forward :: "env \<Rightarrow> int \<Rightarrow> tcp_session \<Rightarrow> u32 \<Rightarrow> world \<Rightarrow> (tcp_session \<times> world) option" where
  "tcp_forward E sock t events w = do {
     (fwd, t, w) \<leftarrow>
       (if events AND EPOLLOUT \<noteq> 0 then
          (case get_receive_buffer E sock w of (buffer_size, w) \<Rightarrow>
             forward_loop E sock (t_forward t) t False buffer_size w)
        else Some (False, t, w));
     Some (tcp_acknowledge E sock fwd t w) }"

section \<open>Reading\<close>

text \<open>End of file upstream: FIN to the client, or RST while there is still data to forward.\<close>

definition tcp_eof :: "env \<Rightarrow> ng_session \<Rightarrow> tcp_session \<Rightarrow> world \<Rightarrow> ng_session \<times> tcp_session \<times> world" where
  "tcp_eof E s t w =
     (let (t, w) =
        (if t_forward t = [] then
           let (r, t, w) = write_fin_ack E t w;
               t = (if r \<ge> 0 then t\<lparr>t_local_seq := t_local_seq t + 1\<rparr> else t)
           in (if t_state t = TCP_ESTABLISHED then t\<lparr>t_state := TCP_FIN_WAIT1\<rparr>
               else if t_state t = TCP_CLOSE_WAIT then t\<lparr>t_state := TCP_LAST_ACK\<rparr> else t, w)
         else write_rst E t w)
      in (s\<lparr>s_socket := -1\<rparr>, t, sys_close (s_socket s) w))"

definition tcp_read_data :: "env \<Rightarrow> tcp_session \<Rightarrow> bytes \<Rightarrow> world \<Rightarrow> (tcp_session \<times> world) option" where
  "tcp_read_data E t b w = do {
     let t = t\<lparr>t_received := t_received t + of_nat (length b)\<rparr>;
     (b, w) \<leftarrow>
       (if t_dest t = 53 \<and> length b > 2 then do {
          ((d, _), w) \<leftarrow> parse_dns_response E (drop 2 b) w;
          Some (take 2 b @ d, w) }
        else Some (b, w));
     let (r, t, w) = write_data E t b w;
     Some (if r \<ge> 0 then t\<lparr>t_local_seq := t_local_seq t + of_nat (length b),
                            t_unconfirmed := t_unconfirmed t + 1\<rparr> else t, w) }"

definition tcp_read :: "env \<Rightarrow> ng_session \<Rightarrow> tcp_session \<Rightarrow> u32 \<Rightarrow> world \<Rightarrow> (ng_session \<times> tcp_session \<times> world) option" where
  "tcp_read E s t events w =
     (let send_window = get_send_window t
      in if events AND EPOLLIN \<noteq> 0 \<and> send_window > 0 then
           let (tm, w) = sys_time E w;
               t = t\<lparr>t_time := tm\<rparr>;
               buffer_size = (if send_window > ucast (t_mss t) then ucast (t_mss t) else send_window)
           in (case sys_recv E (s_socket s) (unat buffer_size) w of
                 (RecvError err, w) \<Rightarrow>
                   Some (if err \<noteq> EINTR \<and> err \<noteq> EAGAIN
                         then let (t, w) = write_rst E t w in (s, t, w) else (s, t, w))
               | (RecvData b, w) \<Rightarrow>
                   if b = [] then Some (tcp_eof E s t w)
                   else do { (t, w) \<leftarrow> tcp_read_data E t b w; Some (s, t, w) })
         else Some (s, t, w))"

section \<open>The event handler\<close>

definition check_tcp_socket :: "env \<Rightarrow> ng_session \<Rightarrow> tcp_session \<Rightarrow> u32 \<Rightarrow> world \<Rightarrow>
    (ng_session \<times> tcp_session \<times> world) option" where
  "check_tcp_socket E s t events w =
     (if events AND EPOLLERR \<noteq> 0 then
        let (tm, w) = sys_time E w;
            (t, w) = write_rst E (t\<lparr>t_time := tm\<rparr>) w
        in Some (s, t, w)
      else if t_state t = TCP_LISTEN then
        let (t, w) = tcp_connecting E (s_socket s) t events w in Some (s, t, w)
      else do {
        (t, w) \<leftarrow> tcp_forward E (s_socket s) t events w;
        if t_state t = TCP_ESTABLISHED \<or> t_state t = TCP_CLOSE_WAIT
        then tcp_read E s t events w else Some (s, t, w) })"

end
