(* ===== verification/Ng_Tcp_Handle.thy ===== *)
theory Ng_Tcp_Handle
  imports Ng_Tcp_Session
begin

text \<open>
  \<open>handle_tcp\<close> of tcp.c: a segment from the client. The parts are the lookup of the session, the
  options of a SYN and the new session, the RST for an unknown session, and the state machine for
  a known one. \<open>buf\<close> is the buffer the tun device was read into and \<open>plen\<close> the length of the
  packet in it; the session list is the linked list of \<open>args->ctx->ng_session\<close>.
\<close>

section \<open>Addresses and session lookup\<close>

definition pkt_addrs :: "bytes \<Rightarrow> nat \<Rightarrow> (bytes \<times> bytes) option" where
  "pkt_addrs buf version =
     (if version = 4 then do { s \<leftarrow> slice buf 12 4; d \<leftarrow> slice buf 16 4; Some (s, d) }
      else do { s \<leftarrow> slice buf 8 16; d \<leftarrow> slice buf 24 16; Some (s, d) })"

definition tcp_match :: "nat \<Rightarrow> bytes \<Rightarrow> u16 \<Rightarrow> bytes \<Rightarrow> u16 \<Rightarrow> ng_session \<Rightarrow> bool" where
  "tcp_match version saddr source daddr dest s =
     (case s_proto s of
        Tcp t \<Rightarrow> t_version t = version \<and> t_source t = source \<and> t_dest t = dest \<and>
          t_saddr t = saddr \<and> t_daddr t = daddr
      | _ \<Rightarrow> False)"

text \<open>Assignments through the pointer a search returned.\<close>

fun replace_first :: "('a \<Rightarrow> bool) \<Rightarrow> 'a \<Rightarrow> 'a list \<Rightarrow> 'a list" where
  "replace_first P y [] = []"
| "replace_first P y (x # xs) = (if P x then y # xs else x # replace_first P y xs)"

section \<open>A new session\<close>

text \<open>The option loop. An option of length 0 leaves it where it is, so it may not end.\<close>

partial_function (option) tcp_options_loop ::
    "bytes \<Rightarrow> nat \<Rightarrow> int \<Rightarrow> u16 \<Rightarrow> u8 \<Rightarrow> (u16 \<times> u8) option" where
  "tcp_options_loop buf options optlen mss ws =
     (if optlen > 0 then do {
        kind \<leftarrow> rd buf options;
        len \<leftarrow> rd buf (options + 1);
        if kind = 0 then Some (mss, ws)
        else do {
          (mss, ws) \<leftarrow>
            (if kind = 2 \<and> len = 4 then do { m \<leftarrow> rd16 buf (options + 2); Some (m, ws) }
             else if kind = 3 \<and> len = 3 then do { x \<leftarrow> rd buf (options + 2); Some (mss, x) }
             else Some (mss, ws));
          if kind = 1 then tcp_options_loop buf (options + 1) (optlen - 1) mss ws
          else tcp_options_loop buf (options + unat len) (optlen - int (unat len)) mss ws } }
      else Some (mss, ws))"

definition text_version :: "bytes \<Rightarrow> nat" where
  "text_version a = (if 58 \<notin> set a then 4 else 6)"

definition open_tcp_socket :: "env \<Rightarrow> tcp_session \<Rightarrow> allowed option \<Rightarrow> world \<Rightarrow> int \<times> world" where
  "open_tcp_socket E t redirect w =
     (let socks = cstr (socks5_addr E) \<noteq> [] \<and> socks5_port E \<noteq> 0;
          version = (case redirect of
              None \<Rightarrow> if socks then text_version (cstr (socks5_addr E)) else t_version t
            | Some r \<Rightarrow> text_version (raddr r));
          (sock, w) = ask (\<lambda>k. e_socket E k (if version = 4 then 4 else 6) IPPROTO_TCP) w
      in if sock < 0 then (-1, w)
         else let (p, w) = ask (\<lambda>k. e_protect E k sock) w
              in if p < 0 then (-1, w)
                 else let (nb, w) = ask (\<lambda>k. e_nonblock E k sock) w
                      in if \<not> nb then (-1, w)
                         else let sin = (if version = 4 then Sin4 else Sin6);
                                  addr = (case redirect of
                                      None \<Rightarrow> if socks then sin (e_pton E (cstr (socks5_addr E))) (socks5_port E)
                                              else sin (t_daddr t) (t_dest t)
                                    | Some r \<Rightarrow> sin (e_pton E (raddr r)) (rport r));
                                  ((err, errno), w) = ask (\<lambda>k. e_connect E k sock addr) w;
                                  w = emit (Connect sock addr) w
                              in if err < 0 \<and> errno \<noteq> EINPROGRESS then (-1, w) else (sock, w))"

definition new_tcp :: "int \<Rightarrow> int \<Rightarrow> nat \<Rightarrow> u16 \<Rightarrow> u8 \<Rightarrow> tcphdr \<Rightarrow> u32 \<Rightarrow> bytes \<Rightarrow> bytes \<Rightarrow> segment list \<Rightarrow> tcp_session" where
  "new_tcp tm uid version mss ws h isn saddr daddr forward =
     \<lparr>t_uid = uid, t_time = tm, t_version = version, t_mss = mss, t_recv_scale = ws, t_send_scale = ws,
      t_recv_window = 0, t_send_window = push_bit (unat ws) (ucast (th_window h)), t_unconfirmed = 0,
      t_remote_seq = th_seq h, t_local_seq = isn, t_remote_start = th_seq h, t_local_start = isn,
      t_acked = 0, t_last_keep_alive = 0, t_sent = 0, t_received = 0, t_saddr = saddr,
      t_source = th_source h, t_daddr = daddr, t_dest = th_dest h, t_state = TCP_LISTEN,
      t_socks5 = SOCKS5_NONE, t_forward = forward\<rparr>"

text \<open>Open the socket, watch it and put the session at the head of the list; a session that is not
  allowed is reset at once.\<close>

definition tcp_register :: "env \<Rightarrow> nat \<Rightarrow> tcp_session \<Rightarrow> bool \<Rightarrow> allowed option \<Rightarrow> ng_session list \<Rightarrow> world \<Rightarrow>
    bool \<times> ng_session list \<times> world" where
  "tcp_register E ptr t is_allowed redirect ss w =
     (let (sock, w) = open_tcp_socket E t redirect w
      in if sock < 0 then (False, ss, w)
         else let (window, w) = get_receive_window E sock t w;
                  t = t\<lparr>t_recv_window := window\<rparr>;
                  events = EPOLLOUT OR EPOLLERR;
                  (_, w) = sys_epoll E (EpollAdd sock events) sock w;
                  (t, w) = (if is_allowed then (t, w) else write_rst E t w)
              in (True, \<lparr>s_ptr = ptr, s_proto = Tcp t, s_socket = sock, s_events = events\<rparr> # ss, w))"

text \<open>\<open>cur == NULL\<close> and SYN: \<open>recv_window\<close> is set once the socket is open, so its first value
  is never read.\<close>

definition tcp_syn :: "env \<Rightarrow> bytes \<Rightarrow> nat \<Rightarrow> nat \<Rightarrow> tcphdr \<Rightarrow> nat \<Rightarrow> u16 \<Rightarrow> nat \<Rightarrow> bytes \<Rightarrow> bytes \<Rightarrow> int \<Rightarrow> bool \<Rightarrow>
    allowed option \<Rightarrow> ng_session list \<Rightarrow> world \<Rightarrow> (bool \<times> ng_session list \<times> world) option" where
  "tcp_syn E buf payload tcpoptlen h data datalen version saddr daddr uid is_allowed redirect ss w = do {
     (mss, ws) \<leftarrow> tcp_options_loop buf (payload + 20) (int tcpoptlen) (get_default_mss version) 0;
     let (ptr, w) = ask (e_malloc E) w;
     let (tm, w) = sys_time E w;
     let (isn, w) = ask (e_rand E) w;
     forward \<leftarrow>
       (if datalen \<noteq> 0 then do {
          d \<leftarrow> slice buf data (unat datalen);
          Some [\<lparr>g_seq = th_seq h, g_len = datalen, g_sent = 0, g_psh = th_psh h, g_data = d\<rparr>] }
        else Some []);
     let t = new_tcp tm uid version mss ws h isn saddr daddr forward;
     Some (tcp_register E ptr t is_allowed redirect ss w) }"

text \<open>\<open>cur == NULL\<close> and no SYN: a session of zeros is made up for the RST.\<close>

definition zero_tcp :: tcp_session where
  "zero_tcp =
     \<lparr>t_uid = 0, t_time = 0, t_version = 0, t_mss = 0, t_recv_scale = 0, t_send_scale = 0,
      t_recv_window = 0, t_send_window = 0, t_unconfirmed = 0, t_remote_seq = 0, t_local_seq = 0,
      t_remote_start = 0, t_local_start = 0, t_acked = 0, t_last_keep_alive = 0, t_sent = 0,
      t_received = 0, t_saddr = [], t_source = 0, t_daddr = [], t_dest = 0, t_state = TCP_ZERO,
      t_socks5 = SOCKS5_ZERO, t_forward = []\<rparr>"

definition tcp_unknown :: "env \<Rightarrow> tcphdr \<Rightarrow> u16 \<Rightarrow> nat \<Rightarrow> bytes \<Rightarrow> bytes \<Rightarrow> world \<Rightarrow> world" where
  "tcp_unknown E h datalen version saddr daddr w =
     snd (write_rst E
       (zero_tcp\<lparr>t_version := version, t_local_seq := th_ack_seq h,
          t_remote_seq := th_seq h + ucast datalen + (if th_syn h \<or> th_fin h then 1 else 0),
          t_saddr := saddr, t_daddr := daddr, t_source := th_source h, t_dest := th_dest h\<rparr>) w)"

section \<open>A known session\<close>

text \<open>FIN in sequence.\<close>

definition tcp_fin :: "env \<Rightarrow> tcp_session \<Rightarrow> world \<Rightarrow> bool \<times> tcp_session \<times> world" where
  "tcp_fin E t w =
     (if t_state t = TCP_ESTABLISHED then
        if t_forward t = [] then
          let (r, t, w) = write_ack E (t\<lparr>t_remote_seq := t_remote_seq t + 1\<rparr>) w
          in (True, if r \<ge> 0 then t\<lparr>t_state := TCP_CLOSE_WAIT\<rparr> else t, w)
        else (True, t\<lparr>t_state := TCP_CLOSE_WAIT\<rparr>, w)
      else if t_state t = TCP_CLOSE_WAIT then (True, t, w)
      else if t_state t = TCP_FIN_WAIT1 then
        let (r, t, w) = write_ack E (t\<lparr>t_remote_seq := t_remote_seq t + 1\<rparr>) w
        in (True, if r \<ge> 0 then t\<lparr>t_state := TCP_CLOSE\<rparr> else t, w)
      else (False, t, w))"

text \<open>ACK of all that was sent.\<close>

definition tcp_ack :: "tcphdr \<Rightarrow> tcp_session \<Rightarrow> bool \<times> tcp_session" where
  "tcp_ack h t =
     (let t = t\<lparr>t_acked := th_ack_seq h\<rparr>
      in case t_state t of
           TCP_SYN_RECV \<Rightarrow> (True, t\<lparr>t_state := TCP_ESTABLISHED\<rparr>)
         | TCP_ESTABLISHED \<Rightarrow> (True, t)
         | TCP_LAST_ACK \<Rightarrow> (True, t\<lparr>t_state := TCP_CLOSING\<rparr>)
         | TCP_CLOSE_WAIT \<Rightarrow> (True, t)
         | TCP_FIN_WAIT1 \<Rightarrow> (True, t)
         | _ \<Rightarrow> (False, t))"

text \<open>Keep alive, an older ACK, or an ACK of what was never sent.\<close>

definition tcp_other_ack :: "env \<Rightarrow> int \<Rightarrow> tcphdr \<Rightarrow> tcp_session \<Rightarrow> world \<Rightarrow> bool \<times> tcp_session \<times> world" where
  "tcp_other_ack E sock h t w =
     (let ack = th_ack_seq h
      in if ack + 1 = t_local_seq t then
           (True, t, if t_state t = TCP_ESTABLISHED then emit (KeepAlive sock) w else w)
         else if compare_u32 ack (t_local_seq t) < 0 then
           (True, if compare_u32 ack (t_acked t) \<le> 0 then t else t\<lparr>t_acked := ack\<rparr>, w)
         else let (t, w) = write_rst E t w in (False, t, w))"

text \<open>RST, then the segments that acknowledge all that was sent, then the others.\<close>

definition tcp_sequence :: "env \<Rightarrow> int \<Rightarrow> tcphdr \<Rightarrow> tcp_session \<Rightarrow> world \<Rightarrow> bool \<times> tcp_session \<times> world" where
  "tcp_sequence E sock h t w =
     (if th_rst h then (False, t\<lparr>t_state := TCP_CLOSING\<rparr>, w)
      else if \<not> th_ack h \<or> th_ack_seq h = t_local_seq t then
        if th_syn h then (True, t, w)
        else if th_fin h then tcp_fin E t w
        else if th_ack h then (let (r, t) = tcp_ack h t in (r, t, w))
        else (False, t, w)
      else tcp_other_ack E sock h t w)"

definition tcp_known :: "env \<Rightarrow> int \<Rightarrow> bytes \<Rightarrow> nat \<Rightarrow> u16 \<Rightarrow> tcphdr \<Rightarrow> tcp_session \<Rightarrow> world \<Rightarrow>
    (bool \<times> tcp_session \<times> world) option" where
  "tcp_known E sock buf data datalen h t w =
     (if t_state t = TCP_CLOSING \<or> t_state t = TCP_CLOSE
      then (case write_rst E t w of (t, w) \<Rightarrow> Some (False, t, w))
      else
        (case (if \<not> th_syn h then (case sys_time E w of (tm, w) \<Rightarrow> (t\<lparr>t_time := tm\<rparr>, w)) else (t, w)) of (t, w) \<Rightarrow>
           (let t = t\<lparr>t_send_window := push_bit (unat (t_send_scale t)) (ucast (th_window h)), t_unconfirmed := 0\<rparr>
            in if datalen \<noteq> 0 \<and> (sock < 0 \<or> t_state t = TCP_CLOSE_WAIT)
               then (case write_rst E t w of (t, w) \<Rightarrow> Some (False, t, w))
               else do {
                 t \<leftarrow> (if datalen \<noteq> 0 then do {
                          d \<leftarrow> (if compare_u32 (th_seq h) (t_remote_seq t) < 0 then Some []
                               else slice buf data (unat datalen));
                          Some (queue_tcp (th_seq h) (th_psh h) t d) }
                        else Some t);
                 Some (tcp_sequence E sock h t w) })))"

section \<open>handle_tcp\<close>

definition handle_tcp :: "env \<Rightarrow> bytes \<Rightarrow> nat \<Rightarrow> nat \<Rightarrow> int \<Rightarrow> bool \<Rightarrow> allowed option \<Rightarrow> ng_session list \<Rightarrow> world \<Rightarrow>
    (bool \<times> ng_session list \<times> world) option" where
  "handle_tcp E buf plen payload uid is_allowed redirect ss w = do {
     b0 \<leftarrow> rd buf 0;
     let version = unat (drop_bit 4 b0);
     h \<leftarrow> get_tcphdr buf payload;
     let tcpoptlen = unat ((th_doff h - 5) * 4);
     let data = payload + 20 + tcpoptlen;
     let datalen = of_int (int plen - int data);
     (saddr, daddr) \<leftarrow> pkt_addrs buf version;
     let key = tcp_match version saddr (th_source h) daddr (th_dest h);
     if th_urg h then Some (True, ss, w)
     else (case find key ss of
         None \<Rightarrow>
           if th_syn h
           then tcp_syn E buf payload tcpoptlen h data datalen version saddr daddr uid is_allowed redirect ss w
           else Some (False, ss, tcp_unknown E h datalen version saddr daddr w)
       | Some s \<Rightarrow>
           (case s_proto s of
              Tcp t \<Rightarrow> do {
                (r, t, w) \<leftarrow> tcp_known E (s_socket s) buf data datalen h t w;
                Some (r, replace_first key (s\<lparr>s_proto := Tcp t\<rparr>) ss, w) }
            | _ \<Rightarrow> None)) }"

end
