(* ===== verification/Ng_Machine.thy ===== *)
theory Ng_Machine
  imports Main
begin

text \<open>
  The contract of a session state machine: a step relation, its initial states, an invariant every
  step keeps and a rank no step lowers. What follows for all reachable states is proved once.
\<close>

inductive reach :: "('s \<Rightarrow> bool) \<Rightarrow> ('s \<Rightarrow> 's \<Rightarrow> bool) \<Rightarrow> 's \<Rightarrow> bool"
  for init :: "'s \<Rightarrow> bool" and step :: "'s \<Rightarrow> 's \<Rightarrow> bool" where
  reach_init: "init s \<Longrightarrow> reach init step s"
| reach_step: "reach init step s \<Longrightarrow> step s s' \<Longrightarrow> reach init step s'"

locale session_machine =
  fixes init :: "'s \<Rightarrow> bool"
    and step :: "'s \<Rightarrow> 's \<Rightarrow> bool"
    and inv :: "'s \<Rightarrow> bool"
    and rank :: "'s \<Rightarrow> 'r::linorder"
  assumes init_inv: "init s \<Longrightarrow> inv s"
    and step_inv: "inv s \<Longrightarrow> step s s' \<Longrightarrow> inv s'"
    and step_rank: "inv s \<Longrightarrow> step s s' \<Longrightarrow> rank s \<le> rank s'"
begin

lemma reach_inv: "reach init step s \<Longrightarrow> inv s"
  by (induction rule: reach.induct) (auto intro: init_inv step_inv)

lemma steps_inv: "step\<^sup>*\<^sup>* s s' \<Longrightarrow> inv s \<Longrightarrow> inv s'"
  by (induction rule: rtranclp_induct) (auto intro: step_inv)

lemma steps_rank: "step\<^sup>*\<^sup>* s s' \<Longrightarrow> inv s \<Longrightarrow> rank s \<le> rank s'"
proof (induction rule: rtranclp_induct)
  case (step s' s'')
  then show ?case using steps_inv [OF step(1)] step_rank by (meson order_trans)
qed simp

text \<open>A state of another rank is never seen again.\<close>

lemma never_back: "step\<^sup>*\<^sup>* s s' \<Longrightarrow> step\<^sup>*\<^sup>* s' s'' \<Longrightarrow> inv s \<Longrightarrow> rank s'' = rank s \<Longrightarrow> rank s' = rank s"
  using steps_rank steps_inv by (metis order_antisym)

end

end
