(* ===== verification/Ng_Tcp_Machine.thy ===== *)
theory Ng_Tcp_Machine
  imports Ng_Tcp_Socket Ng_Tcp_Handle Ng_Machine
begin

text \<open>
  The life of a TCP session: the step relation over all operations that touch a session, its
  invariant (which states have an open socket) and the order in which the states are passed.
\<close>

section \<open>The order of the states\<close>

fun tcp_rank :: "tcp_state \<Rightarrow> nat" where
  "tcp_rank TCP_ZERO = 0"
| "tcp_rank TCP_SYN_SENT = 1"
| "tcp_rank TCP_LISTEN = 2"
| "tcp_rank TCP_SYN_RECV = 3"
| "tcp_rank TCP_ESTABLISHED = 4"
| "tcp_rank TCP_CLOSE_WAIT = 5"
| "tcp_rank TCP_FIN_WAIT1 = 6"
| "tcp_rank TCP_LAST_ACK = 7"
| "tcp_rank TCP_FIN_WAIT2 = 8"
| "tcp_rank TCP_TIME_WAIT = 9"
| "tcp_rank TCP_CLOSING = 10"
| "tcp_rank TCP_CLOSE = 11"

instantiation tcp_state :: linorder
begin

definition less_eq_tcp_state :: "tcp_state \<Rightarrow> tcp_state \<Rightarrow> bool" where
  "less_eq_tcp_state a b \<longleftrightarrow> tcp_rank a \<le> tcp_rank b"

definition less_tcp_state :: "tcp_state \<Rightarrow> tcp_state \<Rightarrow> bool" where
  "less_tcp_state a b \<longleftrightarrow> tcp_rank a < tcp_rank b"

instance
proof
  fix x y :: tcp_state
  show "x \<le> y \<Longrightarrow> y \<le> x \<Longrightarrow> x = y"
    unfolding less_eq_tcp_state_def by (cases x; cases y) simp_all
qed (auto simp: less_eq_tcp_state_def less_tcp_state_def)

end

lemma le_tcp_state [simp]: "a \<le> b \<longleftrightarrow> tcp_rank a \<le> tcp_rank b" for a b :: tcp_state
  by (rule less_eq_tcp_state_def)

lemma le_TCP_CLOSING: "s \<noteq> TCP_CLOSE \<Longrightarrow> tcp_rank s \<le> 10"
  by (cases s) simp_all

lemma le_TCP_CLOSE: "tcp_rank s \<le> 11"
  by (cases s) simp_all

section \<open>What the operations do to the state\<close>

lemma write_or_close_result:
  "write_or_close E t d a b c w = (r, t', w') \<Longrightarrow>
   (r = 0 \<and> t' = t) \<or> (r = -1 \<and> t' = t\<lparr>t_state := TCP_CLOSING\<rparr>)"
  by (auto simp: write_or_close_def split: prod.splits if_splits)

lemmas write_result =
  write_or_close_result [of _ _ "[]" True True False, folded write_syn_ack_def]
  write_or_close_result [of _ _ "[]" False True False, folded write_ack_def]
  write_or_close_result [of _ _ _ False True False, folded write_data_def]
  write_or_close_result [of _ _ "[]" False True True, folded write_fin_ack_def]

lemma write_rst_result:
  "write_rst E t w = (t', w') \<Longrightarrow>
   t' = t\<lparr>t_remote_seq := (if t_state t = TCP_LISTEN then t_remote_seq t + 1 else t_remote_seq t),
          t_state := (if t_state t = TCP_CLOSE then TCP_CLOSE else TCP_CLOSING)\<rparr>"
  by (auto simp: write_rst_def Let_def split: prod.splits if_splits)

lemma fst_write_rst:
  "fst (write_rst E t w) = t\<lparr>t_remote_seq := (if t_state t = TCP_LISTEN then t_remote_seq t + 1 else t_remote_seq t),
     t_state := (if t_state t = TCP_CLOSE then TCP_CLOSE else TCP_CLOSING)\<rparr>"
  using write_rst_result [of E t w] by (metis prod.collapse)

text \<open>The states with an open socket, those without, and the ones no session is ever in. A
  connecting session has not finished the handshake with the proxy.\<close>

definition tcp_inv :: "int \<Rightarrow> tcp_session \<Rightarrow> bool" where
  "tcp_inv sock t \<longleftrightarrow>
     (t_state t \<in> {TCP_LISTEN, TCP_SYN_RECV, TCP_ESTABLISHED, TCP_CLOSE_WAIT} \<and> 0 \<le> sock \<or>
      t_state t \<in> {TCP_FIN_WAIT1, TCP_LAST_ACK, TCP_CLOSE} \<and> sock = -1 \<or>
      t_state t = TCP_CLOSING \<and> (0 \<le> sock \<or> sock = -1)) \<and>
     (t_state t = TCP_LISTEN \<longrightarrow> t_socks5 t \<noteq> SOCKS5_CONNECTED)"

text \<open>A step is good when it keeps the invariant and does not go back.\<close>

definition tcp_good :: "tcp_session \<Rightarrow> int \<Rightarrow> tcp_session \<Rightarrow> bool" where
  "tcp_good t sock' t' \<longleftrightarrow> tcp_inv sock' t' \<and> t_state t \<le> t_state t'"

lemma tcp_good_closing: "tcp_inv sock t \<Longrightarrow> t_state t \<noteq> TCP_CLOSE \<Longrightarrow> t_state t' = TCP_CLOSING \<Longrightarrow> tcp_good t sock t'"
  by (auto simp: tcp_good_def tcp_inv_def intro: le_TCP_CLOSING)

lemma tcp_good_same:
  "tcp_inv sock t \<Longrightarrow> t_state t' = t_state t \<Longrightarrow> t_socks5 t' = t_socks5 t \<Longrightarrow> tcp_good t sock t'"
  by (auto simp: tcp_good_def tcp_inv_def)

lemma write_rst_good:
  assumes "tcp_inv sock t" and "write_rst E t w = (t', w')"
  shows "tcp_good t sock t'"
  using write_rst_result [OF assms(2)] assms(1) by (auto simp: tcp_good_def tcp_inv_def)

lemma tcp_fin_good:
  assumes "tcp_inv sock t" and "tcp_fin E t w = (r, t', w')" and "t_state t \<noteq> TCP_CLOSE"
  shows "tcp_good t sock t'"
  using assms by (auto simp: tcp_fin_def tcp_good_def tcp_inv_def dest!: write_result split: prod.splits if_splits)

lemma tcp_ack_good:
  assumes "tcp_inv sock t" and "tcp_ack h t = (r, t')" and "t_state t \<noteq> TCP_CLOSE"
  shows "tcp_good t sock t'"
  using assms by (auto simp: tcp_ack_def tcp_good_def tcp_inv_def split: tcp_state.splits)

lemma tcp_other_ack_good:
  assumes "tcp_inv sock t" and "tcp_other_ack E sock h t w = (r, t', w')"
  shows "tcp_good t sock t'"
  using assms by (auto simp: tcp_other_ack_def tcp_good_def tcp_inv_def Let_def dest!: write_rst_result split: prod.splits if_splits)

lemma tcp_sequence_good:
  assumes "tcp_inv sock t" and "tcp_sequence E sock h t w = (r, t', w')" and "t_state t \<noteq> TCP_CLOSE"
  shows "tcp_good t sock t'"
  using assms unfolding tcp_sequence_def
  by (auto split: if_split_asm prod.splits intro: tcp_good_closing tcp_good_same tcp_fin_good
      tcp_ack_good tcp_other_ack_good)

lemma queue_tcp_state [simp]:
  "t_state (queue_tcp seq psh t d) = t_state t" "t_socks5 (queue_tcp seq psh t d) = t_socks5 t"
  "t_remote_seq (queue_tcp seq psh t d) = t_remote_seq t" "t_local_seq (queue_tcp seq psh t d) = t_local_seq t"
  by (simp_all add: queue_tcp_def)

lemma tcp_good_trans: "tcp_good t sock t' \<Longrightarrow> tcp_good t' sock' t'' \<Longrightarrow> tcp_good t sock' t''"
  by (auto simp: tcp_good_def)

lemma known_good:
  assumes "tcp_inv sock t" and "tcp_known E sock buf data datalen h t w = Some (r, t', w')"
  shows "tcp_good t sock t'"
proof (cases "t_state t = TCP_CLOSING \<or> t_state t = TCP_CLOSE")
  case True
  then show ?thesis
    using assms by (auto simp: tcp_known_def split: prod.splits intro: write_rst_good)
next
  case False
  then have nc: "t_state t \<noteq> TCP_CLOSE" by simp
  have "\<exists>tm w1. (if \<not> th_syn h then (case sys_time E w of (tm, w) \<Rightarrow> (t\<lparr>t_time := tm\<rparr>, w)) else (t, w))
      = (t\<lparr>t_time := tm\<rparr>, w1)"
  proof (cases "th_syn h")
    case True
    then have "(if \<not> th_syn h then (case sys_time E w of (tm, w) \<Rightarrow> (t\<lparr>t_time := tm\<rparr>, w)) else (t, w))
        = (t\<lparr>t_time := t_time t\<rparr>, w)" by simp
    then show ?thesis by blast
  next
    case False
    then show ?thesis by (cases "sys_time E w") (simp, blast)
  qed
  then obtain tm w1 where tm: "(if \<not> th_syn h then (case sys_time E w of (tm, w) \<Rightarrow> (t\<lparr>t_time := tm\<rparr>, w)) else (t, w))
      = (t\<lparr>t_time := tm\<rparr>, w1)" by blast
  let ?t = "t\<lparr>t_time := tm, t_send_window := push_bit (unat (t_send_scale t)) (ucast (th_window h)), t_unconfirmed := 0\<rparr>"
  have i: "tcp_inv sock ?t" using assms(1) by (simp add: tcp_inv_def)
  have g: "tcp_good t sock ?t" using assms(1) by (rule tcp_good_same) simp_all
  have "tcp_good ?t sock t'"
  proof (cases "datalen \<noteq> 0 \<and> (sock < 0 \<or> t_state t = TCP_CLOSE_WAIT)")
    case True
    then show ?thesis
      using assms(2) False tm i by (auto simp: tcp_known_def split: prod.splits intro: write_rst_good)
  next
    case qd: False
    have "\<exists>q. (q = ?t \<or> (\<exists>d. q = queue_tcp (th_seq h) (th_psh h) ?t d)) \<and>
      tcp_sequence E sock h q w1 = (r, t', w')"
      using assms(2) False qd unfolding tcp_known_def tm Let_def prod.case
      by (simp add: bind_eq_Some_conv split: if_split_asm) blast+
    then obtain q where q: "q = ?t \<or> (\<exists>d. q = queue_tcp (th_seq h) (th_psh h) ?t d)"
      "tcp_sequence E sock h q w1 = (r, t', w')" by blast
    have st: "t_state q = t_state ?t" "t_socks5 q = t_socks5 ?t" using q(1) by auto
    then have gq: "tcp_good ?t sock q" using i by (intro tcp_good_same) simp_all
    then have iq: "tcp_inv sock q" by (simp add: tcp_good_def)
    have nq: "t_state q \<noteq> TCP_CLOSE" using st nc by simp
    have "tcp_good q sock t'"
      using iq q(2) nq by (rule tcp_sequence_good)
    then show ?thesis using gq tcp_good_trans by blast
  qed
  with g show ?thesis using tcp_good_trans by blast
qed

lemma tcp_expire_good:
  assumes "tcp_inv sock t" and "tcp_expire E t timeout now w = (t', w')"
  shows "tcp_good t sock t'"
  using assms by (auto simp: tcp_expire_def split: if_split_asm
      intro: tcp_good_closing tcp_good_same write_rst_good)

lemma tcp_close_socket_result:
  assumes "tcp_close_socket E s t w = (s', t', w')"
  shows "(t_state t = TCP_CLOSING \<and> (s_socket s' = -1 \<or> s_socket s' = s_socket s \<and> s_socket s < 0) \<and>
      (\<exists>tm. t' = t\<lparr>t_time := tm, t_state := TCP_CLOSE\<rparr>)) \<or>
    (t_state t \<noteq> TCP_CLOSING \<and> s' = s \<and> t' = t)"
  using assms by (auto simp: tcp_close_socket_def split: if_split_asm prod.splits)

lemma tcp_close_socket_good:
  assumes i: "tcp_inv (s_socket s) t" and "tcp_close_socket E s t w = (s', t', w')"
  shows "tcp_good t (s_socket s') t'" and "t_state t' \<noteq> TCP_CLOSING"
proof -
  note r = tcp_close_socket_result [OF assms(2)]
  have "tcp_good t (s_socket s') t' \<and> t_state t' \<noteq> TCP_CLOSING"
  proof (cases "t_state t = TCP_CLOSING")
    case True
    then have sock: "s_socket s' = -1" "t_state t' = TCP_CLOSE" using r i by (auto simp: tcp_inv_def)
    then show ?thesis using True by (simp add: tcp_good_def tcp_inv_def)
  next
    case False
    then have "s' = s" "t' = t" using r by simp_all
    then show ?thesis using False i by (simp add: tcp_good_def)
  qed
  then show "tcp_good t (s_socket s') t'" and "t_state t' \<noteq> TCP_CLOSING" by simp_all
qed

lemma tcp_account_result:
  assumes "tcp_account t w = (t', w')"
  shows "t' = (if t_state t = TCP_CLOSING \<or> t_state t = TCP_CLOSE then t\<lparr>t_sent := 0, t_received := 0\<rparr> else t)"
  using assms by (auto simp: tcp_account_def split: if_split_asm)

lemma check_session_good:
  assumes "tcp_inv (s_socket s) t" and "check_tcp_session E s t n m w = (del, s', t', w')"
  shows "tcp_good t (s_socket s') t'" and "del \<Longrightarrow> t_state t' = TCP_CLOSE"
    and "t_state t' = TCP_CLOSE \<Longrightarrow> t_sent t' = 0 \<and> t_received t' = 0"
proof -
  obtain now w1 where 1: "sys_time E w = (now, w1)" by (cases "sys_time E w")
  obtain t2 w2 where 2: "tcp_expire E t (get_tcp_timeout t n m) now w1 = (t2, w2)"
    by (cases "tcp_expire E t (get_tcp_timeout t n m) now w1")
  obtain s3 t3 w3 where 3: "tcp_close_socket E s t2 w2 = (s3, t3, w3)"
    by (cases "tcp_close_socket E s t2 w2")
  obtain t4 w4 where 4: "tcp_account t3 w3 = (t4, w4)" by (cases "tcp_account t3 w3")
  have r: "s' = s3" "t' = t4" "del \<longleftrightarrow> t_state t4 = TCP_CLOSE \<and> t_time t4 + 300 < now"
    using assms(2) unfolding check_tcp_session_def Let_def 1 prod.case 2 3 4 by auto
  have g2: "tcp_good t (s_socket s) t2" using assms(1) 2 by (rule tcp_expire_good)
  then have "tcp_inv (s_socket s) t2" by (simp add: tcp_good_def)
  then have g3: "tcp_good t2 (s_socket s3) t3" using 3 by (rule tcp_close_socket_good)
  have g4: "tcp_good t3 (s_socket s3) t4"
    using g3 tcp_account_result [OF 4] by (auto simp: tcp_good_def tcp_inv_def)
  show "tcp_good t (s_socket s') t'" using g2 g3 g4 r tcp_good_trans by blast
  show "del \<Longrightarrow> t_state t' = TCP_CLOSE" using r by simp
  show "t_state t' = TCP_CLOSE \<Longrightarrow> t_sent t' = 0 \<and> t_received t' = 0"
    using tcp_account_result [OF 4] r by (auto split: if_split_asm)
qed

lemma tcp_keep_alive_good:
  assumes "tcp_inv sock t" and "tcp_keep_alive E t w = (t', w')" and "t_state t \<noteq> TCP_CLOSE"
  shows "tcp_good t sock t'"
  using assms by (auto simp: tcp_keep_alive_def split: if_split_asm prod.splits dest!: write_result
      intro: tcp_good_closing tcp_good_same)

lemma tcp_poll_events_good:
  assumes "tcp_inv sock t" and "tcp_poll_events E sock t w = (ev, c, t', w')"
  shows "tcp_good t sock t'"
  using assms unfolding tcp_poll_events_def
  by (auto split: if_split_asm prod.splits list.splits intro: tcp_good_same tcp_keep_alive_good)

lemma monitor_good:
  assumes "tcp_inv (s_socket s) t" and "0 \<le> s_socket s" and "monitor_tcp_session E s t w = (c, s', t', w')"
  shows "tcp_good t (s_socket s') t'"
proof -
  obtain ev c1 t1 w1 where 1: "tcp_poll_events E (s_socket s) t w = (ev, c1, t1, w1)"
    by (cases "tcp_poll_events E (s_socket s) t w") auto
  have g: "tcp_good t (s_socket s) t1" using assms(1) 1 by (rule tcp_poll_events_good)
  then have i: "tcp_inv (s_socket s) t1" by (simp add: tcp_good_def)
  then have nc: "t_state t1 \<noteq> TCP_CLOSE" using assms(2) by (auto simp: tcp_inv_def)
  have "s_socket s' = s_socket s \<and> (t' = t1 \<or> t' = t1\<lparr>t_state := TCP_CLOSING\<rparr>)"
    using assms(3) 1 by (auto simp: monitor_tcp_session_def Let_def split: if_split_asm prod.splits)
  moreover have "tcp_good t1 (s_socket s) (t1\<lparr>t_state := TCP_CLOSING\<rparr>)"
    using i nc by (rule tcp_good_closing) simp
  ultimately show ?thesis using g tcp_good_trans by metis
qed

section \<open>The socket handler\<close>

text \<open>In the connecting state: the session stays connecting, is closed, or has sent its SYN-ACK.\<close>

lemma socks5_fail_result:
  "socks5_fail E t w = (t', w') \<Longrightarrow> t_state t' = (if t_state t = TCP_CLOSE then TCP_CLOSE else TCP_CLOSING)"
  by (auto simp: socks5_fail_def dest!: write_rst_result)

lemma socks5_recv_result:
  assumes "socks5_recv E sock t w = (t', w')" and "t_state t = TCP_LISTEN"
  shows "t_state t' = TCP_LISTEN \<or> t_state t' = TCP_CLOSING \<and> (t_socks5 t' = t_socks5 t \<or> t_socks5 t' = SOCKS5_ZERO)"
  using assms
  by (auto simp: socks5_recv_def socks5_fail_def Let_def dest!: write_rst_result split: prod.splits recv_result.splits if_split_asm)

lemma socks5_request_result:
  assumes "socks5_request E sock t b w = (t', w')" and "t_state t \<noteq> TCP_CLOSE"
  shows "t_socks5 t' = t_socks5 t \<and> (t_state t' = t_state t \<or> t_state t' = TCP_CLOSING)"
  using assms by (auto simp: socks5_request_def dest!: write_rst_result split: prod.splits if_split_asm)

lemma socks5_send_good:
  assumes "socks5_send E sock t w = (t', w')" and "0 \<le> sock"
    and "t_state t = TCP_LISTEN \<or> t_state t = TCP_CLOSING \<and> t_socks5 t \<noteq> SOCKS5_CONNECTED"
  shows "tcp_inv sock t' \<and> t_state t \<le> t_state t'"
proof (cases "t_socks5 t = SOCKS5_CONNECTED")
  case True
  then have l: "t_state t = TCP_LISTEN" using assms(3) by simp
  obtain r t1 w1 where 1: "write_syn_ack E (t\<lparr>t_remote_seq := t_remote_seq t + 1\<rparr>) w = (r, t1, w1)"
    by (cases "write_syn_ack E (t\<lparr>t_remote_seq := t_remote_seq t + 1\<rparr>) w") auto
  have "t_state t' = TCP_SYN_RECV \<or> t_state t' = TCP_CLOSING"
    using assms(1) True 1 write_result(1) [OF 1]
    by (auto simp: socks5_send_def Let_def split: prod.splits if_split_asm)
  then show ?thesis using l assms(2) by (auto simp: tcp_inv_def)
next
  case False
  have nc: "t_state t \<noteq> TCP_CLOSE" using assms(3) by auto
  from False have "t_socks5 t' = t_socks5 t \<and> (t_state t' = t_state t \<or> t_state t' = TCP_CLOSING)"
    using assms(1) socks5_request_result [OF _ nc]
    by (cases "t_socks5 t") (simp_all add: socks5_send_def)
  then show ?thesis using False assms(2,3) by (auto simp: tcp_inv_def)
qed

lemma tcp_connecting_good:
  assumes "tcp_inv sock t" and "t_state t = TCP_LISTEN" and "tcp_connecting E sock t ev w = (t', w')"
  shows "tcp_good t sock t'"
proof -
  have sock: "0 \<le> sock" and nc: "t_socks5 t \<noteq> SOCKS5_CONNECTED" using assms(1,2) by (auto simp: tcp_inv_def)
  have "\<exists>t1 w1. socks5_send E sock t1 w1 = (t', w') \<and>
    (t_state t1 = TCP_LISTEN \<or> t_state t1 = TCP_CLOSING \<and> t_socks5 t1 \<noteq> SOCKS5_CONNECTED)"
  proof (cases "t_socks5 t \<noteq> SOCKS5_NONE \<and> ev AND EPOLLIN \<noteq> 0")
    case True
    obtain t1 w1 where 1: "socks5_recv E sock t w = (t1, w1)" by (cases "socks5_recv E sock t w")
    then have "t_state t1 = TCP_LISTEN \<or> t_state t1 = TCP_CLOSING \<and> t_socks5 t1 \<noteq> SOCKS5_CONNECTED"
      using socks5_recv_result [OF 1 assms(2)] nc by auto
    then show ?thesis using 1 True assms(3) by (auto simp: tcp_connecting_def)
  next
    case False
    then show ?thesis using assms(2,3) unfolding tcp_connecting_def
      by (cases "t_socks5 t = SOCKS5_NONE") (auto split: if_split_asm)
  qed
  then obtain t1 w1 where "socks5_send E sock t1 w1 = (t', w')"
    "t_state t1 = TCP_LISTEN \<or> t_state t1 = TCP_CLOSING \<and> t_socks5 t1 \<noteq> SOCKS5_CONNECTED" by blast
  then have "tcp_inv sock t'" "t_state t1 \<le> t_state t'" using socks5_send_good sock by blast+
  then show ?thesis
    using assms(2) \<open>t_state t1 = TCP_LISTEN \<or> _\<close> by (auto simp: tcp_good_def)
qed

text \<open>Forwarding changes the state only by a reset, and nothing at all without a socket.\<close>

lemma forward_loop_state:
  assumes "forward_loop E sock gs t fwd bs w = Some (fwd', t', w')" and "t_state t \<noteq> TCP_CLOSE"
  shows "t_socks5 t' = t_socks5 t \<and> t_recv_window t' = t_recv_window t \<and>
    (t_state t' = t_state t \<or> t_state t' = TCP_CLOSING)"
  using assms
proof (induction gs arbitrary: t fwd bs w)
  case (Cons g gs)
  from Cons.prems(1) show ?case
  proof (cases rule: forward_loop_cases)
    case (reset b err w1)
    then show ?thesis using Cons.prems(2) by (auto dest!: write_rst_result)
  next
    case (full b n err w1)
    show ?thesis using Cons.IH [OF full(8)] Cons.prems(2) by simp
  qed simp_all
qed auto

lemma forward_loop_no_buffer:
  assumes "forward_loop E sock gs t fwd 0 w = Some (fwd', t', w')"
  shows "fwd' = fwd \<and> t' = t\<lparr>t_forward := gs\<rparr> \<and> w' = w"
proof (cases gs)
  case (Cons g gs')
  show ?thesis
    using assms unfolding Cons by (cases rule: forward_loop_cases) (simp_all add: word_less_nat_alt)
qed (use assms in simp)

lemma get_receive_buffer_closed: "sock < 0 \<Longrightarrow> get_receive_buffer E sock w = (0, w)"
  by (simp add: get_receive_buffer_def)

lemma get_receive_window_closed: "sock < 0 \<Longrightarrow> get_receive_window E sock t w = (0, w)"
  by (simp add: get_receive_window_def get_receive_buffer_closed Let_def word_less_nat_alt)

lemma tcp_acknowledge_result:
  assumes "tcp_acknowledge E sock fwd t w = (t', w')"
  shows "t_socks5 t' = t_socks5 t \<and> (t_state t' = t_state t \<or> t_state t' = TCP_CLOSING)"
  using assms by (auto simp: tcp_acknowledge_def Let_def dest!: write_result split: prod.splits if_split_asm)

lemma tcp_forward_good:
  assumes i: "tcp_inv sock t" and "tcp_forward E sock t ev w = Some (t', w')"
  shows "tcp_good t sock t'"
proof -
  obtain fwd t1 w1 where 1: "(if ev AND EPOLLOUT \<noteq> 0 then
          (case get_receive_buffer E sock w of (bs, w) \<Rightarrow> forward_loop E sock (t_forward t) t False bs w)
        else Some (False, t, w)) = Some (fwd, t1, w1)" and 2: "tcp_acknowledge E sock fwd t1 w1 = (t', w')"
    using assms(2) unfolding tcp_forward_def by (auto simp: bind_eq_Some_conv)
  show ?thesis
  proof (cases "sock < 0")
    case True
    then have "\<not> fwd \<and> t_state t1 = t_state t \<and> t_socks5 t1 = t_socks5 t"
      using 1 by (auto simp: get_receive_buffer_closed dest!: forward_loop_no_buffer split: if_split_asm)
    moreover from this have "t_state t' = t_state t1 \<and> t_socks5 t' = t_socks5 t1"
      using 2 True by (auto simp: tcp_acknowledge_def get_receive_window_closed)
    ultimately show ?thesis using i by (intro tcp_good_same) simp_all
  next
    case False
    then have nc: "t_state t \<noteq> TCP_CLOSE" using i by (auto simp: tcp_inv_def)
    then have "t_socks5 t1 = t_socks5 t \<and> (t_state t1 = t_state t \<or> t_state t1 = TCP_CLOSING)"
      using 1 forward_loop_state [OF _ nc] by (auto split: if_split_asm prod.splits)
    then have "t_socks5 t' = t_socks5 t \<and> (t_state t' = t_state t \<or> t_state t' = TCP_CLOSING)"
      using tcp_acknowledge_result [OF 2] by auto
    then show ?thesis using i nc by (auto intro: tcp_good_same tcp_good_closing)
  qed
qed

lemma tcp_eof_good:
  assumes "t_state t = TCP_ESTABLISHED \<or> t_state t = TCP_CLOSE_WAIT" and "tcp_eof E s t w = (s', t', w')"
  shows "tcp_good t (s_socket s') t'"
  using assms
  by (auto simp: tcp_eof_def Let_def tcp_good_def tcp_inv_def dest!: write_result write_rst_result split: prod.splits if_split_asm)

lemma tcp_read_data_cases:
  assumes "tcp_read_data E t b w = Some (t', w')"
  obtains b1 w1 r t1 where
    "(if t_dest t = 53 \<and> length b > 2 then parse_dns_response E (drop 2 b) w \<bind> (\<lambda>((d, _), w). Some (take 2 b @ d, w))
      else Some (b, w)) = Some (b1, w1)"
    "write_data E (t\<lparr>t_received := t_received t + of_nat (length b)\<rparr>) b1 w1 = (r, t1, w')"
    "t' = (if r \<ge> 0 then t1\<lparr>t_local_seq := t_local_seq t1 + of_nat (length b1), t_unconfirmed := t_unconfirmed t1 + 1\<rparr>
           else t1)"
proof -
  let ?m = "if t_dest t = 53 \<and> length b > 2 then parse_dns_response E (drop 2 b) w \<bind> (\<lambda>((d, _), w). Some (take 2 b @ d, w))
      else Some (b, w)"
  let ?k = "\<lambda>(b1, w1). let (r, t1, w2) = write_data E (t\<lparr>t_received := t_received t + of_nat (length b)\<rparr>) b1 w1 in
     Some (if r \<ge> 0 then t1\<lparr>t_local_seq := t_local_seq t1 + of_nat (length b1), t_unconfirmed := t_unconfirmed t1 + 1\<rparr>
           else t1, w2)"
  have "?m \<bind> ?k = Some (t', w')" using assms unfolding tcp_read_data_def Let_def by simp
  then obtain b1 w1 where 1: "?m = Some (b1, w1)" "?k (b1, w1) = Some (t', w')"
    by (cases ?m) auto
  obtain r t1 w2 where 2: "write_data E (t\<lparr>t_received := t_received t + of_nat (length b)\<rparr>) b1 w1 = (r, t1, w2)"
    by (metis prod.exhaust)
  show thesis using 1 2 by (intro that [of b1 w1 r t1]) simp_all
qed

lemma tcp_read_data_state:
  assumes "tcp_read_data E t b w = Some (t', w')"
  shows "t_socks5 t' = t_socks5 t \<and> (t_state t' = t_state t \<or> t_state t' = TCP_CLOSING)"
  using assms by (rule tcp_read_data_cases) (auto dest!: write_result)

lemma tcp_read_good:
  assumes i: "tcp_inv (s_socket s) t" and st: "t_state t = TCP_ESTABLISHED \<or> t_state t = TCP_CLOSE_WAIT"
    and r: "tcp_read E s t ev w = Some (s', t', w')"
  shows "tcp_good t (s_socket s') t'"
proof (cases "ev AND EPOLLIN \<noteq> 0 \<and> get_send_window t > 0")
  case False
  then have "s' = s \<and> t' = t" using r by (auto simp: tcp_read_def)
  then show ?thesis using i by (intro tcp_good_same) simp_all
next
  case True
  let ?n = "if get_send_window t > ucast (t_mss t) then ucast (t_mss t) else get_send_window t"
  obtain tm w1 where tm: "sys_time E w = (tm, w1)" by (cases "sys_time E w")
  let ?t = "t\<lparr>t_time := tm\<rparr>"
  have i': "tcp_inv (s_socket s) ?t" using i by (simp add: tcp_inv_def)
  obtain res w2 where recv: "sys_recv E (s_socket s) (unat ?n) w1 = (res, w2)" by (metis prod.exhaust)
  have "tcp_good ?t (s_socket s') t'"
  proof (cases res)
    case (RecvError err)
    have "s' = s \<and> (t' = ?t \<or> (\<exists>w3. write_rst E ?t w2 = (t', w3)))"
      using r True tm recv RecvError by (auto simp: tcp_read_def Let_def split: if_split_asm prod.splits)
    then show ?thesis using i' write_rst_good by (auto intro: tcp_good_same)
  next
    case (RecvData b)
    have c: "if b = [] then tcp_eof E s ?t w2 = (s', t', w') else s' = s \<and> tcp_read_data E ?t b w2 = Some (t', w')"
      using r True tm recv RecvData by (auto simp: tcp_read_def Let_def bind_eq_Some_conv split: if_split_asm)
    show ?thesis
    proof (cases "b = []")
      case True
      then show ?thesis using c st by (intro tcp_eof_good [of ?t E s w2 s' t' w']) simp_all
    next
      case False
      then have "s' = s" "t_socks5 t' = t_socks5 t" "t_state t' = t_state t \<or> t_state t' = TCP_CLOSING"
        using c tcp_read_data_state [of E ?t b w2 t' w'] by simp_all
      then show ?thesis using i' st by (auto intro: tcp_good_same tcp_good_closing)
    qed
  qed
  then show ?thesis by (simp add: tcp_good_def)
qed

lemma check_socket_good:
  assumes i: "tcp_inv (s_socket s) t" and r: "check_tcp_socket E s t ev w = Some (s', t', w')"
  shows "tcp_good t (s_socket s') t'"
proof (cases "ev AND EPOLLERR \<noteq> 0")
  case True
  then obtain tm w1 where "write_rst E (t\<lparr>t_time := tm\<rparr>) w1 = (t', w')" "s' = s"
    using r by (auto simp: check_tcp_socket_def split: prod.splits)
  moreover have "tcp_inv (s_socket s) (t\<lparr>t_time := tm\<rparr>)" using i by (simp add: tcp_inv_def)
  ultimately have "tcp_good (t\<lparr>t_time := tm\<rparr>) (s_socket s') t'" using write_rst_good by blast
  then show ?thesis by (simp add: tcp_good_def)
next
  case noerr: False
  show ?thesis
  proof (cases "t_state t = TCP_LISTEN")
    case True
    then have "tcp_connecting E (s_socket s) t ev w = (t', w')" "s' = s"
      using r noerr by (auto simp: check_tcp_socket_def split: prod.splits)
    then show ?thesis using tcp_connecting_good i True by blast
  next
    case False
    then obtain t1 w1 where 1: "tcp_forward E (s_socket s) t ev w = Some (t1, w1)"
      and 2: "(if t_state t1 = TCP_ESTABLISHED \<or> t_state t1 = TCP_CLOSE_WAIT
        then tcp_read E s t1 ev w1 else Some (s, t1, w1)) = Some (s', t', w')"
      using r noerr by (auto simp: check_tcp_socket_def bind_eq_Some_conv)
    have g: "tcp_good t (s_socket s) t1" using i 1 by (rule tcp_forward_good)
    then have i1: "tcp_inv (s_socket s) t1" by (simp add: tcp_good_def)
    have "tcp_good t1 (s_socket s') t'"
      using 2 i1 tcp_read_good [OF i1] by (auto split: if_split_asm intro: tcp_good_same)
    with g show ?thesis by (rule tcp_good_trans)
  qed
qed

section \<open>The step relation\<close>

text \<open>A session is created by a SYN; then it sees, in any order and in any environment, events on
  its socket, the periodic check, the choice of the poll events (only with an open socket, as in
  \<open>handle_events\<close>), segments from the client, and the end of its permission (\<open>check_allowed\<close>).\<close>

inductive tcp_created :: "ng_session \<times> tcp_session \<Rightarrow> bool" where
  "tcp_syn E buf payload tcpoptlen h data datalen version saddr daddr uid al redirect ss w = Some (True, s # ss, w') \<Longrightarrow>
   s_proto s = Tcp t \<Longrightarrow> tcp_created (s, t)"

inductive tcp_step :: "ng_session \<times> tcp_session \<Rightarrow> ng_session \<times> tcp_session \<Rightarrow> bool" where
  socket_event: "check_tcp_socket E s t ev w = Some (s', t', w') \<Longrightarrow> tcp_step (s, t) (s', t')"
| check: "check_tcp_session E s t n m w = (del, s', t', w') \<Longrightarrow> tcp_step (s, t) (s', t')"
| monitor: "0 \<le> s_socket s \<Longrightarrow> monitor_tcp_session E s t w = (c, s', t', w') \<Longrightarrow> tcp_step (s, t) (s', t')"
| segment: "tcp_known E (s_socket s) buf data len h t w = Some (r, t', w') \<Longrightarrow> tcp_step (s, t) (s, t')"
| disallowed: "t_state t \<notin> {TCP_CLOSING, TCP_CLOSE} \<Longrightarrow> write_rst E t w = (t', w') \<Longrightarrow> tcp_step (s, t) (s, t')"

inductive_cases tcp_created_cases: "tcp_created (s, t)"
inductive_cases tcp_step_cases: "tcp_step (s, t) (s', t')"

lemma tcp_register_inv:
  assumes "tcp_register E ptr t al redirect ss w = (True, s # ss, w')" and "t_state t = TCP_LISTEN"
    and "t_socks5 t = SOCKS5_NONE"
  shows "\<exists>t'. s_proto s = Tcp t' \<and> tcp_inv (s_socket s) t'"
  using assms
  by (auto simp: tcp_register_def tcp_inv_def Let_def split_beta fst_write_rst split: if_split_asm)

lemma tcp_syn_inv:
  assumes "tcp_syn E buf payload tcpoptlen h data datalen version saddr daddr uid al redirect ss w = Some (True, s # ss, w')"
    and "s_proto s = Tcp t"
  shows "tcp_inv (s_socket s) t"
proof -
  have "\<exists>t'. s_proto s = Tcp t' \<and> tcp_inv (s_socket s) t'"
    using assms(1) unfolding tcp_syn_def Let_def
    by (auto simp: bind_eq_Some_conv new_tcp_def split_beta split: if_split_asm dest!: tcp_register_inv)
  then show ?thesis using assms(2) by auto
qed

lemma tcp_created_inv: "tcp_created (s, t) \<Longrightarrow> tcp_inv (s_socket s) t"
  by (erule tcp_created_cases) (rule tcp_syn_inv)

lemma tcp_step_good:
  assumes "tcp_inv (s_socket s) t" and "tcp_step (s, t) (s', t')"
  shows "tcp_good t (s_socket s') t'"
  using assms(2)
  by (rule tcp_step_cases)
    (use assms(1) in \<open>auto intro: check_socket_good check_session_good(1) monitor_good known_good write_rst_good\<close>)

interpretation tcp_machine: session_machine tcp_created tcp_step
  "\<lambda>(s, t). tcp_inv (s_socket s) t" "\<lambda>(s, t). t_state t"
proof unfold_locales
  show "tcp_created st \<Longrightarrow> (\<lambda>(s, t). tcp_inv (s_socket s) t) st" for st
    by (cases st) (simp add: tcp_created_inv)
  show "(\<lambda>(s, t). tcp_inv (s_socket s) t) st'"
    if "(\<lambda>(s, t). tcp_inv (s_socket s) t) st" "tcp_step st st'" for st st'
    using that tcp_step_good by (cases st; cases st') (auto simp: tcp_good_def)
  show "(\<lambda>(s, t). t_state t) st \<le> (\<lambda>(s, t). t_state t) st'"
    if "(\<lambda>(s, t). tcp_inv (s_socket s) t) st" "tcp_step st st'" for st st'
    using that tcp_step_good by (cases st; cases st') (auto simp: tcp_good_def)
qed

abbreviation tcp_reachable :: "ng_session \<Rightarrow> tcp_session \<Rightarrow> bool" where
  "tcp_reachable s t \<equiv> reach tcp_created tcp_step (s, t)"

text \<open>A session just created in the quiet environment.\<close>

definition example_syn :: tcphdr where
  "example_syn = \<lparr>th_source = 4000, th_dest = 80, th_seq = 100, th_ack_seq = 0, th_doff = 5, th_fin = False,
     th_syn = True, th_rst = False, th_psh = False, th_ack = False, th_urg = False, th_window = 500\<rparr>"

lemma example_created:
  "\<exists>s t. tcp_created (s, t) \<and> s_socket s = 7 \<and> t_state t = TCP_LISTEN \<and> t_time t = 1001 \<and>
     t_sent t = 0 \<and> t_received t = 0"
proof -
  let ?r = "tcp_syn example_env [] 0 0 example_syn 0 0 4 [10, 1, 10, 1] [1, 2, 3, 4] 10 True None [] example_world"
  have "\<exists>s w t. ?r = Some (True, [s], w) \<and> s_proto s = Tcp t \<and> s_socket s = 7 \<and> t_state t = TCP_LISTEN \<and>
      t_time t = 1001 \<and> t_sent t = 0 \<and> t_received t = 0"
    by (simp add: tcp_syn_def tcp_options_loop.simps tcp_register_def open_tcp_socket_def ask_def sys_time_def
        called_def sys_epoll_def example_env_def example_world_def cstr_def new_tcp_def split_beta Let_def)
  then obtain s w t where "?r = Some (True, [s], w)" "s_proto s = Tcp t"
    "s_socket s = 7" "t_state t = TCP_LISTEN" "t_time t = 1001" "t_sent t = 0" "t_received t = 0" by blast
  then show ?thesis using tcp_created.intros by blast
qed

section \<open>Properties of the machine\<close>

text \<open>In every reachable state of a TCP session the socket is open while the session connects, is
  established or waits for the local close, and it has been given back (-1) once the local side has
  closed; the code never uses a state outside its eight. So no operation of a live session runs on
  a closed descriptor and no closed session holds one.\<close>

theorem tcp_session_invariant:
  assumes "reach tcp_created tcp_step (s, t)"
  shows "(t_state t \<in> {TCP_LISTEN, TCP_SYN_RECV, TCP_ESTABLISHED, TCP_CLOSE_WAIT} \<longrightarrow> 0 \<le> s_socket s) \<and>
    (t_state t \<in> {TCP_FIN_WAIT1, TCP_LAST_ACK, TCP_CLOSE} \<longrightarrow> s_socket s = -1) \<and>
    t_state t \<notin> {TCP_ZERO, TCP_SYN_SENT, TCP_FIN_WAIT2, TCP_TIME_WAIT} \<and>
    (t_state t = TCP_LISTEN \<longrightarrow> t_socks5 t \<noteq> SOCKS5_CONNECTED)"
  using tcp_machine.reach_inv [OF assms] by (auto simp: tcp_inv_def)

theorem tcp_session_invariant_witness:
  "\<exists>s t. reach tcp_created tcp_step (s, t) \<and> t_state t = TCP_LISTEN \<and> 0 \<le> s_socket s"
proof -
  obtain s t where "tcp_created (s, t)" "t_state t = TCP_LISTEN" using example_created by blast
  then have "reach tcp_created tcp_step (s, t)" by (intro reach_init)
  then show ?thesis using tcp_session_invariant [of s t] \<open>t_state t = TCP_LISTEN\<close> by auto
qed

text \<open>C15: the states of a session are passed in one direction only: LISTEN, SYN_RECV, ESTABLISHED,
  CLOSE_WAIT, FIN_WAIT1, LAST_ACK, CLOSING, CLOSE (some may be skipped). In particular a closed
  session stays closed.\<close>

theorem tcp_lifecycle:
  assumes "reach tcp_created tcp_step (s, t)" and "tcp_step\<^sup>*\<^sup>* (s, t) (s', t')"
  shows "t_state t \<le> t_state t' \<and> (t_state t = TCP_CLOSE \<longrightarrow> t_state t' = TCP_CLOSE \<and> s_socket s' = -1)"
proof -
  have i: "tcp_inv (s_socket s) t" using tcp_machine.reach_inv [OF assms(1)] by simp
  have le: "t_state t \<le> t_state t'" using tcp_machine.steps_rank [OF assms(2)] i by simp
  have i': "tcp_inv (s_socket s') t'" using tcp_machine.steps_inv [OF assms(2)] i by simp
  have "t_state t' = TCP_CLOSE" if "t_state t = TCP_CLOSE"
    using le that by (cases "t_state t'") simp_all
  then show ?thesis using le i' by (auto simp: tcp_inv_def)
qed

theorem tcp_lifecycle_witness:
  "\<exists>s t s' t'. reach tcp_created tcp_step (s, t) \<and> tcp_step\<^sup>*\<^sup>* (s, t) (s', t') \<and> t_state t' = TCP_CLOSING \<and>
     t_state t \<le> t_state t'"
proof -
  obtain s t where c: "tcp_created (s, t)" and l: "t_state t = TCP_LISTEN" using example_created by blast
  obtain t' w' where w: "write_rst example_env t example_world = (t', w')" by (metis prod.exhaust)
  then have "tcp_step (s, t) (s, t')" using l by (intro disallowed) auto
  moreover have "t_state t' = TCP_CLOSING" using write_rst_result [OF w] l by simp
  ultimately show ?thesis
    using tcp_lifecycle [of s t s t'] c l by (meson r_into_rtranclp reach_init)
qed

text \<open>A session that the periodic check lets \<open>handle_events\<close> delete is closed, holds no socket and
  has no traffic left that is not accounted for; and whenever a check leaves a session closed, its
  counters have been reported.\<close>

theorem tcp_delete_clean:
  assumes "reach tcp_created tcp_step (s, t)" and "check_tcp_session E s t n m w = (del, s', t', w')"
  shows "(del \<longrightarrow> t_state t' = TCP_CLOSE \<and> s_socket s' = -1) \<and>
    (t_state t' = TCP_CLOSE \<longrightarrow> t_sent t' = 0 \<and> t_received t' = 0)"
proof -
  have i: "tcp_inv (s_socket s) t" using tcp_machine.reach_inv [OF assms(1)] by simp
  note g = check_session_good [OF i assms(2)]
  then have "tcp_inv (s_socket s') t'" by (simp add: tcp_good_def)
  then show ?thesis using g(2,3) by (auto simp: tcp_inv_def)
qed

theorem tcp_delete_clean_witness:
  "\<exists>s t s' t' w'. check_tcp_session (example_env\<lparr>e_time := \<lambda>k. 5000\<rparr>) s t 0 409 example_world = (False, s', t', w') \<and>
     t_state t = TCP_LISTEN \<and> t_state t' = TCP_CLOSE \<and> t_sent t' = 0"
proof -
  let ?E = "example_env\<lparr>e_time := \<lambda>k. 5000\<rparr>"
  obtain s t where c: "tcp_created (s, t)" and l: "t_state t = TCP_LISTEN" "t_time t = 1001" "t_sent t = 0"
    "t_received t = 0" "s_socket s = 7"
    using example_created by blast
  have "get_tcp_timeout t 0 409 = 20" using l by (simp add: get_tcp_timeout_def scale_timeout_def)
  then have "\<exists>s' t' w'. check_tcp_session ?E s t 0 409 example_world = (False, s', t', w') \<and> t_state t' = TCP_CLOSE"
    using l by (simp add: check_tcp_session_def tcp_expire_def tcp_close_socket_def tcp_account_def sys_time_def example_env_def)
  then obtain s' t' w' where "check_tcp_session ?E s t 0 409 example_world = (False, s', t', w')"
    "t_state t' = TCP_CLOSE" by blast
  then show ?thesis using tcp_delete_clean [OF reach_init, OF c] l by blast
qed

end
