(* ===== verification/Ng_Tcp_Syn.thy ===== *)
theory Ng_Tcp_Syn
  imports Ng_Tcp_Machine
begin

text \<open>
  New TCP connections: the option loop of \<open>handle_tcp\<close> against the grammar of TCP options, with the
  inputs on which it does not end, and where the socket of a new session is connected to.
\<close>

section \<open>Options\<close>

datatype tcp_option = ONop | OMss u16 | OScale u8 | OOther u8 bytes

fun enc_option :: "tcp_option \<Rightarrow> bytes" where
  "enc_option ONop = [1]"
| "enc_option (OMss m) = [2, 4] @ u16_be m"
| "enc_option (OScale s) = [3, 3, s]"
| "enc_option (OOther k d) = [k, of_nat (2 + length d)] @ d"

fun option_ok :: "tcp_option \<Rightarrow> bool" where
  "option_ok (OOther k d) \<longleftrightarrow> k \<notin> {0, 1, 2, 3} \<and> length d \<le> 253"
| "option_ok _ \<longleftrightarrow> True"

text \<open>What the options say: the last MSS and the last scale win.\<close>

fun read_options :: "tcp_option list \<Rightarrow> u16 \<Rightarrow> u8 \<Rightarrow> u16 \<times> u8" where
  "read_options [] mss ws = (mss, ws)"
| "read_options (OMss m # os) mss ws = read_options os m ws"
| "read_options (OScale s # os) mss ws = read_options os mss s"
| "read_options (_ # os) mss ws = read_options os mss ws"

lemma options_end:
  assumes "n = 0 \<or> xs \<noteq> [] \<and> hd xs = 0 \<and> tl xs \<noteq> []" and "0 \<le> n"
  shows "tcp_options_loop (pre @ xs) (length pre) n mss ws = Some (mss, ws)"
  using assms
  by (subst tcp_options_loop.simps) (cases xs; cases "tl xs"; auto simp: rd_def nth_append)

lemma options_step:
  assumes "option_ok opt" and "rest \<noteq> []" and "int (length (enc_option opt)) \<le> n"
  shows "tcp_options_loop (pre @ enc_option opt @ rest) (length pre) n mss ws =
    tcp_options_loop (pre @ enc_option opt @ rest) (length pre + length (enc_option opt))
      (n - int (length (enc_option opt))) (fst (read_options [opt] mss ws)) (snd (read_options [opt] mss ws))"
proof (cases opt)
  case ONop
  then show ?thesis using assms
    by (subst tcp_options_loop.simps) (simp add: rd_def nth_append)
next
  case (OMss m)
  have "rd16 (pre @ [2, 4] @ u16_be m @ rest) (length pre + 2) = Some m"
    using rd16_mid [of "pre @ [2, 4]" "length pre + 2" m rest] by simp
  then show ?thesis using assms OMss
    by (subst tcp_options_loop.simps) (simp add: rd_def nth_append)
next
  case (OScale s)
  then show ?thesis using assms
    by (subst tcp_options_loop.simps) (simp add: rd_def nth_append, simp add: numeral_3_eq_3)
next
  case (OOther k d)
  then have l: "unat (of_nat (2 + length d) :: u8) = 2 + length d"
    using assms(1) by (intro unat_of_nat8) simp
  have "rd (pre @ [k, of_nat (2 + length d)] @ d @ rest) (length pre) = Some k"
    "rd (pre @ [k, of_nat (2 + length d)] @ d @ rest) (length pre + 1) = Some (of_nat (2 + length d))"
    by (simp_all add: rd_def nth_append)
  then show ?thesis using assms OOther l
    by (subst tcp_options_loop.simps) (simp del: of_nat_add)
qed

lemma options_loop_read:
  assumes "\<forall>opt\<in>set opts. option_ok opt" and "rest \<noteq> []"
    and "k = 0 \<or> hd rest = 0 \<and> tl rest \<noteq> []" and "0 \<le> k"
  shows "tcp_options_loop (pre @ concat (map enc_option opts) @ rest) (length pre)
      (int (length (concat (map enc_option opts))) + k) mss ws = Some (read_options opts mss ws)"
  using assms(1)
proof (induction opts arbitrary: pre mss ws)
  case Nil
  then show ?case using options_end [of k rest pre mss ws] assms(2-4) by auto
next
  case (Cons opt opts)
  let ?r = "concat (map enc_option opts) @ rest"
  have ne: "?r \<noteq> []" using assms(2) by simp
  have s: "read_options (opt # opts) mss ws =
      read_options opts (fst (read_options [opt] mss ws)) (snd (read_options [opt] mss ws))"
    by (cases opt) simp_all
  have "tcp_options_loop (pre @ enc_option opt @ ?r) (length pre)
      (int (length (enc_option opt)) + (int (length (concat (map enc_option opts))) + k)) mss ws =
    tcp_options_loop ((pre @ enc_option opt) @ ?r) (length (pre @ enc_option opt))
      (int (length (concat (map enc_option opts))) + k) (fst (read_options [opt] mss ws)) (snd (read_options [opt] mss ws))"
    using options_step [of opt ?r _ pre mss ws] Cons.prems ne assms(4) by simp
  also have "\<dots> = Some (read_options (opt # opts) mss ws)"
    using Cons.IH [of "pre @ enc_option opt"] Cons.prems s by simp
  finally show ?case by (simp add: add.assoc)
qed

text \<open>C30: on any sequence of TCP options, ended by the length or by an end-of-list byte and padding,
  the option loop returns, with the last MSS and the last window scale of the sequence and the
  defaults for what is missing. (The byte behind a final no-operation is read, so there has to be
  one.)\<close>

theorem tcp_options_read:
  assumes "\<forall>opt\<in>set opts. option_ok opt" and "rest \<noteq> []"
    and "padding = 0 \<or> hd rest = 0 \<and> tl rest \<noteq> []"
  shows "tcp_options_loop (pre @ concat (map enc_option opts) @ rest) (length pre)
      (int (length (concat (map enc_option opts))) + int padding) mss ws = Some (read_options opts mss ws)"
  using options_loop_read [OF assms(1,2), of "int padding"] assms(3) by simp

theorem tcp_options_read_witness:
  "tcp_options_loop ([0x50, 0x02] @ concat (map enc_option [OMss 1460, OOther 4 [], ONop, OScale 7]) @ [0, 0])
     (length [0x50 :: u8, 0x02]) (int 10 + int 2) 536 0 = Some (1460, 7)"
  using tcp_options_read [of "[OMss 1460, OOther 4 [], ONop, OScale 7]" "[0, 0]" 2 "[0x50, 0x02]" 536 0]
  by (simp add: u16_be_def)

text \<open>An option of length 0 is looked at again and again.\<close>

lemma options_zero_length:
  assumes "tcp_options_loop buf i n mss ws = Some r"
  shows "\<not> (0 < n \<and> rd buf i \<noteq> Some 0 \<and> rd buf i \<noteq> Some 1 \<and> rd buf (i + 1) = Some 0)"
proof (rule tcp_options_loop.raw_induct [OF _ assms], intro notI, elim conjE)
  fix f :: "bytes \<Rightarrow> nat \<Rightarrow> int \<Rightarrow> u16 \<Rightarrow> u8 \<Rightarrow> (u16 \<times> u8) option" and buf i n mss ws r
  assume ih: "\<And>buf i n mss ws r. f buf i n mss ws = Some r \<Longrightarrow>
      \<not> (0 < n \<and> rd buf i \<noteq> Some 0 \<and> rd buf i \<noteq> Some 1 \<and> rd buf (i + 1) = Some 0)"
    and body: "(if 0 < n then do {
        kind \<leftarrow> rd buf i;
        len \<leftarrow> rd buf (i + 1);
        if kind = 0 then Some (mss, ws)
        else do {
          (mss, ws) \<leftarrow>
            (if kind = 2 \<and> len = 4 then do { m \<leftarrow> rd16 buf (i + 2); Some (m, ws) }
             else if kind = 3 \<and> len = 3 then do { x \<leftarrow> rd buf (i + 2); Some (mss, x) }
             else Some (mss, ws));
          if kind = 1 then f buf (i + 1) (n - 1) mss ws
          else f buf (i + unat len) (n - int (unat len)) mss ws } }
      else Some (mss, ws)) = Some r"
    and z: "0 < n" "rd buf i \<noteq> Some 0" "rd buf i \<noteq> Some 1" "rd buf (i + 1) = Some 0"
  then have "f buf i n mss ws = Some r" by (auto simp: bind_eq_Some_conv)
  then show False using ih z by blast
qed

lemma uint_pos: "x \<noteq> 0 \<Longrightarrow> 0 < uint (x :: u8)"
  using unsigned_greater_eq [of x, where ?'a = int] by (simp add: less_le uint_0_iff)

text \<open>No option before the end has the length 0. (No-operations and the end have no length byte.)\<close>

function options_sound :: "bytes \<Rightarrow> nat \<Rightarrow> int \<Rightarrow> bool" where
  "options_sound buf i n =
     (if n \<le> 0 \<or> buf ! i = 0 then True
      else if buf ! i = 1 then options_sound buf (i + 1) (n - 1)
      else if buf ! (i + 1) = 0 then False
      else options_sound buf (i + unat (buf ! (i + 1))) (n - int (unat (buf ! (i + 1)))))"
  by pat_completeness auto

termination
  by (relation "measure (\<lambda>(buf, i, n). nat n)") (auto dest: uint_pos)

declare options_sound.simps [simp del]

lemma options_loop_iff:
  assumes "0 < n \<longrightarrow> i + nat n + 3 \<le> length buf"
  shows "(\<exists>r. tcp_options_loop buf i n mss ws = Some r) \<longleftrightarrow> options_sound buf i n"
  using assms
proof (induction buf i n arbitrary: mss ws rule: options_sound.induct)
  case (1 buf i n)
  show ?case
  proof (cases "0 < n")
    case False
    then show ?thesis by (simp add: tcp_options_loop.simps options_sound.simps)
  next
    case n: True
    then have l: "i + nat n + 3 \<le> length buf" using "1.prems" by simp
    then have rd: "rd buf i = Some (buf ! i)" "rd buf (i + 1) = Some (buf ! (i + 1))" "rd buf (i + 2) = Some (buf ! (i + 2))"
      "rd16 buf (i + 2) = Some (be16 (buf ! (i + 2)) (buf ! (i + 2 + 1)))"
      using n by (simp_all add: rd_Some rd16_Some)
    let ?l = "buf ! (i + 1)"
    have step: "tcp_options_loop buf i n mss ws = (if buf ! i = 0 then Some (mss, ws)
        else if buf ! i = 1 then tcp_options_loop buf (i + 1) (n - 1) mss ws
        else tcp_options_loop buf (i + unat ?l) (n - int (unat ?l))
          (if buf ! i = 2 \<and> ?l = 4 then be16 (buf ! (i + 2)) (buf ! (i + 2 + 1)) else mss)
          (if buf ! i = 3 \<and> ?l = 3 then buf ! (i + 2) else ws))"
      using n by (subst tcp_options_loop.simps) (simp add: rd rd [simplified])
    consider (fin) "buf ! i = 0" | (nop) "buf ! i = 1" | (zero) "buf ! i \<noteq> 0" "buf ! i \<noteq> 1" "?l = 0"
      | (opt) "buf ! i \<noteq> 0" "buf ! i \<noteq> 1" "?l \<noteq> 0" by blast
    then show ?thesis
    proof cases
      case fin
      then show ?thesis by (simp add: step options_sound.simps)
    next
      case nop
      have "(\<exists>r. tcp_options_loop buf (i + 1) (n - 1) mss ws = Some r) \<longleftrightarrow> options_sound buf (i + 1) (n - 1)"
        using nop n l by (intro "1.IH"(1)) auto
      then show ?thesis using nop n by (simp add: step options_sound.simps [of buf i n])
    next
      case zero
      then have "tcp_options_loop buf i n mss ws = None"
        using options_zero_length [of buf i n mss ws] n rd by (cases "tcp_options_loop buf i n mss ws") auto
      then show ?thesis using zero n by (simp add: options_sound.simps [of buf i n])
    next
      case opt
      have "(\<exists>r. tcp_options_loop buf (i + unat ?l) (n - int (unat ?l)) m s = Some r) \<longleftrightarrow>
          options_sound buf (i + unat ?l) (n - int (unat ?l))" for m s
        using opt n l by (intro "1.IH"(2)) (auto simp del: of_nat_unat)
      then show ?thesis using opt n by (simp add: step options_sound.simps [of buf i n])
    qed
  qed
qed

text \<open>C31: the option loop ends exactly when no option before the end of the list has the length 0; one such
  option (of any kind but end and no-operation) in a SYN makes it, and with it the engine, turn for
  ever. Nothing else the options say can make it hang or read outside the packet.\<close>

theorem tcp_options_end_iff:
  assumes "i + n + 3 \<le> length buf"
  shows "(\<exists>r. tcp_options_loop buf i (int n) mss ws = Some r) \<longleftrightarrow> options_sound buf i (int n)"
  by (rule options_loop_iff) (use assms in simp)

theorem tcp_options_end_iff_witness:
  "\<not> (\<exists>r. tcp_options_loop [2, 4, 5, 180, 8, 0, 1, 0, 0, 0, 0] 0 (int 8) 536 0 = Some r) \<and>
   (\<exists>r. tcp_options_loop [2, 4, 5, 180, 8, 2, 1, 0, 0, 0, 0] 0 (int 8) 536 0 = Some r)"
proof -
  have "\<not> options_sound [2, 4, 5, 180, 8, 0, 1, 0, 0, 0, 0] 0 (int 8)"
    "options_sound [2, 4, 5, 180, 8, 2, 1, 0, 0, 0, 0] 0 (int 8)"
    by (simp_all add: options_sound.simps)
  then show ?thesis
    using tcp_options_end_iff [of 0 8 "[2, 4, 5, 180, 8, 0, 1, 0, 0, 0, 0]" 536 0]
      tcp_options_end_iff [of 0 8 "[2, 4, 5, 180, 8, 2, 1, 0, 0, 0, 0]" 536 0] by auto
qed

section \<open>Connections\<close>

text \<open>Where a new connection goes: to the redirect Java gave, to the SOCKS5 proxy, or to the
  destination of the packet.\<close>

definition tcp_target :: "env \<Rightarrow> nat \<Rightarrow> bytes \<Rightarrow> u16 \<Rightarrow> allowed option \<Rightarrow> sockaddr" where
  "tcp_target E version daddr dest redirect =
     (case redirect of
        Some r \<Rightarrow> (if text_version (raddr r) = 4 then Sin4 else Sin6) (e_pton E (raddr r)) (rport r)
      | None \<Rightarrow>
          if socks5_enabled E
          then (if text_version (cstr (socks5_addr E)) = 4 then Sin4 else Sin6)
                 (e_pton E (cstr (socks5_addr E))) (socks5_port E)
          else (if version = 4 then Sin4 else Sin6) daddr dest)"

text \<open>The address family and the calls of the socket that is opened for a new connection.\<close>

lemma open_tcp_socket_result:
  assumes "k = w_calls w" and "sock = e_socket E k (if family = 4 then 4 else 6) IPPROTO_TCP"
    and "family = (case redirect of
        Some r \<Rightarrow> text_version (raddr r)
      | None \<Rightarrow> if socks5_enabled E then text_version (cstr (socks5_addr E)) else t_version t)"
    and "target = tcp_target E (t_version t) (t_daddr t) (t_dest t) redirect"
    and "ready \<longleftrightarrow> 0 \<le> sock \<and> 0 \<le> e_protect E (k + 1) sock \<and> e_nonblock E (k + 2) sock"
    and "connected \<longleftrightarrow> 0 \<le> fst (e_connect E (k + 3) sock target) \<or> snd (e_connect E (k + 3) sock target) = EINPROGRESS"
  shows "\<exists>w'. open_tcp_socket E t redirect w = (if ready \<and> connected then sock else -1, w') \<and>
    w_out w' = w_out w @ (if ready then [Connect sock target] else [])"
proof -
  have t: "(case redirect of
        None \<Rightarrow> if socks5_enabled E then (if family = 4 then Sin4 else Sin6) (e_pton E (cstr (socks5_addr E))) (socks5_port E)
                else (if family = 4 then Sin4 else Sin6) (t_daddr t) (t_dest t)
      | Some r \<Rightarrow> (if family = 4 then Sin4 else Sin6) (e_pton E (raddr r)) (rport r)) = target"
    unfolding assms(3,4) by (simp add: tcp_target_def split: option.split)
  have s: "(cstr (socks5_addr E) \<noteq> [] \<and> socks5_port E \<noteq> 0) = socks5_enabled E" by (simp add: socks5_enabled_def)
  have f: "(case redirect of None \<Rightarrow> if socks5_enabled E then text_version (cstr (socks5_addr E)) else t_version t
      | Some r \<Rightarrow> text_version (raddr r)) = family" unfolding assms(3) by (simp split: option.split)
  show ?thesis
    unfolding open_tcp_socket_def s Let_def f t
    using assms(1,2,5,6) by (auto simp: ask_def called_def emit_def numeral_2_eq_2 numeral_3_eq_3 split: prod.splits)
qed

lemma w_out_receive_window: "w_out (snd (get_receive_window E sock t w)) = w_out w"
  by (auto simp: get_receive_window_def get_receive_buffer_def ask_def split_beta Let_def)

text \<open>C22: a SYN without data that Java allows and whose options can be read makes a session, and \<open>handle_tcp\<close>
  answers 1, exactly when the kernel gives a socket of the right family, Java protects it, it is made
  non-blocking, and \<open>connect\<close> succeeds or is in progress. The session is at the head of the list, listening,
  with the connection, the sequence numbers, the MSS and the scale of the SYN, and its socket was
  connected once, to the redirect, the proxy or the destination, and is watched. In all other cases no
  session is made, and the socket is not closed.\<close>

theorem tcp_syn_connects:
  assumes "tcp_options_loop buf (payload + 20) (int tcpoptlen) (get_default_mss version) 0 = Some (mss, ws)"
    and "k = w_calls w + 3" and "sock = e_socket E k (if family = 4 then 4 else 6) IPPROTO_TCP"
    and "family = (case redirect of
        Some r \<Rightarrow> text_version (raddr r)
      | None \<Rightarrow> if socks5_enabled E then text_version (cstr (socks5_addr E)) else version)"
    and "target = tcp_target E version daddr (th_dest h) redirect"
    and "ready \<longleftrightarrow> 0 \<le> sock \<and> 0 \<le> e_protect E (k + 1) sock \<and> e_nonblock E (k + 2) sock"
    and "connected \<longleftrightarrow> 0 \<le> fst (e_connect E (k + 3) sock target) \<or> snd (e_connect E (k + 3) sock target) = EINPROGRESS"
  shows "\<exists>ss' w'. tcp_syn E buf payload tcpoptlen h data 0 version saddr daddr uid True redirect ss w =
      Some (ready \<and> connected, ss', w') \<and>
    (if ready \<and> connected
     then (\<exists>s t. ss' = s # ss \<and> s_proto s = Tcp t \<and> s_socket s = sock \<and> t_state t = TCP_LISTEN \<and>
         t_version t = version \<and> t_saddr t = saddr \<and> t_source t = th_source h \<and> t_daddr t = daddr \<and>
         t_dest t = th_dest h \<and> t_uid t = uid \<and> t_mss t = mss \<and> t_send_scale t = ws \<and> t_recv_scale t = ws \<and>
         t_remote_seq t = th_seq h \<and> t_local_seq t = e_rand E (w_calls w + 2) \<and> t_forward t = []) \<and>
       w_out w' = w_out w @ [Connect sock target, EpollAdd sock (EPOLLOUT OR EPOLLERR)]
     else ss' = ss \<and> w_out w' = w_out w @ (if ready then [Connect sock target] else []))"
proof -
  let ?w = "called (called (called w))"
  let ?t = "new_tcp (e_time E (w_calls (called w))) uid version mss ws h (e_rand E (w_calls (called (called w)))) saddr daddr []"
  have t: "t_version ?t = version" "t_daddr ?t = daddr" "t_dest ?t = th_dest h" by (simp_all add: new_tcp_def)
  have "k = w_calls ?w" using assms(2) by (simp add: called_def)
  from open_tcp_socket_result [OF this assms(3), where t = ?t and redirect = redirect, unfolded t, OF assms(4-7)]
  obtain w1 where o: "open_tcp_socket E ?t redirect ?w = (if ready \<and> connected then sock else -1, w1)"
    "w_out w1 = w_out w @ (if ready then [Connect sock target] else [])" by auto
  have e: "tcp_syn E buf payload tcpoptlen h data 0 version saddr daddr uid True redirect ss w =
      Some (tcp_register E (e_malloc E (w_calls w)) ?t True redirect ss ?w)"
    using assms(1) by (simp add: tcp_syn_def ask_def sys_time_def)
  show ?thesis
  proof (cases "ready \<and> connected")
    case True
    then have "0 \<le> sock" using assms(6) by simp
    then show ?thesis using e o True w_out_receive_window [of E sock ?t w1]
      by (auto simp: tcp_register_def sys_epoll_def split_beta Let_def new_tcp_def called_def)
  next
    case False
    then show ?thesis using e o by (auto simp: tcp_register_def)
  qed
qed

theorem tcp_syn_connects_witness:
  "\<exists>s t w'. tcp_syn example_env [] 0 0 example_syn 0 0 4 [10, 1, 10, 1] [1, 2, 3, 4] 10 True None [] example_world =
     Some (True, [s], w') \<and> s_proto s = Tcp t \<and> t_state t = TCP_LISTEN \<and> s_socket s = 7 \<and>
     w_out w' = [Connect 7 (Sin4 [1, 2, 3, 4] (th_dest example_syn)), EpollAdd 7 12]"
proof -
  let ?to = "tcp_target example_env 4 [1, 2, 3, 4] (th_dest example_syn) None"
  have o: "tcp_options_loop [] (0 + 20) (int 0) (get_default_mss 4) 0 = Some (get_default_mss 4, 0)"
    by (simp add: tcp_options_loop.simps)
  have e: "e_socket example_env k v p = 7" "0 \<le> e_protect example_env k s" "e_nonblock example_env k s"
    "0 \<le> fst (e_connect example_env k s a)" "w_out example_world = []"
    "?to = Sin4 [1, 2, 3, 4] (th_dest example_syn)" for k v p s a
    by (simp_all add: example_env_def example_world_def tcp_target_def socks5_enabled_def cstr_def)
  show ?thesis
    using tcp_syn_connects [OF o refl refl refl refl refl refl, where E = example_env and h = example_syn and redirect = None and ss = "[]"
        and w = example_world and saddr = "[10, 1, 10, 1]" and daddr = "[1, 2, 3, 4]" and uid = 10 and data = 0] e
    by auto
qed

end
