(* ===== verification/Ng_Tcp_Stream.thy ===== *)
theory Ng_Tcp_Stream
  imports Ng_Tcp_Machine
begin

text \<open>
  The queue of segments as a stream. Segments arrive in any order; \<open>queue_tcp\<close> keeps them sorted by
  sequence number on the circle, and what the forward loop hands to the upstream socket is a
  contiguous piece of the stream the client sends, in order.
\<close>

section \<open>The queue is sorted\<close>

text \<open>Sequence numbers less than \<open>2^31 - 1\<close> ahead of a base are ordered by the distance to it, and
  \<open>compare_u32\<close> decides that order.\<close>

definition in_window :: "u32 \<Rightarrow> u32 \<Rightarrow> bool" where
  "in_window base a \<longleftrightarrow> ahead base a < 2147483647"

lemma compare_in_window:
  assumes "in_window base a" and "in_window base b"
  shows "compare_u32 a b < 0 \<longleftrightarrow> ahead base a < ahead base b"
  using assms unat_u32_lt [of a] unat_u32_lt [of b] unat_u32_lt [of base]
  unfolding in_window_def ahead_cases compare_u32_cases by (auto split: if_splits)

lemma compare_pos_iff: "compare_u32 a b > 0 \<longleftrightarrow> \<not> compare_u32 a b < 0 \<and> a \<noteq> b"
  by (simp add: compare_u32_def)

lemma compare_u32_refl: "compare_u32 a a = 0"
  by simp

lemma ahead_inj: "ahead base a = ahead base b \<longleftrightarrow> a = b"
  by (simp add: ahead_def word_unat_eq_iff [symmetric])

definition queue_sorted :: "u32 \<Rightarrow> segment list \<Rightarrow> bool" where
  "queue_sorted base q \<longleftrightarrow> (\<forall>g \<in> set q. in_window base (g_seq g)) \<and>
     sorted_wrt (\<lambda>g h. ahead base (g_seq g) < ahead base (g_seq h)) q"

definition new_segment :: "u32 \<Rightarrow> bool \<Rightarrow> bytes \<Rightarrow> segment" where
  "new_segment seq psh data =
     \<lparr>g_seq = seq, g_len = of_nat (length data), g_sent = 0, g_psh = psh, g_data = data\<rparr>"

text \<open>The reference: the queue as a function of the sequence number.\<close>

definition lookup :: "segment list \<Rightarrow> u32 \<Rightarrow> segment option" where
  "lookup q seq = find (\<lambda>g. g_seq g = seq) q"

definition merge :: "segment option \<Rightarrow> u32 \<Rightarrow> bool \<Rightarrow> bytes \<Rightarrow> segment" where
  "merge old seq psh data =
     (case old of
        None \<Rightarrow> new_segment seq psh data
      | Some g \<Rightarrow> if g_len g = of_nat (length data) then g
                  else g\<lparr>g_len := of_nat (length data), g_data := data\<rparr>)"

lemma lookup_simps [simp]:
  "lookup [] seq = None"
  "lookup (g # q) seq = (if g_seq g = seq then Some g else lookup q seq)"
  by (simp_all add: lookup_def)

lemma lookup_none: "\<forall>g \<in> set q. g_seq g \<noteq> seq \<Longrightarrow> lookup q seq = None"
  by (induction q) auto

lemma queue_insert_set:
  "g \<in> set (queue_insert seq psh data q) \<Longrightarrow> g_seq g = seq \<or> g \<in> set q"
  by (induction q) (auto split: if_splits)

lemma queue_insert_sorted:
  assumes "queue_sorted base q" and "in_window base seq"
  shows "queue_sorted base (queue_insert seq psh data q) \<and>
    (\<forall>s. lookup (queue_insert seq psh data q) s = (if s = seq then Some (merge (lookup q seq) seq psh data) else lookup q s))"
  using assms
proof (induction q)
  case Nil
  then show ?case by (simp add: queue_sorted_def merge_def new_segment_def)
next
  case (Cons g q)
  have win: "in_window base (g_seq g)" and q: "queue_sorted base q"
    and after: "\<forall>h \<in> set q. ahead base (g_seq g) < ahead base (g_seq h)"
    using Cons.prems(1) by (auto simp: queue_sorted_def)
  note IH = Cons.IH [OF q Cons.prems(2)]
  have lt: "compare_u32 (g_seq g) seq < 0 \<longleftrightarrow> ahead base (g_seq g) < ahead base seq"
    using win Cons.prems(2) by (rule compare_in_window)
  show ?case
  proof (cases "compare_u32 (g_seq g) seq < 0")
    case True
    then have "g_seq g \<noteq> seq" using lt by auto
    moreover have "\<forall>h \<in> set (queue_insert seq psh data q). ahead base (g_seq g) < ahead base (g_seq h)"
      using after True lt queue_insert_set by fastforce
    ultimately show ?thesis using IH True win by (auto simp: queue_sorted_def)
  next
    case ge: False
    show ?thesis
    proof (cases "g_seq g = seq")
      case True
      then show ?thesis using Cons.prems(1) by (auto simp: queue_sorted_def merge_def compare_u32_refl)
    next
      case False
      then have "ahead base seq < ahead base (g_seq g)" using ge lt ahead_inj by (meson linorder_neqE_nat)
      moreover from this have "\<forall>h \<in> set (g # q). ahead base seq < ahead base (g_seq h)"
        using after by (auto intro: less_trans)
      moreover from this have "lookup q seq = None" by (intro lookup_none) auto
      ultimately show ?thesis
        using ge False Cons.prems compare_pos_iff [of "g_seq g" seq]
        by (auto simp: queue_sorted_def merge_def new_segment_def)
    qed
  qed
qed

text \<open>\<open>queue_tcp\<close> keeps the queue strictly sorted by sequence number on the circle and acts on it as
  an update of a map: data that is already forwarded changes nothing, otherwise the entry of its
  sequence number becomes the new data (an entry of the same length is kept, one of another length
  gets the data and keeps what was sent) and no other entry changes.\<close>

theorem queue_tcp_sorted:
  assumes "queue_sorted base (t_forward t)" and "in_window base seq"
  shows "queue_sorted base (t_forward (queue_tcp seq psh t data)) \<and>
    (\<forall>s. lookup (t_forward (queue_tcp seq psh t data)) s =
       (if s = seq \<and> \<not> compare_u32 seq (t_remote_seq t) < 0
        then Some (merge (lookup (t_forward t) seq) seq psh data) else lookup (t_forward t) s))"
  using queue_insert_sorted [OF assms] assms(1) by (simp add: queue_tcp_def)

section \<open>What is forwarded\<close>

text \<open>The bytes the kernel took, and the stream of the client as a function of the sequence number.\<close>

definition delivered :: "event list \<Rightarrow> bytes" where
  "delivered es = concat (map (\<lambda>e. case e of Sent s b \<Rightarrow> b | _ \<Rightarrow> []) es)"

definition piece :: "(u32 \<Rightarrow> u8) \<Rightarrow> u32 \<Rightarrow> nat \<Rightarrow> bytes" where
  "piece st pos n = map (\<lambda>i. st (pos + of_nat i)) [0..<n]"

lemma delivered_simps [simp]:
  "delivered [] = []" "delivered (xs @ ys) = delivered xs @ delivered ys"
  "delivered (Sent s b # es) = b @ delivered es" "delivered (Send s b m # es) = delivered es"
  "delivered (TunWrite b # es) = delivered es" "delivered (PcapRecord b # es) = delivered es"
  by (simp_all add: delivered_def)

lemma piece_append: "piece st pos n @ piece st (pos + of_nat n) m = piece st pos (n + m)"
proof -
  have "map (\<lambda>i. st (pos + of_nat i)) [n..<n + m] = map (\<lambda>i. st (pos + of_nat n + of_nat i)) [0..<m]"
    by (simp add: map_add_upt [symmetric] add_ac o_def)
  moreover have "[0..<n + m] = [0..<n] @ [n..<n + m]" by (rule upt_add_eq_append) simp
  ultimately show ?thesis unfolding piece_def by simp
qed

lemma take_piece: "m \<le> n \<Longrightarrow> take m (piece st p n) = piece st p m"
  by (simp add: piece_def take_map)

lemma drop_piece: "drop k (piece st p n) = piece st (p + of_nat k) (n - k)"
  by (rule nth_equalityI) (simp_all add: piece_def less_diff_conv add_ac)

lemma length_piece [simp]: "length (piece st pos n) = n"
  by (simp add: piece_def)

text \<open>A segment that holds its piece of the stream, and a queue of such segments in which only the
  one at \<open>remote_seq\<close> may have been sent in part.\<close>

definition carries :: "(u32 \<Rightarrow> u8) \<Rightarrow> segment \<Rightarrow> bool" where
  "carries st g \<longleftrightarrow> g_len g \<noteq> 0 \<and> g_data g = piece st (g_seq g) (unat (g_len g))"

definition stream_ok :: "(u32 \<Rightarrow> u8) \<Rightarrow> u32 \<Rightarrow> segment list \<Rightarrow> bool" where
  "stream_ok st remote q \<longleftrightarrow> distinct (map g_seq q) \<and>
     (\<forall>g \<in> set q. carries st g \<and> (g_sent g \<noteq> 0 \<longrightarrow> g_seq g = remote))"

text \<open>The next byte to forward.\<close>

definition next_pos :: "u32 \<Rightarrow> segment list \<Rightarrow> u32" where
  "next_pos remote q =
     (case q of g # _ \<Rightarrow> if g_seq g = remote then remote + ucast (g_sent g) else remote | [] \<Rightarrow> remote)"

lemma sys_send_out:
  assumes "sys_send E s b m w = ((r, err), w')"
  shows "w_out w' = w_out w @ (if r < 0 then [Send s b m] else [Send s b m, Sent s (take (nat r) b)])"
  using assms by (auto simp: sys_send_def Let_def split: prod.splits if_split_asm)

lemma delivered_tun: "set rs \<subseteq> range TunWrite \<union> range PcapRecord \<Longrightarrow> delivered rs = []"
  by (induction rs) (auto simp: delivered_def)

lemma write_rst_out:
  assumes "write_rst E t w = (t', w')"
  shows "\<exists>rs. w_out w' = w_out w @ rs \<and> delivered rs = []"
proof -
  have "\<exists>ack t1. w' = snd (write_tcp E t1 [] False ack False True w)"
    using assms by (auto simp: write_rst_def Let_def split: prod.splits if_split_asm) (metis snd_conv)+
  then obtain ack t1 where "w' = snd (write_tcp E t1 [] False ack False True w)" by blast
  then obtain p rs where "w_out w' = w_out w @ TunWrite p # rs" "set rs \<subseteq> range PcapRecord"
    using w_out_write_tun unfolding write_tcp_def by blast
  moreover from this have "delivered (TunWrite p # rs) = []" by (intro delivered_tun) auto
  ultimately show ?thesis by blast
qed

lemma forward_bytes:
  assumes "carries st g" and "g_sent g \<le> g_len g"
    and "slice (g_data g) (unat (g_sent g)) (unat (g_len g) - unat (g_sent g)) = Some b"
  shows "b = piece st (g_seq g + ucast (g_sent g)) (unat (g_len g) - unat (g_sent g))"
proof -
  have "b = take (unat (g_len g) - unat (g_sent g)) (drop (unat (g_sent g)) (g_data g))"
    using assms(3) by (auto simp: slice_def split: if_splits)
  then show ?thesis
    using assms(1) by (simp add: carries_def drop_piece take_piece)
qed

lemma sent_add:
  assumes "n \<le> unat (l :: u16) - unat s" and "s \<le> l"
  shows "(ucast (s + of_nat n) :: u32) = ucast s + of_nat n" and "unat (s + of_nat n) = unat s + n"
proof -
  have lt: "unat s + n < 65536" using assms unat_u16_lt [of l] by (simp add: word_le_nat_alt)
  then have "unat (of_nat n :: u16) = n" by (intro unat_of_nat16) simp
  then show u: "unat (s + of_nat n) = unat s + n" using lt by (simp add: unat_word_ariths)
  have "(ucast (s + of_nat n) :: u32) = of_nat (unat (s + of_nat n))" by simp
  then show "(ucast (s + of_nat n) :: u32) = ucast s + of_nat n" unfolding u by simp
qed

text \<open>The forward loop hands the upstream socket the next bytes of the client's stream and nothing
  else: what the kernel took is the piece of the stream that starts at the first byte not yet
  forwarded, the position moves by as much, the counter of the session too, and the queue still
  holds pieces of the same stream.\<close>

theorem forward_loop_in_order:
  assumes "forward_loop E sock q t fwd bs w = Some (fwd', t', w')" and "stream_ok st (t_remote_seq t) q"
    and "t_state t \<noteq> TCP_LISTEN"
  shows "\<exists>es n. w_out w' = w_out w @ es \<and> delivered es = piece st (next_pos (t_remote_seq t) q) n \<and>
    next_pos (t_remote_seq t') (t_forward t') = next_pos (t_remote_seq t) q + of_nat n \<and>
    t_sent t' = t_sent t + of_nat n \<and> stream_ok st (t_remote_seq t') (t_forward t')"
  using assms
proof (induction q arbitrary: t fwd bs w)
  case Nil
  then have "t' = t\<lparr>t_forward := []\<rparr>" "w' = w" by simp_all
  then show ?case by (intro exI [of _ "[]"] exI [of _ 0]) (simp add: piece_def next_pos_def stream_ok_def)
next
  case (Cons g q)
  let ?r = "t_remote_seq t" and ?s = "g_sent g" and ?l = "g_len g"
  have car: "carries st g" and st: "stream_ok st ?r q" using Cons.prems(2) by (auto simp: stream_ok_def)
  from Cons.prems(1) show ?case
  proof (cases rule: forward_loop_cases)
    case stop
    then show ?thesis using Cons.prems(2) by (intro exI [of _ "[]"] exI [of _ 0]) (simp add: piece_def)
  next
    case (retry b err)
    have "w_out w' = w_out w @ [Send sock b (\<not> g_psh g)]" using sys_send_out [OF retry(5)] by simp
    then show ?thesis using retry Cons.prems(2)
      by (intro exI [of _ "[Send sock b (\<not> g_psh g)]"] exI [of _ 0]) (simp add: piece_def)
  next
    case (reset b err w1)
    obtain rs where rs: "w_out w' = w_out w1 @ rs" "delivered rs = []" using write_rst_out [OF reset(7)] by blast
    have "t_remote_seq t' = ?r" "t_forward t' = g # q" "t_sent t' = t_sent t"
      using write_rst_result [OF reset(7)] Cons.prems(3) by simp_all
    moreover have "w_out w1 = w_out w @ [Send sock b (\<not> g_psh g)]" using sys_send_out [OF reset(5)] by simp
    ultimately show ?thesis using rs Cons.prems(2)
      by (intro exI [of _ "Send sock b (\<not> g_psh g) # rs"] exI [of _ 0]) (simp add: piece_def)
  next
    case (part b n err)
    have b: "b = piece st (?r + ucast ?s) (unat ?l - unat ?s)" using forward_bytes [OF car part(3,4)] part(1) by simp
    have n: "n \<le> unat ?l - unat ?s" using part(6) b by simp
    have w: "w_out w' = w_out w @ [Send sock b (\<not> g_psh g), Sent sock (take n b)]"
      using sys_send_out [OF part(5)] by simp
    have tb: "take n b = piece st (?r + ucast ?s) n" using b n by (simp add: take_piece)
    show ?thesis
      using part(1,9) w tb Cons.prems(2) sent_add(1) [OF n part(3)]
      by (intro exI [of _ "[Send sock b (\<not> g_psh g), Sent sock (take n b)]"] exI [of _ n])
        (simp add: next_pos_def add.assoc stream_ok_def carries_def)
  next
    case (full b n err w1)
    have b: "b = piece st (?r + ucast ?s) (unat ?l - unat ?s)" using forward_bytes [OF car full(3,4)] full(1) by simp
    have n: "n \<le> unat ?l - unat ?s" using full(6) b by simp
    have l: "unat ?l = unat ?s + n" using sent_add(2) [OF n full(3)] full(7) by simp
    have w: "w_out w1 = w_out w @ [Send sock b (\<not> g_psh g), Sent sock (take n b)]"
      using sys_send_out [OF full(5)] by simp
    have tb: "take n b = piece st (?r + ucast ?s) n" using b n by (simp add: take_piece)
    let ?t = "t\<lparr>t_sent := t_sent t + of_nat n, t_remote_seq := g_seq g + ucast ?l\<rparr>"
    have zero: "\<forall>h \<in> set q. g_sent h = 0"
    proof
      fix h
      assume "h \<in> set q"
      moreover have "?r \<notin> g_seq ` set q" using Cons.prems(2) full(1) by (simp add: stream_ok_def)
      ultimately have "g_seq h \<noteq> ?r" by (metis image_eqI)
      moreover have "g_sent h \<noteq> 0 \<longrightarrow> g_seq h = ?r"
        using \<open>h \<in> set q\<close> Cons.prems(2) by (simp add: stream_ok_def)
      ultimately show "g_sent h = 0" by blast
    qed
    then have st': "stream_ok st (t_remote_seq ?t) q" using st by (simp add: stream_ok_def)
    have np: "next_pos (t_remote_seq ?t) q = next_pos ?r (g # q) + of_nat n"
      using zero full(1,7) sent_add(1) [OF n full(3)] by (cases q) (simp_all add: next_pos_def add.assoc)
    obtain es m where IH: "w_out w' = w_out w1 @ es" "delivered es = piece st (next_pos (t_remote_seq ?t) q) m"
      "next_pos (t_remote_seq t') (t_forward t') = next_pos (t_remote_seq ?t) q + of_nat m"
      "t_sent t' = t_sent ?t + of_nat m" "stream_ok st (t_remote_seq t') (t_forward t')"
      using Cons.IH [OF full(8) st'] Cons.prems(3) by auto
    have pos: "next_pos ?r (g # q) = ?r + ucast ?s" using full(1) by (simp add: next_pos_def)
    have "delivered ([Send sock b (\<not> g_psh g), Sent sock (take n b)] @ es) = piece st (next_pos ?r (g # q)) (n + m)"
      using IH(2) tb np pos piece_append [of st "next_pos ?r (g # q)" n m] by simp
    then show ?thesis using IH(1,3,4,5) w np
      by (intro exI [of _ "[Send sock b (\<not> g_psh g), Sent sock (take n b)] @ es"] exI [of _ "n + m"]) simp
  qed
qed

text \<open>What keeps \<open>stream_ok\<close>: a new segment of the same stream is queued.\<close>

lemma queue_sorted_distinct: "queue_sorted base q \<Longrightarrow> distinct (map g_seq q)"
  by (induction q) (auto simp: queue_sorted_def)

lemma queue_insert_carries:
  assumes "\<forall>g \<in> set q. carries st g \<and> (g_sent g \<noteq> 0 \<longrightarrow> g_seq g = r)" and "data = piece st seq n"
    and "0 < n" and "n < 65536"
  shows "\<forall>g \<in> set (queue_insert seq psh data q). carries st g \<and> (g_sent g \<noteq> 0 \<longrightarrow> g_seq g = r)"
proof -
  have u: "unat (of_nat n :: u16) = n" using assms(4) by (rule unat_of_nat16)
  then have nz: "(of_nat n :: u16) \<noteq> 0" using assms(3) by (metis less_numeral_extra(3) unat_0)
  have "carries st g" if "g_len g = of_nat n" "g_data g = data" "g_seq g = seq" for g
    using that u nz assms(2) by (simp add: carries_def)
  then show ?thesis using assms(1,2)
    by (induction q) (auto simp: compare_pos_iff)
qed

text \<open>A segment of the client's stream that \<open>queue_tcp\<close> takes leaves the queue a queue of pieces of
  that stream: sorted, without duplicates, and ready for the forward loop, whatever order the
  segments came in.\<close>

theorem queue_tcp_stream:
  assumes "queue_sorted base (t_forward t)" and "in_window base seq"
    and "stream_ok st (t_remote_seq t) (t_forward t)" and "data = piece st seq n" and "0 < n" and "n < 65536"
  shows "queue_sorted base (t_forward (queue_tcp seq psh t data)) \<and>
    stream_ok st (t_remote_seq t) (t_forward (queue_tcp seq psh t data))"
proof (cases "compare_u32 seq (t_remote_seq t) < 0")
  case True
  then show ?thesis using assms by (simp add: queue_tcp_def)
next
  case False
  have "queue_sorted base (queue_insert seq psh data (t_forward t))"
    using queue_insert_sorted [OF assms(1,2)] by blast
  moreover from this have "distinct (map g_seq (queue_insert seq psh data (t_forward t)))"
    by (rule queue_sorted_distinct)
  moreover have "\<forall>g \<in> set (queue_insert seq psh data (t_forward t)). carries st g \<and> (g_sent g \<noteq> 0 \<longrightarrow> g_seq g = t_remote_seq t)"
    using assms(3,4,5,6) by (intro queue_insert_carries) (simp_all add: stream_ok_def)
  ultimately show ?thesis using False by (simp add: queue_tcp_def stream_ok_def)
qed

section \<open>Instances\<close>

text \<open>The stream 0, 1, 2, \<open>\<dots>\<close> numbered from 0; a queue with the segments 100 and 103.\<close>

definition example_stream :: "u32 \<Rightarrow> u8" where
  "example_stream = ucast"

definition example_queue :: "segment list" where
  "example_queue = [new_segment 100 True (piece example_stream 100 3), new_segment 103 True (piece example_stream 103 2)]"

lemma example_queue_ok: "stream_ok example_stream 100 example_queue" "queue_sorted 100 example_queue"
  by (simp_all add: example_queue_def new_segment_def stream_ok_def carries_def queue_sorted_def in_window_def ahead_def)

theorem queue_tcp_sorted_witness:
  "queue_sorted 100 (t_forward (queue_tcp 105 False (example_tcp\<lparr>t_forward := example_queue\<rparr>) [105])) \<and>
   lookup (t_forward (queue_tcp 105 False (example_tcp\<lparr>t_forward := example_queue\<rparr>) [105])) 105 = Some (new_segment 105 False [105])"
proof -
  have "\<not> compare_u32 105 (t_remote_seq (example_tcp\<lparr>t_forward := example_queue\<rparr>)) < 0"
    by (simp add: example_tcp_def compare_u32_def)
  moreover have "lookup example_queue 105 = None" by (simp add: example_queue_def new_segment_def)
  ultimately show ?thesis
    using queue_tcp_sorted [of 100 "example_tcp\<lparr>t_forward := example_queue\<rparr>" 105 False "[105]"] example_queue_ok
    by (simp add: in_window_def ahead_def merge_def)
qed

theorem queue_tcp_stream_witness:
  "stream_ok example_stream 100 (t_forward (queue_tcp 105 False (example_tcp\<lparr>t_forward := example_queue\<rparr>) (piece example_stream 105 4)))"
  using queue_tcp_stream [of 100 "example_tcp\<lparr>t_forward := example_queue\<rparr>" 105 example_stream
      "piece example_stream 105 4" 4 False] example_queue_ok
  by (simp add: in_window_def ahead_def) (simp add: example_tcp_def)

theorem forward_loop_in_order_witness:
  "\<exists>fwd t' w' es n. forward_loop example_env 7 example_queue example_tcp False 1000 example_world = Some (fwd, t', w') \<and>
     w_out w' = es \<and> delivered es = piece example_stream 100 n \<and> t_sent t' = of_nat n"
proof -
  have "\<exists>r. forward_loop example_env 7 example_queue example_tcp False 1000 example_world = Some r"
    by (simp add: forward_loop.simps example_queue_def new_segment_def example_tcp_def seg_left_def slice_def sys_send_def
        example_env_def Let_def) blast
  then obtain fwd t' w' where r: "forward_loop example_env 7 example_queue example_tcp False 1000 example_world = Some (fwd, t', w')"
    by auto
  have "t_remote_seq example_tcp = 100" "t_sent example_tcp = 0" "t_state example_tcp \<noteq> TCP_LISTEN"
    by (simp_all add: example_tcp_def)
  moreover have "next_pos 100 example_queue = 100" by (simp add: example_queue_def new_segment_def next_pos_def)
  moreover have "w_out example_world = []" by (simp add: example_world_def)
  ultimately show ?thesis
    using forward_loop_in_order [OF r, of example_stream] example_queue_ok r by auto
qed

end
