(* ===== verification/Ng_Trace.thy ===== *)
theory Ng_Trace
  imports Ng_Tcp_Stream
begin

text \<open>
  The events of one TCP session read as data: the bytes the upstream kernel took (\<open>delivered\<close>) and
  gave (\<open>downloaded\<close>), the segments with data written to the client, the usage reported to Java.
  \<open>quiet\<close> is the part of an operation that adds none of these.
\<close>

section \<open>Views of the events\<close>

definition downloaded :: "event list \<Rightarrow> bytes" where
  "downloaded es = concat (map (\<lambda>e. case e of Received s b \<Rightarrow> b | _ \<Rightarrow> []) es)"

text \<open>The sequence number and the data of a packet, read as \<open>handle_tcp\<close> reads them.\<close>

definition tcp_payload :: "nat \<Rightarrow> bytes \<Rightarrow> (u32 \<times> bytes) option" where
  "tcp_payload version p =
     (let off = (if version = 4 then 20 else 40)
      in do { h \<leftarrow> get_tcphdr p off; Some (th_seq h, drop (off + 4 * unat (th_doff h)) p) })"

definition event_segments :: "nat \<Rightarrow> event \<Rightarrow> (u32 \<times> bytes) list" where
  "event_segments version e =
     (case e of
        TunWrite p \<Rightarrow> (case tcp_payload version p of None \<Rightarrow> [] | Some (seq, b) \<Rightarrow> if b = [] then [] else [(seq, b)])
      | _ \<Rightarrow> [])"

definition client_segments :: "nat \<Rightarrow> event list \<Rightarrow> (u32 \<times> bytes) list" where
  "client_segments version es = concat (map (event_segments version) es)"

text \<open>Each segment starts where the one before it ends.\<close>

fun consecutive :: "u32 \<Rightarrow> (u32 \<times> bytes) list \<Rightarrow> bool" where
  "consecutive pos [] \<longleftrightarrow> True"
| "consecutive pos ((seq, b) # gs) \<longleftrightarrow> seq = pos \<and> consecutive (pos + of_nat (length b)) gs"

definition usage_sent :: "event list \<Rightarrow> u64" where
  "usage_sent es = sum_list (map (\<lambda>e. case e of Account v p a d u s r \<Rightarrow> s | _ \<Rightarrow> 0) es)"

definition usage_received :: "event list \<Rightarrow> u64" where
  "usage_received es = sum_list (map (\<lambda>e. case e of Account v p a d u s r \<Rightarrow> r | _ \<Rightarrow> 0) es)"

lemma view_Nil [simp]:
  "downloaded [] = []" "client_segments v [] = []" "usage_sent [] = 0" "usage_received [] = 0"
  by (simp_all add: downloaded_def client_segments_def usage_sent_def usage_received_def)

lemma view_append [simp]:
  "downloaded (xs @ ys) = downloaded xs @ downloaded ys"
  "client_segments v (xs @ ys) = client_segments v xs @ client_segments v ys"
  "usage_sent (xs @ ys) = usage_sent xs + usage_sent ys"
  "usage_received (xs @ ys) = usage_received xs + usage_received ys"
  by (simp_all add: downloaded_def client_segments_def usage_sent_def usage_received_def)

lemma consecutive_append:
  "consecutive pos (xs @ ys) \<longleftrightarrow> consecutive pos xs \<and> consecutive (pos + of_nat (length (concat (map snd xs)))) ys"
  by (induction pos xs rule: consecutive.induct) (simp_all add: add.assoc)

text \<open>The packets of a session read back.\<close>

lemma tcp_part_payload:
  assumes "length hdr = n"
  shows "get_tcphdr (hdr @ tcp_part p t data syn ack fin rst) n \<bind>
    (\<lambda>h. Some (th_seq h, drop (n + 4 * unat (th_doff h)) (hdr @ tcp_part p t data syn ack fin rst))) =
    Some (t_local_seq t, data)"
  using tcp_part_reads_back [OF assms, of p t data syn ack fin rst] by (elim exE conjE) (simp only: Option.bind.simps)

lemma tcp_payload_packet:
  assumes "addr_ok (t_version t) (t_saddr t)" and "addr_ok (t_version t) (t_daddr t)"
  shows "tcp_payload (t_version t) (tcp_packet t data syn ack fin rst) = Some (t_local_seq t, data)"
proof (cases "t_version t = 4")
  case True
  show ?thesis
    unfolding tcp_packet_def tcp_payload_def Let_def if_P [OF True]
    using assms True by (intro tcp_part_payload) (simp add: addr_ok_def)
next
  case False
  show ?thesis
    unfolding tcp_packet_def tcp_payload_def Let_def if_not_P [OF False]
    using assms False by (intro tcp_part_payload) (simp add: addr_ok_def)
qed

section \<open>Quiet operations\<close>

text \<open>No data moves and no usage is reported; packets to the client carry no data.\<close>

definition neutral :: "nat \<Rightarrow> event \<Rightarrow> bool" where
  "neutral version e \<longleftrightarrow>
     (case e of
        Sent s b \<Rightarrow> False | Received s b \<Rightarrow> False | Account v p a d u s r \<Rightarrow> False
      | _ \<Rightarrow> event_segments version e = [])"

definition quiet :: "nat \<Rightarrow> world \<Rightarrow> world \<Rightarrow> bool" where
  "quiet version w w' \<longleftrightarrow> (\<exists>es. w_out w' = w_out w @ es \<and> (\<forall>e\<in>set es. neutral version e))"

lemma quiet_views:
  assumes "quiet version w w'"
  shows "delivered (w_out w') = delivered (w_out w)" and "downloaded (w_out w') = downloaded (w_out w)"
    and "client_segments version (w_out w') = client_segments version (w_out w)"
    and "usage_sent (w_out w') = usage_sent (w_out w)" and "usage_received (w_out w') = usage_received (w_out w)"
proof -
  obtain es where es: "w_out w' = w_out w @ es" "\<forall>e\<in>set es. neutral version e"
    using assms by (auto simp: quiet_def)
  have "delivered es = [] \<and> downloaded es = [] \<and> client_segments version es = [] \<and> usage_sent es = 0 \<and> usage_received es = 0"
    using es(2)
    by (induction es)
      (auto simp: delivered_def downloaded_def client_segments_def usage_sent_def usage_received_def neutral_def
        event_segments_def split: event.splits)
  then show "delivered (w_out w') = delivered (w_out w)" "downloaded (w_out w') = downloaded (w_out w)"
    "client_segments version (w_out w') = client_segments version (w_out w)"
    "usage_sent (w_out w') = usage_sent (w_out w)" "usage_received (w_out w') = usage_received (w_out w)"
    using es(1) by simp_all
qed

lemma quiet_refl [simp]: "quiet v w w"
  by (simp add: quiet_def)

lemma quiet_trans: "quiet v w w1 \<Longrightarrow> quiet v w1 w' \<Longrightarrow> quiet v w w'"
  by (auto simp: quiet_def)

lemma quiet_same: "w_out w' = w_out w \<Longrightarrow> quiet v w w'"
  by (simp add: quiet_def)

lemma quiet_emit: "w_out w' = w_out w @ [e] \<Longrightarrow> neutral v e \<Longrightarrow> quiet v w w'"
  by (simp add: quiet_def)

lemma quiet_emitted: "neutral v e \<Longrightarrow> quiet v w (emit e w)"
  by (simp add: quiet_def)

lemma neutral_simps [simp]:
  "neutral v (Send s b m)" "neutral v (Close s)" "neutral v (EpollAdd s e)" "neutral v (EpollMod s e)"
  "neutral v (KeepAlive s)" "neutral v (PcapRecord b)" "neutral v (DnsResolved q n r t x)" "neutral v (LogBlocked k n)"
  by (simp_all add: neutral_def event_segments_def)

lemma neutral_TunWrite [simp]: "neutral v (TunWrite p) \<longleftrightarrow> event_segments v (TunWrite p) = []"
  by (simp add: neutral_def)

named_theorems quiet_intro \<open>which operations are quiet\<close>

lemma quiet_sys [quiet_intro]:
  "sys_time E w = (tm, w') \<Longrightarrow> quiet v w w'" "sys_ms E w = (tm, w') \<Longrightarrow> quiet v w w'"
  "ask f w = (a, w') \<Longrightarrow> quiet v w w'" "quiet v w (sys_close s w)"
  "neutral v e \<Longrightarrow> sys_epoll E e s w = (ok, w') \<Longrightarrow> quiet v w w'"
  by (auto simp: sys_time_def sys_ms_def ask_def sys_close_def sys_epoll_def intro: quiet_same quiet_emit)

lemma quiet_buffer [quiet_intro]: "get_receive_buffer E s w = (n, w') \<Longrightarrow> quiet v w w'"
  by (auto simp: get_receive_buffer_def ask_def Let_def intro: quiet_same split: if_split_asm prod.splits)

lemma quiet_window [quiet_intro]: "get_receive_window E s t w = (n, w') \<Longrightarrow> quiet v w w'"
  by (auto simp: get_receive_window_def Let_def intro: quiet_buffer split: prod.splits)

text \<open>A packet with data adds just that data; one without is quiet.\<close>

definition typed :: "tcp_session \<Rightarrow> bool" where
  "typed t \<longleftrightarrow> addr_ok (t_version t) (t_saddr t) \<and> addr_ok (t_version t) (t_daddr t)"

lemma write_tcp_out:
  assumes "write_tcp E t data syn ack fin rst w = (r, w')" and "typed t"
  obtains rs where "w_out w' = w_out w @ TunWrite (tcp_packet t data syn ack fin rst) # rs" "set rs \<subseteq> range PcapRecord"
    "event_segments (t_version t) (TunWrite (tcp_packet t data syn ack fin rst)) = (if data = [] then [] else [(t_local_seq t, data)])"
proof -
  have "w' = snd (write_tun E (tcp_packet t data syn ack fin rst) w)" using assms(1) by (simp add: write_tcp_def)
  then obtain rs where "w_out w' = w_out w @ TunWrite (tcp_packet t data syn ack fin rst) # rs" "set rs \<subseteq> range PcapRecord"
    using w_out_write_tun by blast
  then show thesis
    using assms(2) by (intro that) (simp_all add: event_segments_def typed_def tcp_payload_packet)
qed

lemma quiet_write_tcp: "write_tcp E t [] syn ack fin rst w = (r, w') \<Longrightarrow> typed t \<Longrightarrow> quiet (t_version t) w w'"
  by (erule (1) write_tcp_out)
    (auto simp: quiet_def intro!: exI [of _ "TunWrite (tcp_packet t [] syn ack fin rst) # _"])

lemma quiet_write_or_close:
  "write_or_close E t [] syn ack fin w = (r, t', w') \<Longrightarrow> typed t \<Longrightarrow> quiet (t_version t) w w'"
  by (auto simp: write_or_close_def split: prod.splits if_split_asm dest: quiet_write_tcp)

lemma quiet_write [quiet_intro]:
  "typed t \<Longrightarrow> write_syn_ack E t w = (r, t', w') \<Longrightarrow> quiet (t_version t) w w'"
  "typed t \<Longrightarrow> write_ack E t w = (r, t', w') \<Longrightarrow> quiet (t_version t) w w'"
  "typed t \<Longrightarrow> write_fin_ack E t w = (r, t', w') \<Longrightarrow> quiet (t_version t) w w'"
  by (auto simp: write_syn_ack_def write_ack_def write_fin_ack_def intro: quiet_write_or_close)

lemma quiet_write_rst [quiet_intro]:
  assumes "typed t" and "write_rst E t w = (t', w')"
  shows "quiet (t_version t) w w'"
proof -
  obtain ack t1 r where 1: "write_tcp E t1 [] False ack False True w = (r, w')" "t1 = t \<or> t1 = t\<lparr>t_remote_seq := t_remote_seq t + 1\<rparr>"
    using assms(2) by (auto simp: write_rst_def Let_def split: prod.splits if_split_asm)
  then have "typed t1" "t_version t1 = t_version t" using assms(1) by (auto simp: typed_def)
  then show ?thesis using quiet_write_tcp [OF 1(1)] by simp
qed

text \<open>\<open>parse_dns_response\<close> only reports.\<close>

lemma quiet_dns_answers:
  "quiet v w0 w \<Longrightarrow> yields (dns_answers data qname n off name svcb w) (\<lambda>(r, w'). quiet v w0 w')"
proof (induction n arbitrary: off name svcb w)
  case (Suc n)
  have e: "quiet v w0 (emit (DnsResolved a b c d e) w)" for a b c d e
    using Suc.prems by (rule quiet_trans) (simp add: quiet_emitted)
  show ?case
    unfolding dns_answers.simps(2)
    by (intro yields_intro Suc.IH) (use Suc.prems e in auto)
qed (simp add: yields_Some)

lemma quiet_parse_dns_response [quiet_intro]:
  assumes "parse_dns_response E data w = Some (r, w')"
  shows "quiet v w w'"
proof -
  have l: "quiet v w (emit (LogBlocked a b) w1)" if "quiet v w w1" for a b w1
    using that by (rule quiet_trans) (simp add: quiet_emitted)
  have q: "quiet v w w2" if "quiet v w w1" "(c, w2) = (if b then (True, w1) else ask f w1)" for b c f w1 w2
    using that quiet_sys(3) [of f w1 c w2 v] by (auto split: if_split_asm intro: quiet_trans)
  have "yields (parse_dns_response E data w) (\<lambda>(r, w'). quiet v w w')"
    unfolding parse_dns_response_def
    by (intro yields_intro)
      (auto dest!: quiet_dns_answers [OF quiet_refl, THEN yieldsD, of _ _ _ _ _ _ _ _ v] intro: l q)
  then show ?thesis using assms by (auto dest: yieldsD)
qed

end
