(* ===== verification/Ng_Tcp_Run.thy ===== *)
theory Ng_Tcp_Run
  imports Ng_Trace
begin

text \<open>
  All runs of one TCP session with the events it causes. The world of the run is the one the session
  sees: its own events, and between its operations any number of calls of others. What the client
  sends is a byte stream, cut into segments in any way and sent in any order, with repeats.
\<close>

section \<open>The client\<close>

text \<open>The data of a segment is the part of the stream its sequence number says. The first byte has the
  number behind the SYN.\<close>

definition holds :: "bytes \<Rightarrow> u32 \<Rightarrow> u32 \<Rightarrow> u16 \<Rightarrow> bytes \<Rightarrow> bool" where
  "holds stream start seq len d \<longleftrightarrow>
     (\<exists>off. seq = start + 1 + of_nat off \<and> len \<noteq> 0 \<and> off + unat len \<le> length stream \<and>
        d = take (unat len) (drop off stream))"

definition client_segment :: "bytes \<Rightarrow> u32 \<Rightarrow> bytes \<Rightarrow> nat \<Rightarrow> u16 \<Rightarrow> tcphdr \<Rightarrow> bool" where
  "client_segment stream start buf data len h \<longleftrightarrow>
     len = 0 \<or> (\<exists>d. slice buf data (unat len) = Some d \<and> holds stream start (th_seq h) len d)"

section \<open>The run\<close>

inductive run_init :: "ng_session \<times> tcp_session \<times> world \<Rightarrow> bool" where
  "tcp_syn E buf payload tcpoptlen h data 0 version saddr daddr uid al redirect ss w = Some (True, s # ss, w') \<Longrightarrow>
   addr_ok version saddr \<Longrightarrow> addr_ok version daddr \<Longrightarrow> s_proto s = Tcp t \<Longrightarrow> w_out w0 = [] \<Longrightarrow> run_init (s, t, w0)"

text \<open>The events of the handshake (with the proxy) are no part of the stream and are left out.\<close>

inductive run_step :: "bytes \<Rightarrow> ng_session \<times> tcp_session \<times> world \<Rightarrow> ng_session \<times> tcp_session \<times> world \<Rightarrow> bool"
  for stream :: bytes where
  run_connecting: "t_state t = TCP_LISTEN \<Longrightarrow> check_tcp_socket E s t ev w = Some (s', t', w') \<Longrightarrow>
    run_step stream (s, t, w) (s', t', w\<lparr>w_calls := w_calls w'\<rparr>)"
| run_socket: "t_state t \<noteq> TCP_LISTEN \<Longrightarrow> check_tcp_socket E s t ev w = Some (s', t', w') \<Longrightarrow>
    run_step stream (s, t, w) (s', t', w')"
| run_check: "check_tcp_session E s t n m w = (del, s', t', w') \<Longrightarrow> run_step stream (s, t, w) (s', t', w')"
| run_monitor: "0 \<le> s_socket s \<Longrightarrow> monitor_tcp_session E s t w = (c, s', t', w') \<Longrightarrow>
    run_step stream (s, t, w) (s', t', w')"
| run_segment: "tcp_known E (s_socket s) buf data len h t w = Some (r, t', w') \<Longrightarrow>
    client_segment stream (t_remote_start t) buf data len h \<Longrightarrow> run_step stream (s, t, w) (s, t', w')"
| run_disallowed: "t_state t \<notin> {TCP_CLOSING, TCP_CLOSE} \<Longrightarrow> write_rst E t w = (t', w') \<Longrightarrow>
    run_step stream (s, t, w) (s, t', w')"
| run_others: "run_step stream (s, t, w) (s, t, w\<lparr>w_calls := n\<rparr>)"

inductive_cases run_init_cases: "run_init (s, t, w)"
inductive_cases run_step_cases: "run_step stream (s, t, w) (s', t', w')"

section \<open>The invariant\<close>

text \<open>\<open>n\<close> bytes of the stream have been taken upstream. Only the head of the queue may be sent in part.
  The sequence number expected next is the one of the head, the one after the FIN, or (until
  the connection stands) the one of the SYN.\<close>

definition head_sent :: "segment list \<Rightarrow> nat" where
  "head_sent q = (case q of [] \<Rightarrow> 0 | g # _ \<Rightarrow> unat (g_sent g))"

definition queue_ok :: "bytes \<Rightarrow> u32 \<Rightarrow> u32 \<Rightarrow> segment list \<Rightarrow> bool" where
  "queue_ok stream start remote q \<longleftrightarrow>
     (\<forall>g\<in>set q. holds stream start (g_seq g) (g_len g) (g_data g)) \<and> (\<forall>g\<in>set (tl q). g_sent g = 0) \<and>
     (case q of [] \<Rightarrow> True | g # _ \<Rightarrow> g_sent g \<noteq> 0 \<longrightarrow> g_seq g = remote)"

definition upload_at :: "bytes \<Rightarrow> tcp_session \<Rightarrow> nat \<Rightarrow> bool" where
  "upload_at stream t n \<longleftrightarrow>
     queue_ok stream (t_remote_start t) (t_remote_seq t) (t_forward t) \<and>
     (t_state t \<in> {TCP_FIN_WAIT1, TCP_LAST_ACK} \<longrightarrow> t_forward t = []) \<and>
     (t_state t \<noteq> TCP_LISTEN \<and> head_sent (t_forward t) \<le> n \<and>
        t_remote_seq t = t_remote_start t + 1 + of_nat (n - head_sent (t_forward t)) \<or>
      t_state t \<in> {TCP_CLOSE_WAIT, TCP_LAST_ACK, TCP_CLOSING, TCP_CLOSE} \<and> t_forward t = [] \<and>
        t_remote_seq t = t_remote_start t + 2 + of_nat n \<or>
      t_state t \<in> {TCP_LISTEN, TCP_CLOSING, TCP_CLOSE} \<and> n = 0 \<and> head_sent (t_forward t) = 0 \<and>
        t_remote_seq t = t_remote_start t)"

definition upload :: "bytes \<Rightarrow> tcp_session \<Rightarrow> event list \<Rightarrow> bool" where
  "upload stream t es \<longleftrightarrow> (\<exists>n \<le> length stream. delivered es = take n stream \<and> upload_at stream t n)"

text \<open>What the session counts and what it has reported is what was moved.\<close>

definition usage_exact :: "tcp_session \<Rightarrow> event list \<Rightarrow> bool" where
  "usage_exact t es \<longleftrightarrow> usage_sent es + t_sent t = of_nat (length (delivered es)) \<and>
     usage_received es + t_received t = of_nat (length (downloaded es))"

text \<open>The data segments to the client follow each other and hold what came from upstream (a DNS answer
  may be changed on the way). \<open>local_seq\<close> is behind them while the session lives.\<close>

definition local_sent :: "tcp_session \<Rightarrow> nat \<Rightarrow> u32" where
  "local_sent t n = t_local_start t + of_nat n +
     (if t_state t = TCP_LISTEN then 0 else if t_state t \<in> {TCP_FIN_WAIT1, TCP_LAST_ACK} then 2 else 1)"

definition download :: "tcp_session \<Rightarrow> event list \<Rightarrow> bool" where
  "download t es \<longleftrightarrow>
     (let gs = client_segments (t_version t) es; b = concat (map snd gs)
      in consecutive (t_local_start t + 1) gs \<and> (t_dest t \<noteq> 53 \<longrightarrow> b = downloaded es) \<and>
         (t_state t \<notin> {TCP_CLOSING, TCP_CLOSE} \<longrightarrow> t_local_seq t = local_sent t (length b)) \<and>
         (t_state t = TCP_LISTEN \<longrightarrow> gs = []))"

definition conn :: "bytes \<Rightarrow> tcp_session \<Rightarrow> world \<Rightarrow> bool" where
  "conn stream t w \<longleftrightarrow> typed t \<and> upload stream t (w_out w) \<and> usage_exact t (w_out w) \<and> download t (w_out w)"

text \<open>The fields the invariant reads, without the state.\<close>

definition fixed :: "tcp_session \<Rightarrow> tcp_session \<Rightarrow> bool" where
  "fixed t t' \<longleftrightarrow> t_version t' = t_version t \<and> t_saddr t' = t_saddr t \<and> t_daddr t' = t_daddr t \<and> t_dest t' = t_dest t \<and>
     t_remote_start t' = t_remote_start t \<and> t_local_start t' = t_local_start t"

definition like :: "tcp_session \<Rightarrow> tcp_session \<Rightarrow> bool" where
  "like t t' \<longleftrightarrow> fixed t t' \<and> t_sent t' = t_sent t \<and> t_received t' = t_received t \<and> t_local_seq t' = t_local_seq t \<and>
     t_remote_seq t' = t_remote_seq t \<and> t_forward t' = t_forward t"

lemma typed_fixed: "fixed t t' \<Longrightarrow> typed t' = typed t"
  by (simp add: typed_def fixed_def)

text \<open>The parts of the invariant depend on these fields and on the views of the events.\<close>

lemma usage_like:
  assumes "usage_exact t (w_out w)" and "like t t'" and "quiet v w w'"
  shows "usage_exact t' (w_out w')"
  using assms(1,2) quiet_views [OF assms(3)] by (simp add: usage_exact_def like_def)

lemma download_like:
  assumes "download t (w_out w)" and "like t t'" and "quiet (t_version t) w w'"
    and "t_state t' = t_state t \<or> t_state t' \<in> {TCP_CLOSING, TCP_CLOSE}"
  shows "download t' (w_out w')"
  using assms(1,2,4) quiet_views(2,3) [OF assms(3)] by (auto simp: download_def local_sent_def like_def fixed_def Let_def)

lemma conn_like_state:
  assumes c: "conn stream t w" and l: "like t t'" and q: "quiet (t_version t) w w'"
    and st: "t_state t' = t_state t \<or> t_state t' \<in> {TCP_CLOSING, TCP_CLOSE}"
    and u: "\<And>n. upload_at stream t n \<Longrightarrow> upload_at stream t' n"
  shows "conn stream t' w'"
proof -
  have "upload stream t' (w_out w')" using c u quiet_views(1) [OF q] by (auto simp: conn_def upload_def)
  moreover have "typed t'" using c l by (simp add: conn_def typed_def like_def fixed_def)
  ultimately show ?thesis
    using c usage_like [OF _ l q] download_like [OF _ l q st] by (simp add: conn_def)
qed

lemma conn_like:
  assumes "conn stream t w" and "like t t'" and "t_state t' = t_state t" and "quiet (t_version t) w w'"
  shows "conn stream t' w'"
proof -
  have "upload_at stream t' n = upload_at stream t n" for n
    using assms(2,3) by (simp add: upload_at_def like_def fixed_def)
  then show ?thesis using assms by (intro conn_like_state [OF assms(1,2,4)]) simp_all
qed

lemma upload_closing:
  assumes "upload_at stream t n" and "t_state t' = TCP_CLOSING \<or> t_state t = TCP_CLOSING \<and> t_state t' = TCP_CLOSE"
    and "t_remote_start t' = t_remote_start t" "t_remote_seq t' = t_remote_seq t" "t_forward t' = t_forward t"
  shows "upload_at stream t' n"
  using assms by (elim disjE conjE) (auto simp: upload_at_def)

lemma conn_closing:
  assumes "conn stream t w" and "like t t'"
    and "t_state t' = TCP_CLOSING \<or> t_state t = TCP_CLOSING \<and> t_state t' = TCP_CLOSE" and "quiet (t_version t) w w'"
  shows "conn stream t' w'"
  using assms(2,3) upload_closing [of stream t _ t']
  by (intro conn_like_state [OF assms(1,2,4)]) (auto simp: like_def fixed_def)

lemma upload_at_listen:
  "t_state t = TCP_LISTEN \<Longrightarrow> upload_at stream t n \<longleftrightarrow>
     queue_ok stream (t_remote_start t) (t_remote_start t) (t_forward t) \<and> n = 0 \<and> head_sent (t_forward t) = 0 \<and>
     t_remote_seq t = t_remote_start t"
  by (auto simp: upload_at_def)

lemma upload_at_open:
  "t_state t = TCP_SYN_RECV \<or> t_state t = TCP_ESTABLISHED \<Longrightarrow> upload_at stream t n \<longleftrightarrow>
     queue_ok stream (t_remote_start t) (t_remote_seq t) (t_forward t) \<and> head_sent (t_forward t) \<le> n \<and>
     t_remote_seq t = t_remote_start t + 1 + of_nat (n - head_sent (t_forward t))"
  by (elim disjE) (simp_all add: upload_at_def)

lemma upload_atI:
  "queue_ok stream (t_remote_start t) (t_remote_seq t) (t_forward t) \<Longrightarrow> head_sent (t_forward t) \<le> n \<Longrightarrow>
   t_remote_seq t = t_remote_start t + 1 + of_nat (n - head_sent (t_forward t)) \<Longrightarrow>
   t_state t \<notin> {TCP_LISTEN, TCP_FIN_WAIT1, TCP_LAST_ACK} \<Longrightarrow> upload_at stream t n"
  by (simp add: upload_at_def)

lemma queue_ok_unsent:
  "queue_ok stream start remote q \<Longrightarrow> head_sent q = 0 \<Longrightarrow> queue_ok stream start remote' q"
  by (cases q) (simp_all add: queue_ok_def head_sent_def unsigned_eq_0_iff)

text \<open>A reset of a connecting session counts the SYN.\<close>

lemma upload_rst:
  assumes "upload_at stream t n" and "t_state t = TCP_LISTEN" and "t_state t' = TCP_CLOSING"
    and "t_remote_start t' = t_remote_start t" "t_remote_seq t' = t_remote_seq t + 1" "t_forward t' = t_forward t"
  shows "upload_at stream t' n"
  using assms(1) queue_ok_unsent [of stream "t_remote_start t" "t_remote_start t" "t_forward t" "t_remote_start t + 1"]
  unfolding upload_at_listen [OF assms(2)] by (intro upload_atI) (simp_all add: assms)

lemma conn_rst:
  assumes c: "conn stream t w" and r: "write_rst E t w = (t', w')"
  shows "conn stream t' w'"
proof -
  note q = quiet_views [OF quiet_write_rst [OF _ r]]
  have ty: "typed t" using c by (simp add: conn_def)
  show ?thesis
  proof (cases "t_state t = TCP_LISTEN")
    case True
    then have "upload stream t' (w_out w')"
      using c q(1) [OF ty] write_rst_result [OF r] upload_rst [of stream t _ t'] by (auto simp: conn_def upload_def)
    then show ?thesis
      using c q [OF ty] write_rst_result [OF r] True
      by (auto simp: conn_def typed_def usage_exact_def download_def local_sent_def Let_def)
  next
    case False
    then show ?thesis
      using write_rst_result [OF r] quiet_write_rst [OF ty r]
      by (auto simp: like_def fixed_def split: if_split_asm intro: conn_like [OF c] conn_closing [OF c])
  qed
qed

section \<open>Operations without the socket\<close>

lemma like_refl [simp]: "like t t"
  by (simp add: like_def fixed_def)

lemma conn_fields: "conn stream t w \<Longrightarrow> typed t"
  by (simp add: conn_def)

text \<open>What all the \<open>write_\<close> routines do: nothing to the session, or close it.\<close>

lemma conn_written:
  assumes "conn stream t w" and "quiet (t_version t) w w'" and "r = 0 \<and> t' = t \<or> r = -1 \<and> t' = t\<lparr>t_state := TCP_CLOSING\<rparr>"
  shows "conn stream t' w'"
  using assms(3) by (auto simp: like_def fixed_def intro: conn_like [OF assms(1) _ _ assms(2)] conn_closing [OF assms(1) _ _ assms(2)])

lemma conn_expire:
  assumes "conn stream t w" and "tcp_expire E t timeout now w = (t', w')"
  shows "conn stream t' w'"
  using assms by (auto simp: tcp_expire_def like_def fixed_def split: if_split_asm intro: conn_rst conn_closing)

lemma quiet_close_socket [quiet_intro]:
  assumes "tcp_close_socket E s t w = (s', t', w')"
  shows "quiet v w w'"
proof (cases "t_state t = TCP_CLOSING")
  case True
  obtain s1 w1 tm w2 where 1: "(if s_socket s \<ge> 0 then (s\<lparr>s_socket := -1\<rparr>, sys_close (s_socket s) w) else (s, w)) = (s1, w1)"
    "sys_time E w1 = (tm, w2)" by (metis prod.exhaust)
  have "quiet v w w1" using 1(1) quiet_sys(4) by (auto split: if_split_asm)
  moreover have "w' = w2" using assms True 1 by (simp add: tcp_close_socket_def)
  ultimately show ?thesis using quiet_sys(1) [OF 1(2)] quiet_trans by blast
qed (use assms in \<open>simp add: tcp_close_socket_def\<close>)

lemma conn_close_socket:
  assumes c: "conn stream t w" and r: "tcp_close_socket E s t w = (s', t', w')"
  shows "conn stream t' w'"
  using tcp_close_socket_result [OF r] quiet_close_socket [OF r]
  by (auto simp: like_def fixed_def intro: conn_like [OF c] conn_closing [OF c])

lemma view_Account:
  "delivered [Account v p a d u x y] = []" "downloaded [Account v p a d u x y] = []"
  "client_segments ver [Account v p a d u x y] = []" "usage_sent [Account v p a d u x y] = x"
  "usage_received [Account v p a d u x y] = y"
  by (simp_all add: delivered_def downloaded_def client_segments_def event_segments_def usage_sent_def usage_received_def)

lemma conn_account:
  assumes c: "conn stream t w" and r: "tcp_account t w = (t', w')"
  shows "conn stream t' w'"
proof (cases "t' = t \<and> w' = w")
  case False
  then have t': "t' = t\<lparr>t_sent := 0, t_received := 0\<rparr>" and
    w': "w_out w' = w_out w @ [Account (t_version t) IPPROTO_TCP (t_daddr t) (t_dest t) (t_uid t) (t_sent t) (t_received t)]"
    using r by (auto simp: tcp_account_def split: if_split_asm)
  have "upload stream t' (w_out w')" using c by (simp add: conn_def upload_def upload_at_def t' w' view_Account)
  moreover have "usage_exact t' (w_out w')" using c by (simp add: conn_def usage_exact_def t' w' view_Account)
  moreover have "download t' (w_out w')"
    using c by (simp add: conn_def download_def local_sent_def t' w' view_Account Let_def)
  ultimately show ?thesis using c by (simp add: conn_def typed_def t')
qed (use c in simp)

lemma conn_check:
  assumes "conn stream t w" and "check_tcp_session E s t n m w = (del, s', t', w')"
  shows "conn stream t' w'"
proof -
  obtain now w1 where 1: "sys_time E w = (now, w1)" by (cases "sys_time E w")
  have "conn stream t w1" using assms(1) 1 by (auto intro: conn_like quiet_intro)
  moreover obtain t2 w2 where 2: "tcp_expire E t (get_tcp_timeout t n m) now w1 = (t2, w2)" by (metis prod.exhaust)
  ultimately have "conn stream t2 w2" by (rule conn_expire)
  moreover obtain s3 t3 w3 where 3: "tcp_close_socket E s t2 w2 = (s3, t3, w3)" by (metis prod.exhaust)
  ultimately have "conn stream t3 w3" by (rule conn_close_socket)
  then show ?thesis
    using assms(2) 1 2 3 by (auto simp: check_tcp_session_def Let_def split: prod.splits intro: conn_account)
qed

lemma conn_keep_alive:
  assumes c: "conn stream t w" and r: "tcp_keep_alive E t w = (t', w')"
  shows "conn stream t' w'"
proof -
  obtain ms w1 where 1: "sys_ms E w = (ms, w1)" by (cases "sys_ms E w")
  have q1: "quiet (t_version t) w w1" using 1 by (rule quiet_intro)
  let ?t = "t\<lparr>t_last_keep_alive := ms, t_remote_seq := t_remote_seq t - 1\<rparr>"
  obtain res t2 w2 where 2: "write_ack E ?t w1 = (res, t2, w2)" by (metis prod.exhaust)
  have "typed ?t" using c by (simp add: conn_def typed_def)
  then have q: "quiet (t_version t) w w2" using quiet_write(2) [OF _ 2] q1 quiet_trans by fastforce
  have "t2 = ?t \<or> t2 = ?t\<lparr>t_state := TCP_CLOSING\<rparr>" using write_result(2) [OF 2] by blast
  then have "like t (t2\<lparr>t_remote_seq := t_remote_seq t2 + 1\<rparr>)"
    "t_state (t2\<lparr>t_remote_seq := t_remote_seq t2 + 1\<rparr>) = t_state t \<or> t_state (t2\<lparr>t_remote_seq := t_remote_seq t2 + 1\<rparr>) = TCP_CLOSING"
    by (auto simp: like_def fixed_def)
  then show ?thesis
    using r 1 2 q q1 conn_like [OF c] conn_closing [OF c] by (auto simp: tcp_keep_alive_def split: if_split_asm)
qed

lemma conn_poll_events:
  assumes c: "conn stream t w" and r: "tcp_poll_events E sock t w = (ev, rc, t', w')"
  shows "conn stream t' w'"
proof -
  have b: "conn stream t1 w2" if "conn stream t1 w1" "get_receive_buffer E sock w1 = (x, w2)" for t1 w1 w2 x
    using that by (auto intro: conn_like quiet_intro)
  show ?thesis
    using c r unfolding tcp_poll_events_def
    by (auto split: if_split_asm prod.splits list.splits intro: conn_keep_alive b)
qed

lemma conn_monitor:
  assumes c: "conn stream t w" and r: "monitor_tcp_session E s t w = (rc, s', t', w')"
  shows "conn stream t' w'"
proof -
  obtain ev c1 t1 w1 where 1: "tcp_poll_events E (s_socket s) t w = (ev, c1, t1, w1)" by (metis prod.exhaust)
  have c1: "conn stream t1 w1" using c 1 by (rule conn_poll_events)
  obtain ok w2 where 2: "sys_epoll E (EpollMod (s_socket s) ev) (s_socket s) w1 = (ok, w2)" by (metis prod.exhaust)
  then have "quiet (t_version t1) w1 w2" by (intro quiet_sys(5)) simp_all
  then have "conn stream t1 w2" "conn stream (t1\<lparr>t_state := TCP_CLOSING\<rparr>) w2"
    by (auto simp: like_def fixed_def intro: conn_like [OF c1] conn_closing [OF c1])
  then show ?thesis using r 1 2 c1 by (auto simp: monitor_tcp_session_def Let_def split: if_split_asm)
qed

section \<open>Segments from the client\<close>

lemma ahead_offset:
  assumes "a \<le> b" and "b < 4294967296"
  shows "ahead (s + of_nat a) (s + of_nat b) = b - a"
proof -
  have "(s + of_nat b) - (s + of_nat a) = (of_nat (b - a) :: u32)" using assms(1) by (simp add: of_nat_diff)
  then show ?thesis using assms(2) by (simp add: ahead_def unat_of_nat take_bit_nat_eq_self)
qed

lemma compare_near:
  assumes "ahead a b < 2147483647 \<or> ahead b a < 2147483647" and "\<not> compare_u32 a b < 0"
  shows "\<not> compare_u32 b a > 0"
proof
  assume "compare_u32 b a > 0"
  then have "a \<noteq> b" "\<not> compare_u32 b a < 0" by (auto simp: compare_u32_refl)
  moreover have "0 < ahead a b" "0 < ahead b a" using \<open>a \<noteq> b\<close> by (auto simp: ahead_def unat_gt_0)
  ultimately show False
    using assms compare_u32_less_iff [of a b] compare_u32_less_iff [of b a] by auto
qed

lemma holds_near:
  assumes "holds stream start a l d" and "holds stream start b m e" and "length stream < 2147483647"
  shows "ahead a b < 2147483647 \<or> ahead b a < 2147483647"
proof -
  obtain x y where xy: "a = start + 1 + of_nat x" "x \<le> length stream" "b = start + 1 + of_nat y" "y \<le> length stream"
    using assms(1,2) by (auto simp: holds_def)
  show ?thesis
  proof (cases "x \<le> y")
    case True
    then have "ahead a b = y - x" using xy assms(3) ahead_offset [of x y "start + 1"] by simp
    moreover have "y - x < 2147483647" using xy assms(3) by arith
    ultimately show ?thesis by simp
  next
    case False
    then have "ahead b a = x - y" using xy assms(3) ahead_offset [of y x "start + 1"] by simp
    moreover have "x - y < 2147483647" using xy assms(3) by arith
    ultimately show ?thesis by simp
  qed
qed

lemma holds_length: "holds stream start seq len d \<Longrightarrow> len = of_nat (length d)"
  by (auto simp: holds_def)

text \<open>A new segment never takes the place of a head that is sent in part.\<close>

lemma queue_insert_tail:
  assumes "\<forall>g\<in>set q. holds stream start (g_seq g) (g_len g) (g_data g)" and "\<forall>g\<in>set q. g_sent g = 0"
    and "holds stream start seq (of_nat (length d)) d"
  shows "\<forall>g\<in>set (queue_insert seq psh d q). holds stream start (g_seq g) (g_len g) (g_data g) \<and> g_sent g = 0"
  using assms by (induction q) (auto simp: compare_pos_iff)

lemma queue_ok_insert:
  assumes q: "queue_ok stream start remote q" and d: "holds stream start seq (of_nat (length d)) d"
    and le: "\<not> compare_u32 seq remote < 0" and len: "length stream < 2147483647"
  shows "queue_ok stream start remote (queue_insert seq psh d q)" and "head_sent (queue_insert seq psh d q) = head_sent q"
proof -
  have "queue_ok stream start remote (queue_insert seq psh d q) \<and> head_sent (queue_insert seq psh d q) = head_sent q"
  proof (cases q)
    case Nil
    then show ?thesis using d by (simp add: queue_ok_def head_sent_def)
  next
    case (Cons g gs)
    have t: "\<forall>x\<in>set (queue_insert seq psh d gs). holds stream start (g_seq x) (g_len x) (g_data x) \<and> g_sent x = 0"
      using q d Cons by (intro queue_insert_tail) (simp_all add: queue_ok_def)
    have "\<not> compare_u32 (g_seq g) seq > 0" if "g_sent g \<noteq> 0"
      using that q le compare_near [OF holds_near [OF d _ len], of "g_seq g"] Cons by (auto simp: queue_ok_def)
    then show ?thesis
      using q d t by (cases "g_sent g = 0") (auto simp: Cons queue_ok_def head_sent_def compare_pos_iff)
  qed
  then show "queue_ok stream start remote (queue_insert seq psh d q)" "head_sent (queue_insert seq psh d q) = head_sent q"
    by simp_all
qed

lemma conn_queue:
  assumes c: "conn stream t w" and d: "holds stream (t_remote_start t) seq (of_nat (length d)) d"
    and len: "length stream < 2147483647" and st: "t_state t \<notin> {TCP_CLOSE_WAIT, TCP_FIN_WAIT1, TCP_LAST_ACK, TCP_CLOSING, TCP_CLOSE}"
  shows "conn stream (queue_tcp seq psh t d) w"
proof (cases "compare_u32 seq (t_remote_seq t) < 0")
  case True
  then show ?thesis using c by (simp add: queue_tcp_def)
next
  case False
  let ?t = "queue_tcp seq psh t d"
  have "upload_at stream ?t n" if "upload_at stream t n" for n
    using that st queue_ok_insert [OF _ d False len, of "t_forward t" psh] False
    by (auto simp: upload_at_def queue_tcp_def)
  then have "upload stream ?t (w_out w)" using c by (auto simp: conn_def upload_def)
  moreover have "usage_exact ?t (w_out w)" "download ?t (w_out w)" "typed ?t"
    using c False by (simp_all add: conn_def usage_exact_def download_def local_sent_def typed_def queue_tcp_def Let_def)
  ultimately show ?thesis by (simp add: conn_def)
qed

text \<open>FIN: the sequence number after it is expected next, and the queue stays empty.\<close>

lemma conn_fin_counted:
  assumes c: "conn stream t w" and st: "t_state t = TCP_ESTABLISHED \<or> t_state t = TCP_FIN_WAIT1" and "t_forward t = []"
    and t': "t' = t\<lparr>t_remote_seq := t_remote_seq t + 1, t_state := st'\<rparr>"
    and st': "st' = TCP_CLOSE_WAIT \<and> t_state t = TCP_ESTABLISHED \<or> st' = TCP_CLOSING \<or> st' = TCP_CLOSE"
    and q: "quiet (t_version t) w w'"
  shows "conn stream t' w'"
proof -
  have "upload_at stream t' n" if "upload_at stream t n" for n
    using that assms(2,3) st' by (auto simp: upload_at_def t' head_sent_def queue_ok_def)
  then have "upload stream t' (w_out w')" using c quiet_views [OF q] by (auto simp: conn_def upload_def)
  moreover have "usage_exact t' (w_out w')" using c quiet_views [OF q] by (simp add: conn_def usage_exact_def t')
  moreover have "download t' (w_out w')"
    using c quiet_views [OF q] st st' by (auto simp: conn_def download_def local_sent_def t' Let_def)
  ultimately show ?thesis using c by (simp add: conn_def typed_def t')
qed

lemma conn_opened:
  assumes c: "conn stream t w" and l: "like t t'" and q: "quiet (t_version t) w w'"
    and st: "t_state t = TCP_SYN_RECV \<and> t_state t' = TCP_ESTABLISHED \<or> t_state t = TCP_ESTABLISHED \<and> t_state t' = TCP_CLOSE_WAIT"
  shows "conn stream t' w'"
proof -
  note v = quiet_views [OF q]
  have "upload_at stream t' n" if "upload_at stream t n" for n
  proof -
    have "t_state t = TCP_SYN_RECV \<or> t_state t = TCP_ESTABLISHED" using st by blast
    from that [unfolded upload_at_open [OF this]] show ?thesis
      using l st by (intro upload_atI) (auto simp: like_def fixed_def)
  qed
  then have "upload stream t' (w_out w')" using c v by (auto simp: conn_def upload_def)
  moreover have "usage_exact t' (w_out w')" using c l v by (simp add: conn_def usage_exact_def like_def)
  moreover have "download t' (w_out w')"
    using c l v st by (auto simp: conn_def download_def local_sent_def like_def fixed_def Let_def)
  moreover have "typed t'" using c l typed_fixed [of t t'] by (simp add: conn_def like_def)
  ultimately show ?thesis by (simp add: conn_def)
qed

lemma conn_fin:
  assumes c: "conn stream t w" and r: "tcp_fin E t w = (res, t', w')"
  shows "conn stream t' w'"
proof -
  let ?t = "t\<lparr>t_remote_seq := t_remote_seq t + 1\<rparr>"
  obtain k t1 w1 where 1: "write_ack E ?t w = (k, t1, w1)" by (metis prod.exhaust)
  have "typed ?t" using c by (simp add: conn_def typed_def)
  then have q: "quiet (t_version t) w w1" using quiet_write(2) [OF _ 1] by simp
  note wr = write_result(2) [OF 1]
  have nil: "t_forward t = []" if "t_state t = TCP_FIN_WAIT1" using c that by (auto simp: conn_def upload_def upload_at_def)
  consider "t' = t" "w' = w" | "t_state t = TCP_ESTABLISHED" "t' = t\<lparr>t_state := TCP_CLOSE_WAIT\<rparr>" "w' = w" "t_forward t \<noteq> []"
    | "t_state t = TCP_ESTABLISHED" "t_forward t = []" "w' = w1" "t' = ?t\<lparr>t_state := TCP_CLOSE_WAIT\<rparr> \<or> t' = ?t\<lparr>t_state := TCP_CLOSING\<rparr>"
    | "t_state t = TCP_FIN_WAIT1" "w' = w1" "t' = ?t\<lparr>t_state := TCP_CLOSE\<rparr> \<or> t' = ?t\<lparr>t_state := TCP_CLOSING\<rparr>"
  proof (cases "t_state t = TCP_ESTABLISHED \<or> t_state t = TCP_FIN_WAIT1")
    case True
    with wr show ?thesis using r 1 that
      by (cases "t_forward t") (elim disjE conjE; simp add: tcp_fin_def)+
  next
    case False
    then show ?thesis using r that(1) by (simp add: tcp_fin_def split: if_split_asm)
  qed
  then show ?thesis
  proof cases
    case 2
    then show ?thesis by (intro conn_opened [OF c]) (simp_all add: like_def fixed_def)
  next
    case 3
    then show ?thesis using conn_fin_counted [OF c _ _ _ _ q] by auto
  next
    case 4
    then show ?thesis using conn_fin_counted [OF c _ nil _ _ q] by auto
  qed (use c in simp)
qed

lemma conn_ack:
  assumes c: "conn stream t w" and r: "tcp_ack h t = (res, t')"
  shows "conn stream t' w"
proof -
  let ?t = "t\<lparr>t_acked := th_ack_seq h\<rparr>"
  have "t' = ?t \<or> t_state t = TCP_SYN_RECV \<and> t' = ?t\<lparr>t_state := TCP_ESTABLISHED\<rparr> \<or> t' = ?t\<lparr>t_state := TCP_CLOSING\<rparr>"
    using r by (auto simp: tcp_ack_def Let_def split: tcp_state.splits)
  then show ?thesis
    by (auto simp: like_def fixed_def intro: conn_like [OF c] conn_opened [OF c] conn_closing [OF c])
qed

lemma conn_other_ack:
  assumes c: "conn stream t w" and r: "tcp_other_ack E sock h t w = (res, t', w')"
  shows "conn stream t' w'"
proof -
  have k: "conn stream t (emit (KeepAlive sock) w)" by (rule conn_like [OF c]) (simp_all add: quiet_emitted)
  have a: "conn stream (t\<lparr>t_acked := x\<rparr>) w" for x by (rule conn_like [OF c]) (simp_all add: like_def fixed_def)
  show ?thesis using r c k a
    by (auto simp: tcp_other_ack_def Let_def intro: conn_rst split: if_split_asm prod.splits)
qed

lemma conn_sequence:
  assumes c: "conn stream t w" and r: "tcp_sequence E sock h t w = (res, t', w')"
  shows "conn stream t' w'"
proof -
  have "conn stream (t\<lparr>t_state := TCP_CLOSING\<rparr>) w" by (rule conn_closing [OF c]) (simp_all add: like_def fixed_def)
  then show ?thesis using r c
    by (auto simp: tcp_sequence_def intro: conn_fin conn_ack conn_other_ack split: if_split_asm prod.splits)
qed

text \<open>The segment the code queues: nothing when the data is old, else the data of the packet.\<close>

lemma tcp_known_cases:
  assumes "tcp_known E sock buf data datalen h t w = Some (r, t', w')"
  obtains (reset) w1 t1 where "write_rst E t1 w1 = (t', w')" "t1 = t \<and> w1 = w \<or> like t t1 \<and> t_state t1 = t_state t \<and> quiet (t_version t) w w1"
  | (go) t1 w1 t2 where "like t t1" "t_state t1 = t_state t" "quiet (t_version t) w w1" "t_state t \<noteq> TCP_CLOSING" "t_state t \<noteq> TCP_CLOSE"
      "tcp_sequence E sock h t2 w1 = (r, t', w')"
      "datalen = 0 \<and> t2 = t1 \<or> 0 \<le> sock \<and> t_state t \<noteq> TCP_CLOSE_WAIT \<and> datalen \<noteq> 0 \<and>
         (\<exists>d. t2 = queue_tcp (th_seq h) (th_psh h) t1 d \<and>
           (compare_u32 (th_seq h) (t_remote_seq t1) < 0 \<and> d = [] \<or> slice buf data (unat datalen) = Some d))"
proof (cases "t_state t = TCP_CLOSING \<or> t_state t = TCP_CLOSE")
  case True
  then show thesis using assms by (auto simp: tcp_known_def split: prod.splits intro: reset)
next
  case nc: False
  obtain t0 w1 where 0: "(if \<not> th_syn h then (case sys_time E w of (tm, w) \<Rightarrow> (t\<lparr>t_time := tm\<rparr>, w)) else (t, w)) = (t0, w1)"
    by (metis prod.exhaust)
  then have t0: "like t t0" "t_state t0 = t_state t" "quiet (t_version t) w w1"
    by (auto simp: like_def fixed_def intro: quiet_intro split: if_split_asm prod.splits)
  let ?t1 = "t0\<lparr>t_send_window := push_bit (unat (t_send_scale t0)) (ucast (th_window h)), t_unconfirmed := 0\<rparr>"
  have l: "like t ?t1" "t_state ?t1 = t_state t" using t0 by (simp_all add: like_def fixed_def)
  show thesis
  proof (cases "datalen \<noteq> 0 \<and> (sock < 0 \<or> t_state t = TCP_CLOSE_WAIT)")
    case True
    then have "write_rst E ?t1 w1 = (t', w')"
      using assms nc 0 l(2) by (auto simp: tcp_known_def Let_def split: prod.splits)
    then show thesis using l t0(3) by (intro reset [of ?t1 w1]) simp_all
  next
    case False
    have a: "(if datalen \<noteq> 0 then do {
                d \<leftarrow> (if compare_u32 (th_seq h) (t_remote_seq ?t1) < 0 then Some [] else slice buf data (unat datalen));
                Some (queue_tcp (th_seq h) (th_psh h) ?t1 d) }
              else Some ?t1) \<bind> (\<lambda>t. Some (tcp_sequence E sock h t w1)) = Some (r, t', w')"
      using assms nc l(2) False unfolding tcp_known_def 0 prod.case Let_def by simp
    show thesis
    proof (cases "datalen = 0")
      case True
      then show thesis using a l t0 nc by (intro go [of ?t1 w1 ?t1]) simp_all
    next
      case data: False
      then obtain d where d: "(if compare_u32 (th_seq h) (t_remote_seq ?t1) < 0 then Some [] else slice buf data (unat datalen)) = Some d"
        "tcp_sequence E sock h (queue_tcp (th_seq h) (th_psh h) ?t1 d) w1 = (r, t', w')"
        using a by (auto simp: bind_eq_Some_conv)
      show thesis
        using d(1) l t0(3) nc data False
        by (intro go [of ?t1 w1, OF _ _ _ _ _ d(2)]) (auto split: if_split_asm)
    qed
  qed
qed

lemma conn_known:
  assumes c: "conn stream t w" and i: "tcp_inv sock t" and len: "length stream < 2147483647"
    and r: "tcp_known E sock buf data datalen h t w = Some (res, t', w')"
    and seg: "client_segment stream (t_remote_start t) buf data datalen h"
  shows "conn stream t' w'"
  using r
proof (cases rule: tcp_known_cases)
  case (reset w1 t1)
  then have "conn stream t1 w1" using c conn_like [OF c] by blast
  then show ?thesis using reset(1) by (rule conn_rst)
next
  case (go t1 w1 t2)
  have c1: "conn stream t1 w1" using go(1-3) by (rule conn_like [OF c])
  have "conn stream t2 w1"
  proof (cases "datalen = 0")
    case False
    then obtain d where d: "t2 = queue_tcp (th_seq h) (th_psh h) t1 d" "0 \<le> sock" "t_state t \<noteq> TCP_CLOSE_WAIT"
      "compare_u32 (th_seq h) (t_remote_seq t1) < 0 \<and> d = [] \<or> slice buf data (unat datalen) = Some d"
      using go(7) by blast
    have st: "t_state t1 \<notin> {TCP_CLOSE_WAIT, TCP_FIN_WAIT1, TCP_LAST_ACK, TCP_CLOSING, TCP_CLOSE}"
      using i d(2,3) go(2,4,5) by (auto simp: tcp_inv_def)
    show ?thesis
    proof (cases "compare_u32 (th_seq h) (t_remote_seq t1) < 0")
      case True
      then show ?thesis using c1 d(1) by (simp add: queue_tcp_def)
    next
      case notold: False
      then have "holds stream (t_remote_start t) (th_seq h) datalen d"
        using d(4) seg False by (auto simp: client_segment_def)
      then have "holds stream (t_remote_start t1) (th_seq h) (of_nat (length d)) d"
        using holds_length go(1) by (fastforce simp: like_def fixed_def)
      then show ?thesis unfolding d(1) using c1 len st by (intro conn_queue)
    qed
  qed (use go(7) c1 in auto)
  then show ?thesis using go(6) by (rule conn_sequence)
qed

end
