(* ===== verification/Ng_Tcp_Run_Socket.thy ===== *)
theory Ng_Tcp_Run_Socket
  imports Ng_Tcp_Run
begin

text \<open>
  The socket handler keeps the invariant of the run: the handshake, the forward loop, the
  acknowledgement, and the read from upstream.
\<close>

section \<open>The handshake\<close>

text \<open>The session stays as it is, is reset, or has sent its SYN-ACK; each of the last two counts the SYN
  of the client, the last one also its own.\<close>

definition listen_next :: "tcp_session \<Rightarrow> tcp_session \<Rightarrow> bool" where
  "listen_next t t' \<longleftrightarrow> fixed t t' \<and> t_sent t' = t_sent t \<and> t_received t' = t_received t \<and> t_forward t' = t_forward t \<and>
     (t_state t' = TCP_LISTEN \<and> t_remote_seq t' = t_remote_seq t \<and> t_local_seq t' = t_local_seq t \<or>
      t_state t' = TCP_CLOSING \<and> t_remote_seq t' = t_remote_seq t + 1 \<or>
      t_state t' = TCP_SYN_RECV \<and> t_remote_seq t' = t_remote_seq t + 1 \<and> t_local_seq t' = t_local_seq t + 1)"

lemma listen_next_rst:
  assumes "write_rst E t w = (t', w')" and "t_state t = TCP_LISTEN"
  shows "listen_next t t'"
  using write_rst_result [OF assms(1)] assms(2) by (simp add: listen_next_def fixed_def)

lemma listen_next_closing:
  assumes "listen_next t0 t" and "write_rst E t w = (t', w')" and "t_state t = TCP_LISTEN \<or> t_state t = TCP_CLOSING"
  shows "listen_next t0 t'"
  using write_rst_result [OF assms(2)] assms(1,3) by (auto simp: listen_next_def fixed_def)

lemma listen_next_upd [simp]:
  "listen_next (t\<lparr>t_time := x\<rparr>) t' = listen_next t t'" "listen_next (t\<lparr>t_socks5 := y\<rparr>) t' = listen_next t t'"
  "listen_next t (t'\<lparr>t_time := x\<rparr>) = listen_next t t'" "listen_next t (t'\<lparr>t_socks5 := y\<rparr>) = listen_next t t'"
  by (simp_all add: listen_next_def fixed_def)

lemma listen_next_refl: "t_state t = TCP_LISTEN \<Longrightarrow> listen_next t t"
  by (simp add: listen_next_def fixed_def)

lemma socks5_fail_next: "socks5_fail E t w = (t', w') \<Longrightarrow> t_state t = TCP_LISTEN \<Longrightarrow> listen_next t t'"
  using listen_next_rst [of E "t\<lparr>t_socks5 := SOCKS5_ZERO\<rparr>"] by (simp add: socks5_fail_def)

lemma socks5_recv_next:
  assumes "socks5_recv E sock t w = (t', w')" and "t_state t = TCP_LISTEN"
  shows "listen_next t t'"
  using assms
  by (auto simp: socks5_recv_def split: prod.splits recv_result.splits if_split_asm
      intro: listen_next_rst listen_next_refl socks5_fail_next)

lemma socks5_send_next:
  assumes "socks5_send E sock t w = (t', w')" and n: "listen_next t0 t"
    and "t_state t = TCP_LISTEN \<or> t_state t = TCP_CLOSING \<and> t_socks5 t \<noteq> SOCKS5_CONNECTED"
  shows "listen_next t0 t'"
proof (cases "t_socks5 t = SOCKS5_CONNECTED")
  case True
  then have l: "t_state t = TCP_LISTEN" using assms(3) by simp
  let ?t = "t\<lparr>t_remote_seq := t_remote_seq t + 1\<rparr>"
  obtain r t1 w1 where 1: "write_syn_ack E ?t w = (r, t1, w1)" by (metis prod.exhaust)
  then have "r = 0 \<and> t1 = ?t \<or> r = -1 \<and> t1 = ?t\<lparr>t_state := TCP_CLOSING\<rparr>" by (rule write_result(1))
  then have "t' = t1 \<and> t_state t1 = TCP_CLOSING \<or>
      (\<exists>tm. t' = t1\<lparr>t_time := tm, t_local_seq := t_local_seq t1 + 1, t_state := TCP_SYN_RECV\<rparr>)"
    and t1: "t1 = ?t \<or> t1 = ?t\<lparr>t_state := TCP_CLOSING\<rparr>"
    using assms(1) True 1 by (auto simp: socks5_send_def Let_def split: prod.splits)
  then show ?thesis using n l by (auto simp: listen_next_def fixed_def)
next
  case False
  then have "t' = t \<or> (\<exists>w1 w2. write_rst E t w1 = (t', w2))"
    using assms(1) by (cases "t_socks5 t") (auto simp: socks5_send_def socks5_request_def split: prod.splits if_split_asm)
  then show ?thesis using n assms(3) listen_next_closing by blast
qed

lemma tcp_connecting_next:
  assumes r: "tcp_connecting E sock t ev w = (t', w')" and l: "t_state t = TCP_LISTEN" and nc: "t_socks5 t \<noteq> SOCKS5_CONNECTED"
  shows "listen_next t t'"
proof (cases "t_socks5 t \<noteq> SOCKS5_NONE \<and> ev AND EPOLLIN \<noteq> 0")
  case True
  obtain t1 w1 where 1: "socks5_recv E sock t w = (t1, w1)" by (metis prod.exhaust)
  have "t_state t1 = TCP_LISTEN \<or> t_state t1 = TCP_CLOSING \<and> t_socks5 t1 \<noteq> SOCKS5_CONNECTED"
    using socks5_recv_result [OF 1 l] nc by auto
  then show ?thesis
    using r True 1 socks5_send_next [OF _ socks5_recv_next [OF 1 l]] by (simp add: tcp_connecting_def)
next
  case False
  define t1 where "t1 = (if t_socks5 t = SOCKS5_NONE \<and> ev AND EPOLLOUT \<noteq> 0
    then t\<lparr>t_socks5 := (if socks5_enabled E then SOCKS5_HELLO else SOCKS5_CONNECTED)\<rparr> else t)"
  have "socks5_send E sock t1 w = (t', w')"
    using r False by (auto simp: tcp_connecting_def t1_def split: if_split_asm)
  moreover have "listen_next t t1" "t_state t1 = TCP_LISTEN" using l by (simp_all add: t1_def listen_next_refl)
  ultimately show ?thesis using socks5_send_next by blast
qed

lemma conn_listen_next:
  assumes c: "conn stream t w" and l: "t_state t = TCP_LISTEN" and n: "listen_next t t'" and w: "w_out w' = w_out w"
  shows "conn stream t' w'"
proof -
  have "upload_at stream t' k" if "upload_at stream t k" for k
  proof (cases "t_state t' = TCP_LISTEN")
    case True
    then show ?thesis using that l n by (simp add: upload_at_listen listen_next_def fixed_def)
  next
    case False
    with that l show ?thesis
      using n queue_ok_unsent [of stream "t_remote_start t" "t_remote_start t" "t_forward t" "t_remote_start t + 1"]
      unfolding upload_at_listen [OF l] by (intro upload_atI) (auto simp: listen_next_def fixed_def)
  qed
  then have "upload stream t' (w_out w')" using c w by (auto simp: conn_def upload_def)
  moreover have "usage_exact t' (w_out w')" using c n w by (simp add: conn_def usage_exact_def listen_next_def)
  moreover have "download t' (w_out w')"
    using c l n w by (auto simp: conn_def download_def local_sent_def listen_next_def fixed_def Let_def)
  moreover have "typed t'" using c n typed_fixed [of t t'] by (simp add: conn_def listen_next_def)
  ultimately show ?thesis by (simp add: conn_def)
qed

lemma conn_connecting:
  assumes c: "conn stream t w" and i: "tcp_inv (s_socket s) t" and l: "t_state t = TCP_LISTEN"
    and r: "check_tcp_socket E s t ev w = Some (s', t', w')"
  shows "conn stream t' (w\<lparr>w_calls := k\<rparr>)"
proof -
  have "t_socks5 t \<noteq> SOCKS5_CONNECTED" using i l by (simp add: tcp_inv_def)
  then have "listen_next t t'"
    using r l listen_next_rst [of E "t\<lparr>t_time := _\<rparr>"] tcp_connecting_next [of E "s_socket s" t ev w]
    by (auto simp: check_tcp_socket_def split: if_split_asm prod.splits)
  then show ?thesis by (intro conn_listen_next [OF c l]) simp_all
qed

section \<open>Forwarding\<close>

text \<open>The head of the queue, when it is next: what is left of it is what follows the bytes taken so far.\<close>

lemma upload_head:
  assumes u: "upload_at stream t k" and k: "k \<le> length stream" and q: "t_forward t = g # q"
    and sq: "g_seq g = t_remote_seq t" and le: "g_sent g \<le> g_len g" and len: "length stream < 2147483647"
    and b: "slice (g_data g) (unat (g_sent g)) (unat (g_len g) - unat (g_sent g)) = Some b"
  shows "t_state t \<noteq> TCP_LISTEN \<Longrightarrow> b = take (unat (g_len g) - unat (g_sent g)) (drop k stream)"
    and "t_state t \<noteq> TCP_LISTEN \<Longrightarrow> k + (unat (g_len g) - unat (g_sent g)) \<le> length stream"
    and "t_state t \<noteq> TCP_LISTEN \<Longrightarrow> unat (g_sent g) \<le> k"
    and "t_state t \<noteq> TCP_LISTEN \<Longrightarrow> t_remote_seq t = t_remote_start t + 1 + of_nat (k - unat (g_sent g))"
proof -
  let ?s = "unat (g_sent g)" and ?l = "unat (g_len g)"
  have "holds stream (t_remote_start t) (g_seq g) (g_len g) (g_data g)"
    using u q by (simp add: upload_at_def queue_ok_def)
  then obtain off where off: "g_seq g = t_remote_start t + 1 + of_nat off" "off + ?l \<le> length stream"
    "g_data g = take ?l (drop off stream)" "g_len g \<noteq> 0" by (auto simp: holds_def)
  have l0: "0 < ?l" using off(4) by (simp add: unat_gt_0)
  note inj = of_nat32_inject
  have "?s \<le> k \<and> k - ?s = off" if nl: "t_state t \<noteq> TCP_LISTEN"
  proof -
    have "\<not> t_remote_seq t = t_remote_start t"
    proof
      assume "t_remote_seq t = t_remote_start t"
      then have "(of_nat (Suc off) :: u32) = of_nat 0" using off(1) sq by simp
      then show False using inj [of "Suc off" 0] off(2) len l0 by simp
    qed
    then have "?s \<le> k \<and> t_remote_seq t = t_remote_start t + 1 + of_nat (k - ?s)"
      using u q nl by (auto simp: upload_at_def head_sent_def)
    then show ?thesis using off(1,2) sq inj [of off "k - ?s"] k len by simp
  qed
  then show nl: "t_state t \<noteq> TCP_LISTEN \<Longrightarrow> ?s \<le> k"
    "t_state t \<noteq> TCP_LISTEN \<Longrightarrow> t_remote_seq t = t_remote_start t + 1 + of_nat (k - ?s)"
    "t_state t \<noteq> TCP_LISTEN \<Longrightarrow> k + (?l - ?s) \<le> length stream"
    using off(1,2) sq le by (auto simp: word_le_nat_alt)
  show "b = take (?l - ?s) (drop k stream)" if "t_state t \<noteq> TCP_LISTEN"
    using \<open>t_state t \<noteq> TCP_LISTEN \<Longrightarrow> ?s \<le> k \<and> k - ?s = off\<close> [OF that] b off(3)
    by (auto simp: slice_def drop_take split: if_split_asm)
qed

lemma view_Sent:
  "delivered [Send s b m, Sent s' c] = c" "downloaded [Send s b m, Sent s' c] = []"
  "client_segments ver [Send s b m, Sent s' c] = []" "usage_sent [Send s b m, Sent s' c] = 0"
  "usage_received [Send s b m, Sent s' c] = 0"
  by (simp_all add: downloaded_def client_segments_def event_segments_def usage_sent_def usage_received_def)

lemma set_tlD: "x \<in> set (tl xs) \<Longrightarrow> x \<in> set xs"
  by (cases xs) simp_all

text \<open>The kernel takes \<open>n\<close> bytes of the head, all of it or not.\<close>

lemma conn_taken:
  assumes c: "conn stream (t\<lparr>t_forward := g # q\<rparr>) w" and st: "t_state t \<noteq> TCP_LISTEN"
    and sq: "g_seq g = t_remote_seq t" and le: "g_sent g \<le> g_len g" and len: "length stream < 2147483647"
    and b: "slice (g_data g) (unat (g_sent g)) (unat (g_len g) - unat (g_sent g)) = Some b"
    and n: "n \<le> length b" and w': "w_out w' = w_out w @ [Send s b m, Sent s' (take n b)]"
  shows "conn stream (t\<lparr>t_sent := t_sent t + of_nat n, t_forward := g\<lparr>g_sent := g_sent g + of_nat n\<rparr> # q\<rparr>) w'" (is "conn _ ?p _")
    and "g_len g = g_sent g + of_nat n \<Longrightarrow>
      conn stream (t\<lparr>t_sent := t_sent t + of_nat n, t_remote_seq := g_seq g + ucast (g_len g), t_forward := q\<rparr>) w'" (is "_ \<Longrightarrow> conn _ ?f _")
    and "g_len g = g_sent g + of_nat n \<Longrightarrow>
      g_seq g + ucast (g_len g) = t_remote_start t + 1 + of_nat (length (delivered (w_out w')))"
proof -
  let ?t = "t\<lparr>t_forward := g # q\<rparr>"
  obtain k where k: "k \<le> length stream" "delivered (w_out w) = take k stream" "upload_at stream ?t k"
    using c by (auto simp: conn_def upload_def)
  note h = upload_head [OF k(3,1) _ _ le len b, of q]
  have b': "b = take (unat (g_len g) - unat (g_sent g)) (drop k stream)" and
    hs: "unat (g_sent g) \<le> k" "t_remote_seq t = t_remote_start t + 1 + of_nat (k - unat (g_sent g))" and
    kl: "k + (unat (g_len g) - unat (g_sent g)) \<le> length stream"
    using h sq st by simp_all
  have n': "n \<le> unat (g_len g) - unat (g_sent g)" using n b' by simp
  note sa = sent_add [OF n' le]
  have take: "take n b = take n (drop k stream)" using b' n' by (simp add: min_absorb1)
  have del: "delivered (w_out w') = take (k + n) stream" using k(2) w' take by (simp add: view_Sent take_add del: delivered_simps(3,4))
  have tail: "\<forall>x\<in>set q. holds stream (t_remote_start t) (g_seq x) (g_len x) (g_data x) \<and> g_sent x = 0"
    and g: "holds stream (t_remote_start t) (g_seq g) (g_len g) (g_data g)"
    and fin: "t_state t \<notin> {TCP_FIN_WAIT1, TCP_LAST_ACK}"
    using k(3) by (simp_all add: upload_at_def queue_ok_def)
  have "upload_at stream ?p (k + n)"
    using tail g st fin hs sa(2) sq by (intro upload_atI) (auto simp: queue_ok_def head_sent_def dest: set_tlD)
  then have "upload stream ?p (w_out w')" using del kl n' unfolding upload_def by (intro exI [of _ "k + n"]) simp
  moreover have r: "usage_exact ?p (w_out w') \<and> download ?p (w_out w') \<and> typed ?p"
    using c w' k(2) n n' kl b' by (auto simp: conn_def usage_exact_def download_def local_sent_def typed_def view_Sent Let_def
        simp del: delivered_simps(3,4))
  ultimately show "conn stream ?p w'" by (simp add: conn_def)
  assume full: "g_len g = g_sent g + of_nat n"
  have zero: "head_sent q = 0" using tail by (cases q) (simp_all add: head_sent_def)
  have "unat (g_len g) = unat (g_sent g) + n" using sa(2) full by simp
  moreover have "(ucast (g_len g) :: u32) = of_nat (unat (g_len g))" by simp
  ultimately have "(ucast (g_len g) :: u32) = of_nat (unat (g_sent g) + n)" by metis
  then have rem: "g_seq g + ucast (g_len g) = t_remote_start t + 1 + of_nat (k + n)"
    using sq hs by (simp add: of_nat_diff)
  then show "g_seq g + ucast (g_len g) = t_remote_start t + 1 + of_nat (length (delivered (w_out w')))"
    using del kl n' by (simp add: min_absorb2)
  then have "upload_at stream ?f (k + n)"
    using tail st fin zero rem by (intro upload_atI) (auto simp: queue_ok_def split: list.split dest: set_tlD)
  then have "upload stream ?f (w_out w')" using del kl n' unfolding upload_def by (intro exI [of _ "k + n"]) simp
  moreover have "usage_exact ?f (w_out w') \<and> download ?f (w_out w') \<and> typed ?f"
    using r by (auto simp: usage_exact_def download_def local_sent_def typed_def Let_def)
  ultimately show "conn stream ?f w'" by (simp add: conn_def)
qed

lemma conn_forward_loop:
  assumes "forward_loop E sock q t fwd bs w = Some (fwd', t', w')" and "conn stream (t\<lparr>t_forward := q\<rparr>) w"
    and "t_state t \<noteq> TCP_LISTEN" and "length stream < 2147483647"
  shows "conn stream t' w'"
  using assms
proof (induction q arbitrary: t fwd bs w)
  case (Cons g q)
  from Cons.prems(1) show ?case
  proof (cases rule: forward_loop_cases)
    case stop
    then show ?thesis using Cons.prems(2) by simp
  next
    case (retry b err)
    then have "quiet (t_version t) w w'" by (intro quiet_emit [of _ _ "Send sock b (\<not> g_psh g)"]) (simp_all add: sys_send_out)
    then show ?thesis using retry(7) by (auto intro: conn_like [OF Cons.prems(2)])
  next
    case (reset b err w1)
    then have "quiet (t_version t) w w1" by (intro quiet_emit [of _ _ "Send sock b (\<not> g_psh g)"]) (simp_all add: sys_send_out)
    then have "conn stream (t\<lparr>t_forward := g # q\<rparr>) w1" by (auto intro: conn_like [OF Cons.prems(2)])
    then show ?thesis using reset(7) by (rule conn_rst)
  next
    case (part b n err)
    have "w_out w' = w_out w @ [Send sock b (\<not> g_psh g), Sent sock (take n b)]" using sys_send_out [OF part(5)] by simp
    then show ?thesis
      using conn_taken(1) [OF Cons.prems(2,3) part(1,3) Cons.prems(4) part(4,6)] part(9) by simp
  next
    case (full b n err w1)
    have "w_out w1 = w_out w @ [Send sock b (\<not> g_psh g), Sent sock (take n b)]" using sys_send_out [OF full(5)] by simp
    then have "conn stream (t\<lparr>t_sent := t_sent t + of_nat n, t_remote_seq := g_seq g + ucast (g_len g), t_forward := q\<rparr>) w1"
      using conn_taken(2) [OF Cons.prems(2,3) full(1,3) Cons.prems(4) full(4,6) _ full(7)] by simp
    then show ?thesis using Cons.IH [OF full(8)] Cons.prems(3,4) by simp
  qed
qed simp

lemma forward_loop_emptied:
  assumes "forward_loop E sock q t fwd bs w = Some (fwd', t', w')" and "conn stream (t\<lparr>t_forward := q\<rparr>) w"
    and "t_state t \<noteq> TCP_LISTEN" and "length stream < 2147483647" and "q \<noteq> []" and "t_forward t' = []"
  shows "t_remote_seq t' = t_remote_start t' + 1 + of_nat (length (delivered (w_out w')))"
  using assms
proof (induction q arbitrary: t fwd bs w)
  case (Cons g q)
  from Cons.prems(1) show ?case
  proof (cases rule: forward_loop_cases)
    case (reset b err w1)
    then show ?thesis using write_rst_result [OF reset(7)] Cons.prems(6) by simp
  next
    case (full b n err w1)
    have "w_out w1 = w_out w @ [Send sock b (\<not> g_psh g), Sent sock (take n b)]" using sys_send_out [OF full(5)] by simp
    note k = conn_taken(2,3) [OF Cons.prems(2,3) full(1,3) Cons.prems(4) full(4,6) this full(7)]
    show ?thesis
    proof (cases q)
      case Nil
      then show ?thesis using full(8) k(2) by auto
    next
      case (Cons a list)
      then show ?thesis using Cons.IH [OF full(8)] k(1) Cons.prems(3,4,6) by simp
    qed
  qed (use Cons.prems(6) in simp_all)
qed simp

lemma conn_acknowledge:
  assumes c: "conn stream t w" and r: "tcp_acknowledge E sock fwd t w = (t', w')"
    and f: "fwd \<Longrightarrow> t_forward t = [] \<Longrightarrow> t_remote_seq t = t_remote_start t + 1 + of_nat (length (delivered (w_out w)))"
  shows "conn stream t' w'"
proof -
  obtain window w1 where 1: "get_receive_window E sock t w = (window, w1)" by (metis prod.exhaust)
  let ?t = "t\<lparr>t_recv_window := window\<rparr>"
  have q1: "quiet (t_version t) w w1" using 1 by (rule quiet_intro)
  have c1: "conn stream ?t w1" by (rule conn_like [OF c _ _ q1]) (simp_all add: like_def fixed_def)
  define t2 where "t2 = (if fwd \<and> t_forward t = [] \<and> t_state t = TCP_CLOSE_WAIT then ?t\<lparr>t_remote_seq := t_remote_seq t + 1\<rparr> else ?t)"
  have c2: "conn stream t2 w1" if fwd
  proof (cases "t_forward t = [] \<and> t_state t = TCP_CLOSE_WAIT")
    case True
    obtain n where n: "n \<le> length stream" "delivered (w_out w1) = take n stream" "upload_at stream ?t n"
      using c1 by (auto simp: conn_def upload_def)
    have "t_remote_seq t = t_remote_start t + 1 + of_nat n"
      using f that True n(1,2) quiet_views(1) [OF q1] by (simp add: min_absorb2)
    then have "upload_at stream t2 n" using True that by (simp add: t2_def upload_at_def queue_ok_def)
    then show ?thesis using c1 n True that
      by (auto simp: t2_def conn_def upload_def usage_exact_def download_def local_sent_def typed_def Let_def)
  qed (use c1 in \<open>auto simp: t2_def\<close>)
  obtain res t3 w2 where 3: "write_ack E t2 w1 = (res, t3, w2)" by (metis prod.exhaust)
  have c3: "conn stream t3 w2" if "conn stream t2 w1"
    using that quiet_write(2) [OF conn_fields [OF that] 3] write_result(2) [OF 3] by (rule conn_written)
  have c4: "conn stream (t3\<lparr>t_time := tm\<rparr>) w3" if "conn stream t3 w2" "sys_time E w2 = (tm, w3)" for tm w3
    using that by (auto simp: like_def fixed_def intro: conn_like quiet_intro)
  have c2': "conn stream t2 w1" using c1 c2 by (cases fwd) (simp_all add: t2_def)
  have t2: "(if fwd \<and> t_forward ?t = [] \<and> t_state ?t = TCP_CLOSE_WAIT then ?t\<lparr>t_remote_seq := t_remote_seq ?t + 1\<rparr> else ?t) = t2"
    by (simp add: t2_def)
  have "tcp_acknowledge E sock fwd t w =
      (if fwd \<or> t_recv_window t = 0 \<and> window > 0 then
         if res \<ge> 0 then (let (tm, w) = sys_time E w2 in (t3\<lparr>t_time := tm\<rparr>, w)) else (t3, w2)
       else (?t, w1))"
    unfolding tcp_acknowledge_def 1 prod.case Let_def t2 3 by (rule refl)
  then show ?thesis using r c3 [OF c2'] c1 c4 by (auto simp: Let_def split: if_split_asm prod.splits)
qed

lemma conn_forward:
  assumes c: "conn stream t w" and st: "t_state t \<noteq> TCP_LISTEN" and len: "length stream < 2147483647"
    and r: "tcp_forward E sock t ev w = Some (t', w')"
  shows "conn stream t' w'"
proof (cases "ev AND EPOLLOUT \<noteq> 0")
  case False
  then show ?thesis using r c by (auto simp: tcp_forward_def intro: conn_acknowledge)
next
  case True
  obtain bs w1 where 1: "get_receive_buffer E sock w = (bs, w1)" by (metis prod.exhaust)
  have "quiet (t_version t) w w1" using 1 by (rule quiet_intro)
  then have c1: "conn stream (t\<lparr>t_forward := t_forward t\<rparr>) w1" by (auto intro: conn_like [OF c])
  obtain fwd t2 w2 where 2: "forward_loop E sock (t_forward t) t False bs w1 = Some (fwd, t2, w2)"
    "tcp_acknowledge E sock fwd t2 w2 = (t', w')"
    using r True 1 by (auto simp: tcp_forward_def bind_eq_Some_conv)
  have "fwd \<Longrightarrow> t_forward t \<noteq> []" using 2(1) by (cases "t_forward t") auto
  note this forward_loop_emptied [OF 2(1) c1 st len]
  then show ?thesis by - (rule conn_acknowledge [OF conn_forward_loop [OF 2(1) c1 st len] 2(2)], blast)
qed

section \<open>Reading\<close>

lemma conn_views:
  assumes "conn stream t w" and "delivered (w_out w') = delivered (w_out w)" and "downloaded (w_out w') = downloaded (w_out w)"
    and "client_segments (t_version t) (w_out w') = client_segments (t_version t) (w_out w)"
    and "usage_sent (w_out w') = usage_sent (w_out w)" and "usage_received (w_out w') = usage_received (w_out w)"
  shows "conn stream t w'"
  using assms by (simp add: conn_def upload_def usage_exact_def download_def)

lemma sys_recv_out:
  assumes "sys_recv E s n w = (res, w')"
  shows "w_out w' = w_out w @ (case res of RecvError e \<Rightarrow> [] | RecvData b \<Rightarrow> [Received s b])"
  using assms by (auto simp: sys_recv_def split: recv_result.splits)

lemma view_Received:
  "delivered [Received s b] = []" "downloaded [Received s b] = b" "client_segments ver [Received s b] = []"
  "usage_sent [Received s b] = 0" "usage_received [Received s b] = 0"
  by (simp_all add: delivered_def downloaded_def client_segments_def event_segments_def usage_sent_def usage_received_def)

text \<open>End of file: the FIN counts in \<open>local_seq\<close>.\<close>

lemma conn_fin_sent:
  assumes c: "conn stream t w" and q: "quiet (t_version t) w w'"
    and l: "like (t\<lparr>t_local_seq := t_local_seq t + 1\<rparr>) t'" and nil: "t_forward t = []"
    and st: "t_state t = TCP_ESTABLISHED \<and> t_state t' = TCP_FIN_WAIT1 \<or> t_state t = TCP_CLOSE_WAIT \<and> t_state t' = TCP_LAST_ACK"
  shows "conn stream t' w'"
proof -
  note v = quiet_views [OF q]
  have "upload_at stream t' n" if "upload_at stream t n" for n
    using that st l nil by (elim disjE) (simp_all add: upload_at_def like_def fixed_def head_sent_def queue_ok_def)
  then have "upload stream t' (w_out w')" using c v by (auto simp: conn_def upload_def)
  moreover have "usage_exact t' (w_out w')" using c l v by (simp add: conn_def usage_exact_def like_def)
  moreover have "download t' (w_out w')"
    using c l v st by (auto simp: conn_def download_def local_sent_def like_def fixed_def Let_def)
  moreover have "typed t'" using c l typed_fixed [of t t'] by (simp add: conn_def like_def fixed_def)
  ultimately show ?thesis by (simp add: conn_def)
qed

lemma conn_eof:
  assumes c: "conn stream t w" and st: "t_state t = TCP_ESTABLISHED \<or> t_state t = TCP_CLOSE_WAIT"
    and r: "tcp_eof E s t w = (s', t', w')"
  shows "conn stream t' w'"
proof -
  have cl: "conn stream t1 (sys_close (s_socket s) w1)" if "conn stream t1 w1" for t1 w1
    using that quiet_sys(4) by (auto intro: conn_like)
  show ?thesis
  proof (cases "t_forward t = []")
    case True
    obtain res t1 w1 where 1: "write_fin_ack E t w = (res, t1, w1)" by (metis prod.exhaust)
    note wr = write_result(4) [OF 1] and q = quiet_write(3) [OF conn_fields [OF c] 1]
    have "t_state t' = TCP_CLOSING \<and> t' = t\<lparr>t_state := TCP_CLOSING\<rparr> \<or>
        like (t\<lparr>t_local_seq := t_local_seq t + 1\<rparr>) t' \<and>
        (t_state t = TCP_ESTABLISHED \<and> t_state t' = TCP_FIN_WAIT1 \<or> t_state t = TCP_CLOSE_WAIT \<and> t_state t' = TCP_LAST_ACK)"
      and w': "w' = sys_close (s_socket s) w1"
      using r True 1 st wr by (auto simp: tcp_eof_def Let_def like_def fixed_def)
    then have "conn stream t' w1"
      using conn_fin_sent [OF c q _ True] conn_closing [OF c _ _ q, of t'] by (auto simp: like_def fixed_def)
    then show ?thesis unfolding w' by (rule cl)
  next
    case False
    then show ?thesis using r c by (auto simp: tcp_eof_def intro: cl conn_rst split: prod.splits)
  qed
qed

text \<open>Data: it goes to the client in one segment.\<close>

lemma conn_read_data:
  assumes c: "conn stream t w" and st: "t_state t = TCP_ESTABLISHED \<or> t_state t = TCP_CLOSE_WAIT" and b: "b \<noteq> []"
    and w1: "w_out w1 = w_out w @ [Received s b]" and r: "tcp_read_data E t b w1 = Some (t', w')"
  shows "conn stream t' w'"
  using r
proof (cases rule: tcp_read_data_cases)
  case (1 b1 w2 res t1)
  let ?t = "t\<lparr>t_received := t_received t + of_nat (length b)\<rparr>" and ?v = "t_version t"
  have b1: "b1 \<noteq> []" "t_dest t \<noteq> 53 \<Longrightarrow> b1 = b" and "quiet ?v w1 w2"
    using 1(1) b by (auto split: if_split_asm intro: quiet_intro simp: bind_eq_Some_conv)
  note v = quiet_views [OF this(3)]
  have ty: "typed ?t" using c by (simp add: conn_def typed_def)
  obtain k w3 where k: "write_tcp E ?t b1 False True False False w2 = (k, w3)" by (metis prod.exhaust)
  have "(if k < 0 then (-1, ?t\<lparr>t_state := TCP_CLOSING\<rparr>, w3) else (0, ?t, w3)) = (res, t1, w')"
    using 1(2) unfolding write_data_def write_or_close_def k Let_def prod.case .
  then have 2: "write_tcp E ?t b1 False True False False w2 = (k, w')"
    "res \<ge> 0 \<and> t1 = ?t \<or> \<not> res \<ge> 0 \<and> t1 = ?t\<lparr>t_state := TCP_CLOSING\<rparr>"
    using k by (simp_all split: if_split_asm)
  obtain rs where rs: "w_out w' = w_out w2 @ TunWrite (tcp_packet ?t b1 False True False False) # rs" "set rs \<subseteq> range PcapRecord"
    "event_segments ?v (TunWrite (tcp_packet ?t b1 False True False False)) = [(t_local_seq t, b1)]"
    using write_tcp_out [OF 2(1) ty] b1(1) by auto
  have pc: "delivered rs = []" "downloaded rs = []" "client_segments ?v rs = []" "usage_sent rs = 0" "usage_received rs = 0"
    using rs(2) by (induction rs)
      (auto simp: delivered_def downloaded_def client_segments_def event_segments_def usage_sent_def usage_received_def)
  let ?p = "[TunWrite (tcp_packet ?t b1 False True False False)]"
  have tw: "delivered ?p = []" "downloaded ?p = []" "client_segments ?v ?p = [(t_local_seq t, b1)]" "usage_sent ?p = 0" "usage_received ?p = 0"
    using rs(3) by (simp_all add: delivered_def downloaded_def client_segments_def usage_sent_def usage_received_def)
  have out: "w_out w' = w_out w2 @ ?p @ rs" using rs(1) by simp
  have views: "delivered (w_out w') = delivered (w_out w)" "downloaded (w_out w') = downloaded (w_out w) @ b"
    "client_segments ?v (w_out w') = client_segments ?v (w_out w) @ [(t_local_seq t, b1)]"
    "usage_sent (w_out w') = usage_sent (w_out w)" "usage_received (w_out w') = usage_received (w_out w)"
    unfolding out delivered_simps(2) view_append v w1 pc tw view_Received by simp_all
  have t': "fixed t t'" "t_sent t' = t_sent t" "t_received t' = t_received t + of_nat (length b)" "t_forward t' = t_forward t"
    "t_remote_seq t' = t_remote_seq t" "t_state t' = TCP_CLOSING \<or> t_state t' = t_state t \<and> t_local_seq t' = t_local_seq t + of_nat (length b1)"
    using 1(3) 2(2) by (auto simp: fixed_def)
  have "upload_at stream t' n" if "upload_at stream t n" for n
  proof (cases "t_state t' = TCP_CLOSING")
    case True
    then show ?thesis using upload_closing [OF that] t' by (simp add: fixed_def)
  next
    case False
    then have "upload_at stream t' n = upload_at stream t n" using t' by (simp add: upload_at_def fixed_def)
    then show ?thesis using that by simp
  qed
  then have "upload stream t' (w_out w')" using c views(1) by (auto simp: conn_def upload_def)
  moreover have "usage_exact t' (w_out w')" using c t'(2,3) views by (simp add: conn_def usage_exact_def add.assoc [symmetric])
  moreover have "download t' (w_out w')"
    using c t'(1,6) views(2,3) st b1(2)
    by (auto simp: conn_def download_def local_sent_def fixed_def Let_def consecutive_append add_ac)
  moreover have "typed t'" using c t'(1) typed_fixed [of t t'] by (simp add: conn_def)
  ultimately show ?thesis by (simp add: conn_def)
qed

lemma conn_read:
  assumes c: "conn stream t w" and st: "t_state t = TCP_ESTABLISHED \<or> t_state t = TCP_CLOSE_WAIT"
    and r: "tcp_read E s t ev w = Some (s', t', w')"
  shows "conn stream t' w'"
proof (cases "ev AND EPOLLIN \<noteq> 0 \<and> get_send_window t > 0")
  case False
  then show ?thesis using r c by (auto simp: tcp_read_def)
next
  case True
  let ?n = "if get_send_window t > ucast (t_mss t) then ucast (t_mss t) else get_send_window t"
  obtain tm w1 where tm: "sys_time E w = (tm, w1)" by (cases "sys_time E w")
  let ?t = "t\<lparr>t_time := tm\<rparr>"
  have c1: "conn stream ?t w1" using tm by (auto simp: like_def fixed_def intro: conn_like [OF c] quiet_intro)
  obtain res w2 where recv: "sys_recv E (s_socket s) (unat ?n) w1 = (res, w2)" by (metis prod.exhaust)
  note out = sys_recv_out [OF recv]
  show ?thesis
  proof (cases res)
    case (RecvError err)
    have "conn stream ?t w2" using out RecvError by (intro conn_views [OF c1]) simp_all
    then show ?thesis using r True tm recv RecvError
      by (auto simp: tcp_read_def Let_def intro: conn_rst split: if_split_asm prod.splits)
  next
    case (RecvData b)
    have o: "w_out w2 = w_out w1 @ [Received (s_socket s) b]" using out RecvData by simp
    have k: "if b = [] then tcp_eof E s ?t w2 = (s', t', w') else s' = s \<and> tcp_read_data E ?t b w2 = Some (t', w')"
      using r True tm recv RecvData by (auto simp: tcp_read_def Let_def bind_eq_Some_conv split: if_split_asm)
    show ?thesis
    proof (cases "b = []")
      case True
      have "conn stream ?t w2" using o True by (intro conn_views [OF c1]) (simp_all add: view_Received)
      then show ?thesis using k True st conn_eof [of stream ?t w2 E s] by simp
    next
      case False
      then show ?thesis using k st conn_read_data [OF c1 _ False o] by auto
    qed
  qed
qed

end
