(* ===== verification/Ng_Tcp_Run_Props.thy ===== *)
theory Ng_Tcp_Run_Props
  imports Ng_Tcp_Run_Socket "HOL-Library.Sublist"
begin

text \<open>
  The runs of a TCP session as a \<open>session_machine\<close>, and what follows for every run: the server gets
  a prefix of what the client sends, the client gets what the server sends, and the usage reported to
  Java is exact.
\<close>

section \<open>The machine\<close>

lemma conn_socket:
  assumes c: "conn stream t w" and nl: "t_state t \<noteq> TCP_LISTEN" and len: "length stream < 2147483647"
    and r: "check_tcp_socket E s t ev w = Some (s', t', w')"
  shows "conn stream t' w'"
proof (cases "ev AND EPOLLERR \<noteq> 0")
  case True
  obtain tm w1 where tm: "sys_time E w = (tm, w1)" by (cases "sys_time E w")
  then have "conn stream (t\<lparr>t_time := tm\<rparr>) w1" by (auto simp: like_def fixed_def intro: conn_like [OF c] quiet_intro)
  then show ?thesis using r True tm by (auto simp: check_tcp_socket_def intro: conn_rst split: prod.splits)
next
  case False
  then obtain t1 w1 where 1: "tcp_forward E (s_socket s) t ev w = Some (t1, w1)"
    and 2: "(if t_state t1 = TCP_ESTABLISHED \<or> t_state t1 = TCP_CLOSE_WAIT
      then tcp_read E s t1 ev w1 else Some (s, t1, w1)) = Some (s', t', w')"
    using r nl by (auto simp: check_tcp_socket_def bind_eq_Some_conv)
  then have "conn stream t1 w1" using conn_forward [OF c nl len] by blast
  then show ?thesis using 2 conn_read by (auto split: if_split_asm)
qed

definition run_inv :: "bytes \<Rightarrow> ng_session \<times> tcp_session \<times> world \<Rightarrow> bool" where
  "run_inv stream r = (case r of (s, t, w) \<Rightarrow> tcp_inv (s_socket s) t \<and> (length stream < 2147483647 \<longrightarrow> conn stream t w))"

lemma tcp_register_fields:
  assumes "tcp_register E ptr t al redirect ss w = (True, s # ss, w')" and "t_state t = TCP_LISTEN" and "t_socks5 t = SOCKS5_NONE"
  obtains x t' where "s_proto s = Tcp t'" "listen_next (t\<lparr>t_recv_window := x\<rparr>) t'" "tcp_inv (s_socket s) t'"
proof -
  obtain t' where t': "s_proto s = Tcp t'" "tcp_inv (s_socket s) t'" using tcp_register_inv [OF assms] by blast
  have "\<exists>x. t' = t\<lparr>t_recv_window := x\<rparr> \<or> (\<exists>w1 w2. write_rst E (t\<lparr>t_recv_window := x\<rparr>) w1 = (t', w2))"
    using assms(1) t'(1) by (auto simp: tcp_register_def Let_def split: if_split_asm prod.splits) blast+
  then obtain x where "listen_next (t\<lparr>t_recv_window := x\<rparr>) t'"
    using listen_next_rst [of E "t\<lparr>t_recv_window := _\<rparr>"] listen_next_refl [of "t\<lparr>t_recv_window := _\<rparr>"] assms(2) by fastforce
  then show thesis using that t' by blast
qed

lemma run_init_inv: "run_init (s, t, w0) \<Longrightarrow> run_inv stream (s, t, w0)"
proof (erule run_init_cases)
  fix E buf payload tcpoptlen h data version saddr daddr uid al redirect ss w w'
  assume r: "tcp_syn E buf payload tcpoptlen h data 0 version saddr daddr uid al redirect ss w = Some (True, s # ss, w')"
    and a: "addr_ok version saddr" "addr_ok version daddr" and p: "s_proto s = Tcp t" and w0: "w_out w0 = []"
  obtain tm mss ws isn ptr w1 where reg: "tcp_register E ptr (new_tcp tm uid version mss ws h isn saddr daddr []) al redirect ss w1 = (True, s # ss, w')"
    using r unfolding tcp_syn_def by (auto simp: bind_eq_Some_conv Let_def split_beta)
  let ?n = "new_tcp tm uid version mss ws h isn saddr daddr []"
  obtain x where x: "listen_next (?n\<lparr>t_recv_window := x\<rparr>) t" "tcp_inv (s_socket s) t"
    using tcp_register_fields [OF reg] p by (auto simp: new_tcp_def)
  have "conn stream (?n\<lparr>t_recv_window := x\<rparr>) w0"
    using a w0 by (simp add: conn_def typed_def upload_def upload_at_def queue_ok_def head_sent_def usage_exact_def
        download_def local_sent_def new_tcp_def Let_def)
  from conn_listen_next [OF this _ x(1) refl] have "conn stream t w0" by (simp add: new_tcp_def)
  then show "run_inv stream (s, t, w0)" using x(2) by (simp add: run_inv_def)
qed

lemma run_step_tcp_step: "run_step stream (s, t, w) (s', t', w') \<Longrightarrow> tcp_step (s, t) (s', t') \<or> s' = s \<and> t' = t"
  by (erule run_step_cases) (auto intro: tcp_step.intros)

lemma run_step_inv:
  assumes i: "run_inv stream (s, t, w)" and r: "run_step stream (s, t, w) (s', t', w')"
  shows "run_inv stream (s', t', w')"
proof -
  have t: "tcp_inv (s_socket s) t" using i by (simp add: run_inv_def)
  then have "tcp_inv (s_socket s') t'"
    using run_step_tcp_step [OF r] tcp_step_good [OF t] by (auto simp: tcp_good_def)
  moreover have "conn stream t' w'" if len: "length stream < 2147483647"
  proof -
    have c: "conn stream t w" using i len by (simp add: run_inv_def)
    then have o: "conn stream t (w\<lparr>w_calls := n\<rparr>)" for n by (rule conn_views) simp_all
    show ?thesis using r
      by (rule run_step_cases)
        (auto intro: conn_connecting [OF c t] conn_socket [OF c _ len] conn_check [OF c] conn_monitor [OF c]
          conn_known [OF c t len] conn_rst [OF c] o)
  qed
  ultimately show ?thesis by (simp add: run_inv_def)
qed

interpretation tcp_run: session_machine run_init "run_step stream" "run_inv stream" "\<lambda>(s, t, w). t_state t"
proof unfold_locales
  show "run_init r \<Longrightarrow> run_inv stream r" for r by (cases r) (simp add: run_init_inv)
  show "run_inv stream r \<Longrightarrow> run_step stream r r' \<Longrightarrow> run_inv stream r'" for r r'
    by (cases r; cases r') (simp add: run_step_inv)
  show "(\<lambda>(s, t, w). t_state t) r \<le> (\<lambda>(s, t, w). t_state t) r'" if "run_inv stream r" "run_step stream r r'" for r r'
    using that run_step_tcp_step [of stream] tcp_step_good
    by (cases r; cases r') (fastforce simp: tcp_good_def run_inv_def)
qed

text \<open>The periodic check moves no data.\<close>

lemma check_tcp_session_views:
  assumes "check_tcp_session E s t n m w = (del, s', t', w')" and "typed t"
  shows "delivered (w_out w') = delivered (w_out w)" and "downloaded (w_out w') = downloaded (w_out w)"
proof -
  obtain now w1 where 1: "sys_time E w = (now, w1)" by (cases "sys_time E w")
  obtain t2 w2 where 2: "tcp_expire E t (get_tcp_timeout t n m) now w1 = (t2, w2)" by (metis prod.exhaust)
  obtain s3 t3 w3 where 3: "tcp_close_socket E s t2 w2 = (s3, t3, w3)" by (metis prod.exhaust)
  obtain t4 w4 where 4: "tcp_account t3 w3 = (t4, w4)" by (metis prod.exhaust)
  let ?v = "t_version t"
  have "quiet ?v w1 w2" using 2 quiet_write_rst [OF assms(2)] by (auto simp: tcp_expire_def split: if_split_asm)
  moreover have "quiet ?v w w1" using 1 by (rule quiet_intro)
  moreover have "quiet ?v w2 w3" using 3 by (rule quiet_intro)
  ultimately have q: "quiet ?v w w3" using quiet_trans by blast
  have "delivered (w_out w4) = delivered (w_out w3) \<and> downloaded (w_out w4) = downloaded (w_out w3)"
    using 4 by (auto simp: tcp_account_def view_Account split: if_split_asm)
  moreover have "w' = w4" using assms(1) 1 2 3 4 by (simp add: check_tcp_session_def)
  ultimately show "delivered (w_out w') = delivered (w_out w)" "downloaded (w_out w') = downloaded (w_out w)"
    using quiet_views(1,2) [OF q] by simp_all
qed

section \<open>Properties\<close>

text \<open>C2: the upload of a TCP session whose SYN carries no data and whose client sends less than
  \<open>2^31 - 1\<close> bytes (segments of one stream, in any order, repeated, cut differently or shortened): in every
  run, whatever part of a segment the kernel takes at a time, and whatever errors, FINs and resets happen,
  what the server has been given is a prefix of what the client sent. In the states before a FIN of the
  client (\<open>SYN_RECV\<close> and \<open>ESTABLISHED\<close>) the client has been acknowledged no byte that the kernel has not taken,
  and, once the queue is empty, all that it has taken. (Not so after a FIN: \<open>tcp_fin\<close> takes one that runs ahead of
  lost data, and its acknowledgement covers a byte the kernel has not got. The handshake with a SOCKS5
  proxy, which comes before the stream, is left out of what is given.)\<close>

theorem tcp_upload_prefix:
  assumes "reach run_init (run_step stream) (s, t, w)" and "length stream < 2147483647"
  shows "prefix (delivered (w_out w)) stream \<and>
    (t_state t \<in> {TCP_SYN_RECV, TCP_ESTABLISHED} \<longrightarrow>
       unat (t_remote_seq t - t_remote_start t - 1) \<le> length (delivered (w_out w)) \<and>
       (t_forward t = [] \<longrightarrow> unat (t_remote_seq t - t_remote_start t - 1) = length (delivered (w_out w))))"
proof -
  have "conn stream t w" using tcp_run.reach_inv [OF assms(1)] assms(2) by (simp add: run_inv_def)
  then obtain n where n: "n \<le> length stream" "delivered (w_out w) = take n stream" "upload_at stream t n"
    by (auto simp: conn_def upload_def)
  have l: "length (delivered (w_out w)) = n" using n by simp
  have "t_remote_seq t - t_remote_start t - 1 = of_nat (n - head_sent (t_forward t)) \<and> (t_forward t = [] \<longrightarrow> head_sent (t_forward t) = 0)"
    if "t_state t \<in> {TCP_SYN_RECV, TCP_ESTABLISHED}"
    using that n(3) upload_at_open [of t stream n] by (auto simp: head_sent_def)
  then show ?thesis using n(1,2) assms(2) unfolding l by (auto simp: unat_of_nat32 take_is_prefix)
qed

text \<open>C3: the download of a TCP session whose SYN carries no data and whose client sends less than \<open>2^31 - 1\<close>
  bytes: in every run the data segments written to the client follow each other from the sequence number
  after the SYN, without a gap or an overlap; while the session is open its \<open>local_seq\<close> is the number
  after the last of them; and when the destination port is not 53 they hold exactly what the server sent.
  (For port 53 \<open>parse_dns_response\<close> may change the bytes on the way, not their number. The handshake with
  a SOCKS5 proxy is not part of the stream.)\<close>

theorem tcp_download_in_order:
  assumes "reach run_init (run_step stream) (s, t, w)" and "length stream < 2147483647"
  shows "consecutive (t_local_start t + 1) (client_segments (t_version t) (w_out w)) \<and>
    (t_dest t \<noteq> 53 \<longrightarrow> concat (map snd (client_segments (t_version t) (w_out w))) = downloaded (w_out w)) \<and>
    (t_state t \<in> {TCP_SYN_RECV, TCP_ESTABLISHED, TCP_CLOSE_WAIT} \<longrightarrow>
       t_local_seq t = t_local_start t + 1 + of_nat (length (concat (map snd (client_segments (t_version t) (w_out w))))))"
proof -
  have "conn stream t w" using tcp_run.reach_inv [OF assms(1)] assms(2) by (simp add: run_inv_def)
  then show ?thesis by (auto simp: conn_def download_def local_sent_def Let_def add_ac)
qed


section \<open>Instances\<close>

text \<open>A connection on which the client sends three bytes.\<close>

definition example_conn :: tcp_session where
  "example_conn = (new_tcp 1001 10 4 9960 0 example_syn 5000 [10, 1, 10, 1] [1, 2, 3, 4] [])\<lparr>t_recv_window := 65535\<rparr>"

definition example_ng :: ng_session where
  "example_ng = \<lparr>s_ptr = 0, s_proto = Tcp example_conn, s_socket = 7, s_events = 12\<rparr>"

definition example_data :: tcphdr where
  "example_data = example_syn\<lparr>th_seq := 101, th_ack_seq := 5001, th_syn := False, th_ack := True, th_psh := True\<rparr>"

lemma example_run_init: "run_init (example_ng, example_conn, example_world)"
proof -
  have "\<exists>w. tcp_syn example_env [] 0 0 example_syn 0 0 4 [10, 1, 10, 1] [1, 2, 3, 4] 10 True None [] example_world =
      Some (True, [example_ng], w)"
    by (simp add: tcp_syn_def tcp_options_loop.simps tcp_register_def open_tcp_socket_def ask_def sys_time_def
        called_def sys_epoll_def example_env_def example_world_def cstr_def new_tcp_def split_beta Let_def get_receive_window_def
        get_receive_buffer_def example_conn_def get_default_mss_def get_mtu_def example_syn_def example_ng_def)
  moreover have "s_proto example_ng = Tcp example_conn" "w_out example_world = []" by (simp_all add: example_ng_def example_world_def)
  ultimately show ?thesis by (auto intro: run_init.intros simp: addr_ok_def)
qed

lemma example_write_or_close: "\<exists>w'. write_or_close example_env t data syn ack fin w = (0, t, w')"
  by (simp add: write_or_close_def write_tcp_def write_tun_def sys_write_def example_env_def Let_def)

definition example_server :: env where
  "example_server = example_env\<lparr>e_recv := (\<lambda>k s n. RecvData [5, 6])\<rparr>"

lemma example_write_data:
  "\<exists>w' p. write_data example_server t data w = (0, t, w') \<and> w_out w' = w_out w @ [TunWrite p]"
  by (simp add: write_data_def write_or_close_def write_tcp_def write_tun_def sys_write_def example_server_def example_env_def Let_def)

lemma example_connected:
  "\<exists>tm w'. check_tcp_socket example_env example_ng example_conn 4 w = Some (example_ng,
     example_conn\<lparr>t_socks5 := SOCKS5_CONNECTED, t_remote_seq := 101, t_time := tm, t_local_seq := 5001, t_state := TCP_SYN_RECV\<rparr>, w')"
proof -
  let ?t = "example_conn\<lparr>t_socks5 := SOCKS5_CONNECTED, t_remote_seq := 101\<rparr>"
  obtain w1 where "write_syn_ack example_env ?t w = (0, ?t, w1)"
    using example_write_or_close unfolding write_syn_ack_def by blast
  then show ?thesis
    by (simp add: check_tcp_socket_def tcp_connecting_def socks5_send_def socks5_enabled_def sys_time_def Let_def
        example_conn_def new_tcp_def example_syn_def example_env_def example_ng_def cstr_def)
qed


text \<open>What the steps leave of interest.\<close>

definition example_state :: "tcp_session \<Rightarrow> segment list \<Rightarrow> u32 \<Rightarrow> bool" where
  "example_state t q remote \<longleftrightarrow> t_state t = TCP_ESTABLISHED \<and> t_forward t = q \<and> t_remote_seq t = remote \<and>
     t_remote_start t = 100 \<and> t_local_start t = 5000 \<and> t_local_seq t = 5001 \<and> t_acked t = 5001 \<and> t_send_window t = 500 \<and>
     t_unconfirmed t = 0 \<and> t_recv_window t = 65535 \<and> t_recv_scale t = 0 \<and> t_mss t = 9960 \<and> t_dest t = 80 \<and> t_version t = 4 \<and> addr_ok 4 (t_saddr t) \<and> addr_ok 4 (t_daddr t)"

lemma example_sent:
  assumes "t = example_conn\<lparr>t_socks5 := SOCKS5_CONNECTED, t_remote_seq := 101, t_time := tm, t_local_seq := 5001, t_state := TCP_SYN_RECV\<rparr>"
  shows "\<exists>t' w'. tcp_known example_env 7 [7, 8, 9] 0 3 example_data t w = Some (True, t', w') \<and>
    example_state t' [new_segment 101 True [7, 8, 9]] 101"
  by (simp add: assms tcp_known_def tcp_sequence_def tcp_ack_def queue_tcp_def sys_time_def Let_def example_conn_def new_tcp_def
      example_data_def example_syn_def slice_def compare_u32_def new_segment_def example_state_def typed_def addr_ok_def)

lemma example_forwarded:
  assumes "example_state t [new_segment 101 True [7, 8, 9]] 101"
  shows "\<exists>t' w'. check_tcp_socket example_env example_ng t 4 w = Some (example_ng, t', w') \<and> example_state t' [] 104"
proof -
  obtain t1 w1 where f: "forward_loop example_env 7 (t_forward t) t False 100000 (called (called w)) = Some (True, t1, w1)"
    "example_state t1 [] 104"
    using assms by (simp add: forward_loop.simps new_segment_def seg_left_def slice_def sys_send_def example_env_def Let_def
        example_state_def)
  obtain t2 w2 where a: "tcp_acknowledge example_env 7 True t1 w1 = (t2, w2)" "example_state t2 [] 104"
  proof -
    let ?t = "t1\<lparr>t_recv_window := 65535\<rparr>"
    obtain w3 where n: "get_receive_window example_env 7 t1 w1 = (65535, w3)"
      using f(2) by (simp add: get_receive_window_def get_receive_buffer_def ask_def example_env_def Let_def example_state_def)
    obtain w4 where "write_ack example_env ?t w3 = (0, ?t, w4)"
      using example_write_or_close unfolding write_ack_def by blast
    then show thesis using f(2) n that by (simp add: tcp_acknowledge_def Let_def sys_time_def example_state_def)
  qed
  have "tcp_forward example_env 7 t 4 w = Some (t2, w2)"
    using f(1) a(1) by (simp add: tcp_forward_def get_receive_buffer_def ask_def example_env_def Let_def)
  then show ?thesis using a(2) assms
    by (simp add: check_tcp_socket_def example_ng_def tcp_read_def example_state_def Let_def)
qed

lemma example_received:
  assumes "example_state t [] 104"
  shows "\<exists>t' w'. check_tcp_socket example_server example_ng t 1 w = Some (example_ng, t', w') \<and> t_state t' = TCP_ESTABLISHED \<and>
    t_dest t' = 80 \<and> t_version t' = 4 \<and> t_local_start t' = 5000 \<and> downloaded (w_out w') = downloaded (w_out w) @ [5, 6]"
proof -
  obtain w1 where n: "get_receive_window example_server 7 t w = (65535, w1)" and w1: "w_out w1 = w_out w"
    using assms by (simp add: get_receive_window_def get_receive_buffer_def ask_def example_server_def example_env_def Let_def example_state_def)
  have "tcp_forward example_server 7 t 1 w = Some (t, w1)"
    using assms n by (simp add: tcp_forward_def tcp_acknowledge_def example_state_def Let_def)
  have sw: "get_send_window t = 460" using assms by (simp add: get_send_window_def example_state_def Let_def)
  obtain tm where tm: "sys_time example_server w1 = (tm, called w1)" by (simp add: sys_time_def)
  let ?t = "t\<lparr>t_time := tm, t_received := t_received t + 2\<rparr>" and ?w = "emit (Received 7 [5, 6]) (called (called w1))"
  obtain w2 p where wd: "write_data example_server ?t [5, 6] ?w = (0, ?t, w2)" and w2: "w_out w2 = w_out ?w @ [TunWrite p]"
    using example_write_data by blast
  have tun: "downloaded [Received 7 [5, 6], TunWrite p] = [5, 6]" by (simp add: downloaded_def)
  have "sys_recv example_server 7 460 (called w1) = (RecvData [5, 6], ?w)"
    by (simp add: sys_recv_def example_server_def)
  then show ?thesis using assms n wd tm sw w1 w2 tun \<open>tcp_forward _ _ _ _ _ = _\<close>
    by (simp add: check_tcp_socket_def example_ng_def tcp_read_def tcp_read_data_def example_state_def Let_def view_Received)
qed


lemma example_queued:
  "\<exists>t w. reach run_init (run_step [7, 8, 9]) (example_ng, t, w) \<and> example_state t [new_segment 101 True [7, 8, 9]] 101"
proof -
  have r0: "reach run_init (run_step [7, 8, 9]) (example_ng, example_conn, example_world)"
    using example_run_init by (rule reach_init)
  obtain tm w1 where 1: "check_tcp_socket example_env example_ng example_conn 4 example_world = Some (example_ng,
      example_conn\<lparr>t_socks5 := SOCKS5_CONNECTED, t_remote_seq := 101, t_time := tm, t_local_seq := 5001, t_state := TCP_SYN_RECV\<rparr>, w1)"
    using example_connected by blast
  let ?t1 = "example_conn\<lparr>t_socks5 := SOCKS5_CONNECTED, t_remote_seq := 101, t_time := tm, t_local_seq := 5001, t_state := TCP_SYN_RECV\<rparr>"
  have l: "t_state example_conn = TCP_LISTEN" "t_remote_start ?t1 = 100" "s_socket example_ng = 7"
    by (simp_all add: example_conn_def new_tcp_def example_syn_def example_ng_def)
  from r0 run_connecting [OF l(1) 1] have r1: "reach run_init (run_step [7, 8, 9]) (example_ng, ?t1, example_world\<lparr>w_calls := w_calls w1\<rparr>)"
    by (rule reach_step)
  obtain t2 w2 where 2: "tcp_known example_env 7 [7, 8, 9] 0 3 example_data ?t1 (example_world\<lparr>w_calls := w_calls w1\<rparr>) = Some (True, t2, w2)"
    "example_state t2 [new_segment 101 True [7, 8, 9]] 101"
    using example_sent [OF refl] by blast
  have "client_segment [7, 8, 9] (t_remote_start ?t1) [7, 8, 9] 0 3 example_data"
    unfolding l(2) by (simp add: client_segment_def holds_def example_data_def example_syn_def slice_def exI [of _ "0 :: nat"])
  with 2(1) have "run_step [7, 8, 9] (example_ng, ?t1, example_world\<lparr>w_calls := w_calls w1\<rparr>) (example_ng, t2, w2)"
    using run_segment [of example_env example_ng] unfolding l(3) by blast
  with r1 have "reach run_init (run_step [7, 8, 9]) (example_ng, t2, w2)" by (rule reach_step)
  with 2(2) show ?thesis by blast
qed

lemma example_run:
  "\<exists>t w. reach run_init (run_step [7, 8, 9]) (example_ng, t, w) \<and> example_state t [] 104"
proof -
  obtain t2 w2 where r2: "reach run_init (run_step [7, 8, 9]) (example_ng, t2, w2)"
    "example_state t2 [new_segment 101 True [7, 8, 9]] 101" using example_queued by blast
  obtain t3 w3 where 3: "check_tcp_socket example_env example_ng t2 4 w2 = Some (example_ng, t3, w3)" "example_state t3 [] 104"
    using example_forwarded [OF r2(2)] by blast
  have "t_state t2 \<noteq> TCP_LISTEN" using r2(2) by (simp add: example_state_def)
  with r2(1) have "reach run_init (run_step [7, 8, 9]) (example_ng, t3, w3)" by (auto intro: reach_step run_socket 3(1))
  then show ?thesis using 3(2) by blast
qed

lemma prefix_full: "prefix xs ys \<Longrightarrow> length xs = length ys \<Longrightarrow> xs = ys"
  by (auto simp: prefix_def)

theorem tcp_upload_prefix_witness:
  "\<exists>s t w. reach run_init (run_step [7, 8, 9]) (s, t, w) \<and> delivered (w_out w) = [7, 8, 9]"
proof -
  obtain t w where r: "reach run_init (run_step [7, 8, 9]) (example_ng, t, w)" "example_state t [] 104" using example_run by blast
  have "length (delivered (w_out w)) = 3" "prefix (delivered (w_out w)) [7, 8, 9]"
    using tcp_upload_prefix [OF r(1)] r(2) by (auto simp: example_state_def)
  then show ?thesis using r(1) prefix_full by fastforce
qed

theorem tcp_download_in_order_witness:
  "\<exists>s t w. reach run_init (run_step [7, 8, 9]) (s, t, w) \<and> t_local_seq t = 5003 \<and>
     concat (map snd (client_segments 4 (w_out w))) = downloaded (w_out w)"
proof -
  obtain t w where r: "reach run_init (run_step [7, 8, 9]) (example_ng, t, w)" "example_state t [] 104" using example_run by blast
  obtain t' w' where 1: "check_tcp_socket example_server example_ng t 1 w = Some (example_ng, t', w')" "t_state t' = TCP_ESTABLISHED"
    "t_dest t' = 80" "t_version t' = 4" "t_local_start t' = 5000" "downloaded (w_out w') = downloaded (w_out w) @ [5, 6]"
    using example_received [OF r(2)] by blast
  have "t_state t \<noteq> TCP_LISTEN" using r(2) by (simp add: example_state_def)
  with r(1) have r': "reach run_init (run_step [7, 8, 9]) (example_ng, t', w')" by (auto intro: reach_step run_socket 1(1))
  have "t_local_seq t = 5001 + of_nat (length (downloaded (w_out w)))"
    using tcp_download_in_order [OF r(1)] r(2) by (auto simp: example_state_def)
  moreover have "concat (map snd (client_segments 4 (w_out w'))) = downloaded (w_out w')"
    "t_local_seq t' = 5001 + of_nat (length (downloaded (w_out w')))"
    using tcp_download_in_order [OF r'] 1(2-5) by simp_all
  ultimately show ?thesis using r' 1(6) r(2)
    by (intro exI [of _ example_ng] exI [of _ t'] exI [of _ w']) (simp add: example_state_def)
qed


end
