(* ===== verification/Ng_Tcp_Progress.thy ===== *)
theory Ng_Tcp_Progress
  imports Ng_Tcp_Run_Props
begin

text \<open>
  Progress of the upload: while the server takes what it is given, one event of a writable socket
  moves everything of the queue that is in order.
\<close>

section \<open>What is in order\<close>

text \<open>The number of bytes that can be forwarded, from the sequence number expected next.\<close>

fun pending :: "u32 \<Rightarrow> segment list \<Rightarrow> nat" where
  "pending r [] = 0"
| "pending r (g # gs) =
     (if g_seq g = r then unat (g_len g) - unat (g_sent g) + pending (g_seq g + ucast (g_len g)) gs else 0)"

definition backlog :: "segment list \<Rightarrow> nat" where
  "backlog q = sum_list (map (\<lambda>g. unat (g_len g) - unat (g_sent g)) q)"

lemma unat_seg_left: "g_sent g \<le> g_len g \<Longrightarrow> unat (seg_left g) = unat (g_len g) - unat (g_sent g)"
  using unat_u16_lt [of "g_len g"] unat_u16_lt [of "g_sent g"]
  by (simp add: seg_left_def unat_sub_if' unsigned_ucast_eq word_le_nat_alt take_bit_nat_eq_self)

text \<open>A kernel that takes all of every send.\<close>

definition willing :: "env \<Rightarrow> int \<Rightarrow> bool" where
  "willing E sock \<longleftrightarrow> (\<forall>k b. int (length b) \<le> fst (e_send E k sock b))"

lemma sys_send_willing:
  assumes "willing E sock"
  shows "\<exists>err w'. sys_send E sock b m w = ((int (length b), err), w') \<and> delivered (w_out w') = delivered (w_out w) @ b"
proof -
  have "int (length b) \<le> fst (e_send E (w_calls w) sock b)" using assms by (simp add: willing_def)
  then show ?thesis by (auto simp: sys_send_def Let_def split: prod.splits)
qed

lemma forward_loop_drains:
  assumes "willing E sock" and "\<forall>g\<in>set q. g_sent g \<le> g_len g \<and> length (g_data g) = unat (g_len g)"
    and "backlog q < unat bs"
  shows "\<exists>fwd' t' w'. forward_loop E sock q t fwd bs w = Some (fwd', t', w') \<and>
    length (delivered (w_out w')) = length (delivered (w_out w)) + pending (t_remote_seq t) q"
  using assms(2,3)
proof (induction q arbitrary: t fwd bs w)
  case (Cons g q)
  show ?case
  proof (cases "g_seq g = t_remote_seq t")
    case True
    let ?n = "unat (g_len g) - unat (g_sent g)"
    let ?b = "take ?n (drop (unat (g_sent g)) (g_data g))"
    have le: "g_sent g \<le> g_len g" "unat (g_sent g) \<le> unat (g_len g)" "length (g_data g) = unat (g_len g)"
      using Cons.prems(1) by (simp_all add: word_le_nat_alt)
    have lb: "length ?b = ?n" using le by simp
    obtain err w1 where s: "sys_send E sock ?b (\<not> g_psh g) w = ((int ?n, err), w1)"
      "delivered (w_out w1) = delivered (w_out w) @ ?b"
      using sys_send_willing [OF assms(1), of ?b] unfolding lb by blast
    have sl: "seg_left g < bs" "?n < unat bs"
      using Cons.prems(2) le(1) unat_seg_left [of g] by (auto simp: word_less_nat_alt backlog_def)
    have full: "g_len g = g_sent g + of_nat ?n" using le(2) by (simp add: of_nat_diff)
    have "unat (bs - of_nat ?n) = unat bs - ?n"
      using sl(2) unat_u32_lt [of bs] unat_of_nat32 [of ?n] by (simp add: unat_sub_if' word_le_nat_alt del: unat_of_nat)
    then have "backlog q < unat (bs - of_nat ?n)" using Cons.prems(2) by (simp add: backlog_def)
    then obtain fwd' t' w' where f: "forward_loop E sock q (t\<lparr>t_sent := t_sent t + of_nat ?n, t_remote_seq := g_seq g + ucast (g_len g)\<rparr>)
        True (bs - of_nat ?n) w1 = Some (fwd', t', w')"
      "length (delivered (w_out w')) = length (delivered (w_out w1)) + pending (g_seq g + ucast (g_len g)) q"
      using Cons.IH [of "bs - of_nat ?n" "t\<lparr>t_sent := t_sent t + of_nat ?n, t_remote_seq := g_seq g + ucast (g_len g)\<rparr>"] Cons.prems(1)
      by fastforce
    have "slice (g_data g) (unat (g_sent g)) ?n = Some ?b" using le by (simp add: slice_def)
    then have "forward_loop E sock (g # q) t fwd bs w = Some (fwd', t', w')"
      unfolding forward_loop.simps(2) using True le(1) sl(1) s(1) full f(1) by (simp add: Let_def del: of_nat_diff)
    then show ?thesis using f(2) s(2) lb True by simp
  qed (simp add: forward_loop.simps)
qed simp

section \<open>The socket event\<close>

lemma delivered_acknowledge:
  assumes "typed t" and "tcp_acknowledge E sock fwd t w = (t', w')"
  shows "delivered (w_out w') = delivered (w_out w)"
proof -
  obtain x w1 where 1: "get_receive_window E sock t w = (x, w1)" by (metis prod.exhaust)
  have q: "quiet (t_version t) w w1" using 1 by (rule quiet_intro)
  have a: "quiet (t_version t) w w2" if "write_ack E t1 w1 = (r, t2, w2)" "typed t1" "t_version t1 = t_version t" for r t1 t2 w2
    using quiet_write(2) [OF that(2,1)] that(3) quiet_trans [OF q] by simp
  have "quiet (t_version t) w w'"
    using assms 1 q by (auto simp: tcp_acknowledge_def Let_def typed_def split: prod.splits if_split_asm
        intro: quiet_trans [OF a quiet_sys(1)] a)
  then show ?thesis by (rule quiet_views(1))
qed

text \<open>C7: progress of the upload, in every run of a TCP session of a client that sends less than \<open>2^31 - 1\<close> bytes
  (and none with the SYN), behind the handshake: when the socket becomes writable, has room for what is
  queued, the kernel takes what it is given, and the first queued segment has not been shortened below the
  part of it that was sent already, then everything that is in order is given to the server at once: the
  bytes delivered grow by exactly the bytes that continue the stream, and when these reach its end, the
  server has the whole stream. (A retransmission that shortens a partly sent segment stalls the queue.)\<close>

theorem tcp_upload_progress:
  assumes "reach run_init (run_step stream) (s, t, w)" and "length stream < 2147483647"
    and "t_state t \<noteq> TCP_LISTEN" and "willing E (s_socket s)"
    and "t_forward t = [] \<or> g_sent (hd (t_forward t)) \<le> g_len (hd (t_forward t))"
    and "get_receive_buffer E (s_socket s) w = (bs, w0)" and "backlog (t_forward t) < unat bs"
  shows "\<exists>t' w'. check_tcp_socket E s t EPOLLOUT w = Some (s, t', w') \<and>
    length (delivered (w_out w')) = length (delivered (w_out w)) + pending (t_remote_seq t) (t_forward t) \<and>
    prefix (delivered (w_out w')) stream \<and>
    (length (delivered (w_out w)) + pending (t_remote_seq t) (t_forward t) = length stream \<longrightarrow> delivered (w_out w') = stream)"
proof -
  have c: "conn stream t w" using tcp_run.reach_inv [OF assms(1)] assms(2) by (simp add: run_inv_def)
  have q: "quiet (t_version t) w w0" using assms(6) by (rule quiet_intro)
  then have c0: "conn stream (t\<lparr>t_forward := t_forward t\<rparr>) w0" by (auto intro: conn_like [OF c])
  have "\<forall>g\<in>set (t_forward t). g_sent g \<le> g_len g \<and> length (g_data g) = unat (g_len g)"
    using c assms(5)
    by (cases "t_forward t") (auto simp: conn_def upload_def upload_at_def queue_ok_def holds_def)
  from forward_loop_drains [OF assms(4) this assms(7)]
  obtain fwd t1 w1 where f: "forward_loop E (s_socket s) (t_forward t) t False bs w0 = Some (fwd, t1, w1)"
    "length (delivered (w_out w1)) = length (delivered (w_out w0)) + pending (t_remote_seq t) (t_forward t)" by blast
  have c1: "conn stream t1 w1" by (rule conn_forward_loop [OF f(1) c0 assms(3,2)])
  obtain t' w' where a: "tcp_acknowledge E (s_socket s) fwd t1 w1 = (t', w')" by (metis prod.exhaust)
  have d: "delivered (w_out w') = delivered (w_out w1)" using delivered_acknowledge [OF _ a] c1 by (simp add: conn_def)
  have "check_tcp_socket E s t EPOLLOUT w = Some (s, t', w')"
    using assms(3,6) f(1) a by (simp add: check_tcp_socket_def tcp_forward_def tcp_read_def)
  moreover obtain n where "n \<le> length stream" "delivered (w_out w') = take n stream"
    using c1 d by (auto simp: conn_def upload_def)
  ultimately show ?thesis using f(2) d quiet_views(1) [OF q] by (auto simp: take_is_prefix)
qed

theorem tcp_upload_progress_witness:
  "\<exists>t w t' w'. reach run_init (run_step [7, 8, 9]) (example_ng, t, w) \<and>
     check_tcp_socket example_env example_ng t 4 w = Some (example_ng, t', w') \<and> delivered (w_out w') = [7, 8, 9]"
proof -
  obtain t w where r: "reach run_init (run_step [7, 8, 9]) (example_ng, t, w)"
    "example_state t [new_segment 101 True [7, 8, 9]] 101" using example_queued by blast
  have f: "t_state t = TCP_ESTABLISHED" "t_forward t = [new_segment 101 True [7, 8, 9]]" "t_remote_seq t = 101"
    using r(2) by (simp_all add: example_state_def)
  have w: "willing example_env (s_socket example_ng)" by (simp add: willing_def example_env_def)
  obtain bs w0 where b: "get_receive_buffer example_env (s_socket example_ng) w = (bs, w0)" "unat bs = 100000"
    by (simp add: get_receive_buffer_def ask_def example_env_def example_ng_def Let_def)
  have p: "pending 101 [new_segment 101 True [7, 8, 9]] = 3" "backlog [new_segment 101 True [7, 8, 9]] = 3"
    by (simp_all add: new_segment_def backlog_def)
  obtain n where n: "n \<le> 3" "delivered (w_out w) = take n [7, 8, 9]" "upload_at [7, 8, 9] t n"
    using tcp_run.reach_inv [OF r(1)] by (auto simp: run_inv_def conn_def upload_def numeral_3_eq_3)
  have "t_remote_start t = 100" using r(2) by (simp add: example_state_def)
  then have "(of_nat n :: u32) = 0" using n(3) f by (auto simp: upload_at_def head_sent_def new_segment_def)
  then have "n = 0" using unat_of_nat32 [of n] n(1) by simp
  then have "length (delivered (w_out w)) = 0" using n(2) by simp
  then show ?thesis
    using tcp_upload_progress [OF r(1) _ _ w _ b(1)] f p b(2) r(1) by (auto simp: new_segment_def)
qed

section \<open>Flow control\<close>

lemma tcp_eof_moves:
  assumes "tcp_eof E s t w = (s', t', w')"
  shows "t_acked t' = t_acked t \<and> t_send_window t' = t_send_window t \<and>
    (\<exists>n \<le> 1. t_local_seq t' = t_local_seq t + of_nat n)"
proof (cases "t_forward t = []")
  case True
  obtain r t1 w1 where 1: "write_fin_ack E t w = (r, t1, w1)" by (metis prod.exhaust)
  then show ?thesis
    using assms True write_result(4) [OF 1] by (auto simp: tcp_eof_def Let_def intro: exI [of _ "0 :: nat"] exI [of _ "1 :: nat"])
qed (use assms in \<open>auto simp: tcp_eof_def split: prod.splits dest!: write_rst_result intro: exI [of _ "0 :: nat"]\<close>)

lemma tcp_read_data_moves:
  assumes "tcp_read_data E t b w = Some (t', w')"
  shows "t_acked t' = t_acked t \<and> t_send_window t' = t_send_window t \<and>
    (\<exists>n \<le> length b. t_local_seq t' = t_local_seq t + of_nat n)"
  using assms(1)
proof (cases rule: tcp_read_data_cases)
  case (1 b1 w1 r t1)
  have "length b1 = length b"
  proof (cases "t_dest t = 53 \<and> length b > 2")
    case True
    obtain d n w2 where "parse_dns_response E (drop 2 b) w = Some ((d, n), w2)" "length d = length (drop 2 b)"
      using parse_dns_response_ok by blast
    then show ?thesis using 1(1) True by auto
  qed (use 1(1) in auto)
  then show ?thesis using 1(3) write_result(3) [OF 1(2)]
    by (auto intro: exI [of _ "0 :: nat"] exI [of _ "length b"])
qed

text \<open>What a read moves, against the window that was computed before it.\<close>

lemma tcp_read_moves:
  assumes r: "tcp_read E s t ev w = Some (s', t', w')"
  shows "t_acked t' = t_acked t \<and> t_send_window t' = t_send_window t \<and>
    (\<exists>n. t_local_seq t' = t_local_seq t + of_nat n \<and> n \<le> unat (get_send_window t) \<and> n \<le> max 1 (unat (t_mss t)))"
proof (cases "ev AND EPOLLIN \<noteq> 0 \<and> get_send_window t > 0")
  case False
  then show ?thesis using r by (auto simp: tcp_read_def intro: exI [of _ "0 :: nat"])
next
  case True
  let ?n = "if get_send_window t > ucast (t_mss t) then ucast (t_mss t) else get_send_window t"
  obtain tm w1 where tm: "sys_time E w = (tm, w1)" by (cases "sys_time E w")
  let ?t = "t\<lparr>t_time := tm\<rparr>"
  obtain res w2 where recv: "sys_recv E (s_socket s) (unat ?n) w1 = (res, w2)" by (metis prod.exhaust)
  have pos: "1 \<le> unat (get_send_window t)" using True by (simp add: word_less_nat_alt)
  have m: "unat (ucast (t_mss t) :: u32) = unat (t_mss t)"
    using unat_u16_lt [of "t_mss t"] by (simp add: unsigned_ucast_eq take_bit_nat_eq_self)
  have n: "unat ?n \<le> unat (get_send_window t)" "unat ?n \<le> unat (t_mss t)"
    using m by (auto simp: word_less_nat_alt)
  show ?thesis
  proof (cases res)
    case (RecvError err)
    then show ?thesis using r True tm recv
      by (auto simp: tcp_read_def Let_def split: if_split_asm prod.splits dest!: write_rst_result intro: exI [of _ "0 :: nat"])
  next
    case (RecvData b)
    have b: "length b \<le> unat ?n" using recv RecvData by (auto simp: sys_recv_def split: recv_result.splits)
    have k: "if b = [] then tcp_eof E s ?t w2 = (s', t', w') else tcp_read_data E ?t b w2 = Some (t', w')"
      using r True tm recv RecvData by (auto simp: tcp_read_def Let_def bind_eq_Some_conv split: if_split_asm)
    show ?thesis
    proof (cases "b = []")
      case True
      then obtain j where "j \<le> 1" "t_local_seq t' = t_local_seq t + of_nat j" "t_acked t' = t_acked t"
        "t_send_window t' = t_send_window t" using k tcp_eof_moves [of E s ?t w2] by auto
      then show ?thesis using pos by (intro conjI exI [of _ j]) auto
    next
      case False
      then obtain j where "j \<le> length b" "t_local_seq t' = t_local_seq t + of_nat j" "t_acked t' = t_acked t"
        "t_send_window t' = t_send_window t" using k tcp_read_data_moves [of E ?t b w2] by auto
      then show ?thesis using b n by (intro conjI exI [of _ j]) auto
    qed
  qed
qed

lemma unat_behind:
  assumes "unat d < 2147549184"
  shows "unat (d + ((ucast (u :: u16) :: u32) + 1) * 40) = unat d + (unat u + 1) * 40"
proof -
  have c: "unat (ucast u :: u32) = unat u" using unat_u16_lt [of u] by (simp add: unsigned_ucast_eq take_bit_nat_eq_self)
  then have "unat ((ucast u :: u32) + 1) = unat u + 1" using unat_u16_lt [of u] by (simp add: unat_word_ariths)
  then have "unat (((ucast u :: u32) + 1) * 40) = (unat u + 1) * 40" using c unat_u16_lt [of u] by (simp add: unat_word_ariths)
  then show ?thesis using unat_u16_lt [of u] assms by (subst unat_word_ariths) simp
qed

lemma send_window_bound:
  assumes "t_acked t \<le> t_local_seq t" and "unat (t_local_seq t - t_acked t) < 2147483648" and "0 < get_send_window t"
  shows "unat (t_local_seq t - t_acked t) + 40 + unat (get_send_window t) \<le> unat (t_send_window t)"
proof -
  let ?d = "t_local_seq t - t_acked t" and ?u = "ucast (t_unconfirmed t) :: u32"
  have b: "unat (?d + (?u + 1) * 40) = unat ?d + (unat (t_unconfirmed t) + 1) * 40"
    using assms(2) by (intro unat_behind) simp
  have w: "?d + (?u + 1) * 40 < t_send_window t" "get_send_window t = t_send_window t - (?d + (?u + 1) * 40)"
    using assms(1,3) by (auto simp: get_send_window_def Let_def split: if_split_asm)
  have "unat (get_send_window t) = unat (t_send_window t) - unat (?d + (?u + 1) * 40)"
    unfolding w(2) using w(1) by (simp add: unat_sub less_imp_le)
  then show ?thesis using w(1) b by (simp add: word_less_nat_alt)
qed

text \<open>C16: flow control: as long as \<open>acked\<close> is not above \<open>local_seq\<close> as a 32-bit number (no wrap-around lies between
  them, where \<open>get_send_window\<close> counts wrongly) and less than \<open>2^31\<close> bytes are in flight, a read from the server
  puts no more before the client than its window allows: the bytes in flight, with the 40 bytes of header
  the window is charged for the new segment, stay within it, and a segment is at most one \<open>mss\<close> (or one
  FIN). This includes DNS answers on port 53, whose bytes may be changed but not their number.\<close>

theorem tcp_flow_control:
  assumes "tcp_read E s t ev w = Some (s', t', w')"
    and "t_acked t \<le> t_local_seq t" and "unat (t_local_seq t - t_acked t) < 2147483648"
  shows "t_acked t' = t_acked t \<and> t_send_window t' = t_send_window t \<and>
    (t_local_seq t' = t_local_seq t \<or>
     unat (t_local_seq t' - t_acked t') + 40 \<le> unat (t_send_window t') \<and>
     unat (t_local_seq t' - t_local_seq t) \<le> max 1 (unat (t_mss t)))"
proof -
  obtain n where n: "t_acked t' = t_acked t" "t_send_window t' = t_send_window t" "t_local_seq t' = t_local_seq t + of_nat n"
    "n \<le> unat (get_send_window t)" "n \<le> max 1 (unat (t_mss t))"
    using tcp_read_moves [OF assms(1)] by blast
  show ?thesis
  proof (cases "n = 0")
    case False
    then have "unat (t_local_seq t - t_acked t) + 40 + unat (get_send_window t) \<le> unat (t_send_window t)"
      using n(4) by (intro send_window_bound [OF assms(2,3)]) (auto simp: word_less_nat_alt)
    moreover have u: "unat (of_nat n :: u32) = n" using n(4) unat_u32_lt [of "get_send_window t"] by (intro unat_of_nat32) simp
    have "t_local_seq t' - t_acked t' = (t_local_seq t - t_acked t) + of_nat n" by (simp add: n)
    then have "unat (t_local_seq t' - t_acked t') \<le> unat (t_local_seq t - t_acked t) + n"
      using u unat_word_ariths(1) [of "t_local_seq t - t_acked t" "of_nat n"] by simp
    ultimately show ?thesis using n u by simp
  qed (use n in simp)
qed

text \<open>When the numbers have wrapped between the two, a window of up to \<open>2^16\<close> bytes counts as full.\<close>

lemma send_window_wrapped:
  assumes "t_local_seq t < t_acked t" and "unat (t_local_seq t - t_acked t) < 2147483648" and "t_send_window t \<le> 0x10000"
  shows "get_send_window t = 0"
proof -
  let ?d = "t_local_seq t - t_acked t"
  have d: "unat (?d + 0x10000) = unat ?d + 65536" using assms(2) by (subst unat_word_ariths) simp
  then have "unat (?d + 0x10000 + ((ucast (t_unconfirmed t) :: u32) + 1) * 40) = unat ?d + 65536 + (unat (t_unconfirmed t) + 1) * 40"
    using assms(2) by (subst unat_behind) simp_all
  then have "\<not> ?d + 0x10000 + ((ucast (t_unconfirmed t) :: u32) + 1) * 40 < t_send_window t"
    using assms(3) by (simp add: word_less_nat_alt word_le_nat_alt)
  moreover have "0x10000 + t_local_seq t - t_acked t = ?d + 0x10000" by simp
  moreover have "\<not> t_acked t \<le> t_local_seq t" using assms(1) by simp
  ultimately show ?thesis by (simp only: get_send_window_def Let_def if_False)
qed

text \<open>Two bytes from the server on the example connection.\<close>

theorem tcp_flow_control_witness:
  "\<exists>t (w :: world) t' w'. tcp_read example_server example_ng t 1 w = Some (example_ng, t', w') \<and> t_local_seq t = 5001 \<and>
     t_send_window t = 500 \<and> unat (t_local_seq t' - 5001) \<le> 460"
proof -
  obtain t and w :: world where t: "example_state t [] 104" using example_run by blast
  obtain x where x: "tcp_read example_server example_ng t 1 w = Some (example_ng, x)"
  proof -
    have g: "get_send_window t = 460" using t by (simp add: get_send_window_def example_state_def Let_def)
    let ?w = "emit (Received 7 [5, 6]) (called (called w))"
    have v: "sys_recv example_server 7 460 (called w) = (RecvData [5, 6], ?w)"
      by (simp add: sys_recv_def example_server_def)
    obtain tm where tm: "sys_time example_server w = (tm, called w)" by (simp add: sys_time_def)
    let ?t = "t\<lparr>t_time := tm, t_received := t_received t + 2\<rparr>"
    obtain w2 where wd: "write_data example_server ?t [5, 6] ?w = (0, ?t, w2)" using example_write_data by blast
    have "t_dest t \<noteq> 53" "t_mss t = 9960" using t by (simp_all add: example_state_def)
    then show thesis using that g v tm wd by (simp add: tcp_read_def tcp_read_data_def Let_def example_ng_def)
  qed
  obtain t' w' where r: "tcp_read example_server example_ng t 1 w = Some (example_ng, t', w')" using x by (cases x) simp
  show ?thesis using tcp_flow_control [OF r] t r
    by (intro exI [of _ t] exI [of _ w] exI [of _ t'] exI [of _ w']) (auto simp: example_state_def)
qed

section \<open>Flow control of the upload\<close>

text \<open>The bytes of the queue that are still to be sent.\<close>

definition queued_bytes :: "segment list \<Rightarrow> nat" where
  "queued_bytes q = (\<Sum>g\<leftarrow>q. unat (g_len g) - unat (g_sent g))"

lemma queued_sum:
  "\<forall>g\<in>set q. g_sent g \<le> g_len g \<Longrightarrow> foldl (\<lambda>n g. n + seg_left g) a q = a + of_nat (queued_bytes q)"
proof (induction q arbitrary: a)
  case (Cons g q)
  have "seg_left g = of_nat (unat (g_len g) - unat (g_sent g))"
    using Cons.prems by (simp add: seg_left_def word_le_nat_alt of_nat_diff)
  then show ?case using Cons by (simp add: queued_bytes_def)
qed (simp add: queued_bytes_def)

lemma receive_window_room:
  assumes "get_receive_window E sock t w = (window, w')" and "\<forall>g\<in>set (t_forward t). g_sent g \<le> g_len g"
    and "queued_bytes (t_forward t) < 4294967296" and "unat (t_recv_scale t) \<le> 14"
  shows "unat window \<le> 65535 * 2 ^ unat (t_recv_scale t)"
    and "window \<noteq> 0 \<Longrightarrow> unat window + queued_bytes (t_forward t) \<le> unat (fst (get_receive_buffer E sock w))"
proof -
  obtain room w1 where r: "get_receive_buffer E sock w = (room, w1)" by (metis prod.exhaust)
  let ?max = "push_bit (unat (t_recv_scale t)) 0xFFFF :: u32"
  let ?win = "if room > ?max then ?max else room"
  let ?q = "of_nat (queued_bytes (t_forward t)) :: u32"
  have q: "unat ?q = queued_bytes (t_forward t)" using assms(3) by (rule unat_of_nat32)
  have "(65535 :: nat) * 2 ^ unat (t_recv_scale t) \<le> 65535 * 2 ^ 14" using assms(4) by (intro mult_le_mono2 power_increasing) simp_all
  then have max: "unat ?max = 65535 * 2 ^ unat (t_recv_scale t)"
    by (simp add: unsigned_push_bit_eq push_bit_nat_def unat_take_id mult.commute)
  have w: "window = (if ?q < ?win then ?win - ?q else 0)"
    using assms(1) r queued_sum [OF assms(2), of 0] by (simp add: get_receive_window_def Let_def)
  have le: "unat ?win \<le> unat ?max" "unat ?win \<le> unat room" by (auto simp: word_less_nat_alt)
  have sub: "unat window = unat ?win - queued_bytes (t_forward t)" "queued_bytes (t_forward t) < unat ?win" if "?q < ?win"
    using w q that by (simp_all add: unat_sub word_less_nat_alt less_imp_le word_le_nat_alt)
  show "unat window \<le> 65535 * 2 ^ unat (t_recv_scale t)"
    using w sub(1) le(1) max by (cases "?q < ?win") simp_all
  show "window \<noteq> 0 \<Longrightarrow> unat window + queued_bytes (t_forward t) \<le> unat (fst (get_receive_buffer E sock w))"
    using w sub le(2) r by (cases "?q < ?win") simp_all
qed

text \<open>C17: the window the client is offered when the receive window has just been computed: the field in the header of
  a segment, scaled, and the bytes already queued fit the room in the send buffer of the socket at that
  time, or the field is 0. It needs a scale of at most 14, less than \<open>2^32\<close> queued bytes, and that no queued
  segment has been shortened below the part of it that was sent. (Segments sent between two computations
  repeat the window of the last one, which may be out of date.)\<close>

theorem receive_window_fits:
  assumes "get_receive_window E sock t w = (window, w')" and "\<forall>g\<in>set (t_forward t). g_sent g \<le> g_len g"
    and "queued_bytes (t_forward t) < 4294967296" and "unat (t_recv_scale t) \<le> 14"
    and "field = tcp_window (t\<lparr>t_recv_window := window\<rparr>)"
  shows "field = 0 \<or>
    unat field * 2 ^ unat (t_recv_scale t) + queued_bytes (t_forward t) \<le> unat (fst (get_receive_buffer E sock w))"
proof (cases "window = 0")
  case True
  then show ?thesis using assms(5) by (simp add: tcp_window_def)
next
  case False
  let ?s = "unat (t_recv_scale t)"
  note room = receive_window_room [OF assms(1-4)]
  have "unat (drop_bit ?s window) = unat window div 2 ^ ?s" by (simp add: unat_drop_bit_eq drop_bit_nat_def)
  moreover have "unat window div 2 ^ ?s \<le> 65535" using room(1) div_le_mono [OF room(1), of "2 ^ ?s"] by simp
  ultimately have "unat field = unat window div 2 ^ ?s"
    using assms(5) by (simp add: tcp_window_def unsigned_ucast_eq unat_take_id)
  then have "unat field * 2 ^ ?s \<le> unat window" by simp
  then show ?thesis using room(2) [OF False] by simp
qed

theorem receive_window_fits_witness:
  "\<exists>window w'. get_receive_window example_env 7 (example_tcp\<lparr>t_forward := example_queue\<rparr>) example_world = (window, w') \<and>
     unat (tcp_window (example_tcp\<lparr>t_recv_window := window\<rparr>)) = 24998 \<and> 24998 * 2 ^ 2 + queued_bytes example_queue \<le> 100000"
proof -
  let ?t = "example_tcp\<lparr>t_forward := example_queue\<rparr>"
  have buf: "fst (get_receive_buffer example_env 7 example_world) = 100000"
    by (simp add: get_receive_buffer_def ask_def example_env_def Let_def)
  have q: "\<forall>g\<in>set (t_forward ?t). g_sent g \<le> g_len g" "queued_bytes (t_forward ?t) < 4294967296" "unat (t_recv_scale ?t) \<le> 14"
    by (simp_all add: example_queue_def new_segment_def queued_bytes_def example_tcp_def)
  obtain w' where g: "get_receive_window example_env 7 ?t example_world = (99995, w')"
    using buf queued_sum [OF q(1), of 0]
    by (cases "get_receive_buffer example_env 7 example_world")
      (simp add: get_receive_window_def Let_def example_tcp_def example_queue_def new_segment_def queued_bytes_def push_bit_eq_mult)
  have f: "tcp_window (?t\<lparr>t_recv_window := 99995\<rparr>) = 24998" "tcp_window (example_tcp\<lparr>t_recv_window := 99995\<rparr>) = 24998"
    by (simp_all add: tcp_window_def example_tcp_def)
  from receive_window_fits [OF g q refl] show ?thesis using f buf g
    by (intro exI [of _ 99995] exI [of _ w']) (simp add: example_tcp_def)
qed

end
