(* ===== verification/Ng_Udp.thy ===== *)
theory Ng_Udp
  imports Ng_Dns Ng_Timeout Ng_Tcp_Handle
begin

text \<open>
  udp.c and dhcp.c: the UDP sessions and the answer to DHCP requests. As for TCP, a routine that
  gets a session in C gets the \<open>ng_session\<close> and its union member \<open>u\<close>.
\<close>

section \<open>DHCP\<close>

definition DHCP_OPTION_MAGIC_NUMBER :: u32 where
  "DHCP_OPTION_MAGIC_NUMBER = 0x63825363"

text \<open>The options, written one after the other; the lease time is stored in host order.\<close>

definition dhcp_options :: "bool \<Rightarrow> bytes" where
  "dhcp_options discover =
     [53, 1, if discover then 2 else 5] @ [1, 4, 255, 255, 255, 0] @ [3, 4, 10, 1, 10, 1] @
     [51, 4] @ u32_le 3600 @ [54, 4, 10, 1, 10, 1] @ [6, 4, 8, 8, 8, 8] @ [255]"

text \<open>The options are addressed by \<open>response + sizeof(struct dhcp_packet)\<close> on a pointer to the
  struct: an offset of 240 times 240 bytes. The source address of the session is overwritten.\<close>

definition check_dhcp :: "env \<Rightarrow> udp_session \<Rightarrow> bytes \<Rightarrow> world \<Rightarrow> (int \<times> udp_session \<times> world) option" where
  "check_dhcp E u data w =
     (if length data < 240 then Some (-1, u, w)
      else do {
        magic \<leftarrow> rd32 data 236;
        htype \<leftarrow> rd data 1;
        hlen \<leftarrow> rd data 2;
        opcode \<leftarrow> rd data 0;
        siaddr \<leftarrow> slice data 20 4;
        if magic \<noteq> DHCP_OPTION_MAGIC_NUMBER then Some (-1, u, w)
        else if htype \<noteq> 1 \<or> hlen \<noteq> 6 then Some (-1, u, w)
        else if opcode = 1 then do {
          let u = u\<lparr>u_saddr := [10, 1, 10, 1] @ drop 4 (u_saddr u)\<rparr>;
          let discover = siaddr = [0, 0, 0, 0];
          response \<leftarrow> wr (replicate 500 0) 0 (take 240 data);
          response \<leftarrow> wr response 0 [if discover then 2 else 4];
          response \<leftarrow> wr response 8 [0, 0, 0, 0, 0, 0, 0, 0];
          response \<leftarrow> wr response 16 [10, 1, 10, 2, 10, 1, 10, 1, 0, 0, 0, 0];
          response \<leftarrow> wr response (240 * 240) (dhcp_options discover);
          Some (0, u, snd (write_udp E u response w)) }
        else Some (0, u, w) })"

section \<open>The periodic check\<close>

definition check_udp_session :: "env \<Rightarrow> ng_session \<Rightarrow> udp_session \<Rightarrow> int \<Rightarrow> int \<Rightarrow> world \<Rightarrow>
    bool \<times> ng_session \<times> udp_session \<times> world" where
  "check_udp_session E s u sessions maxsessions w =
     (let (now, w) = sys_time E w;
          timeout = get_udp_timeout u sessions maxsessions;
          u = (if u_state u = UDP_ACTIVE \<and> u_time u + timeout < now then u\<lparr>u_state := UDP_FINISHING\<rparr> else u);
          (s, u, w) = (if u_state u = UDP_FINISHING
                       then let w = sys_close (s_socket s) w; (tm, w) = sys_time E w
                            in (s\<lparr>s_socket := -1\<rparr>, u\<lparr>u_time := tm, u_state := UDP_CLOSED\<rparr>, w)
                       else (s, u, w));
          (u, w) = (if u_state u = UDP_CLOSED \<and> (u_sent u \<noteq> 0 \<or> u_received u \<noteq> 0)
                    then (u\<lparr>u_sent := 0, u_received := 0\<rparr>,
                          emit (Account (u_version u) IPPROTO_UDP (u_daddr u) (u_dest u) (u_uid u)
                            (u_sent u) (u_received u)) w)
                    else (u, w))
      in ((u_state u = UDP_CLOSED \<or> u_state u = UDP_BLOCKED) \<and> u_time u + 60 < now, s, u, w))"

section \<open>Data from the socket\<close>

definition udp_received :: "env \<Rightarrow> udp_session \<Rightarrow> bytes \<Rightarrow> world \<Rightarrow> (udp_session \<times> world) option" where
  "udp_received E u b w = do {
     let u = u\<lparr>u_received := u_received u + of_nat (length b)\<rparr>;
     (b, w) \<leftarrow>
       (if u_dest u = 53 then do {
          ((d, n), w) \<leftarrow> parse_dns_response E b w;
          Some (take n d, w) }
        else Some (b, w));
     let (r, w) = write_udp E u b w;
     Some (if r < 0 \<or> u_dest u = 53 then u\<lparr>u_state := UDP_FINISHING\<rparr> else u, w) }"

definition check_udp_socket :: "env \<Rightarrow> ng_session \<Rightarrow> udp_session \<Rightarrow> u32 \<Rightarrow> world \<Rightarrow> (udp_session \<times> world) option" where
  "check_udp_socket E s u events w =
     (if events AND EPOLLERR \<noteq> 0 then
        let (tm, w) = sys_time E w in Some (u\<lparr>u_time := tm, u_state := UDP_FINISHING\<rparr>, w)
      else if events AND EPOLLIN \<noteq> 0 then
        let (tm, w) = sys_time E w;
            u = u\<lparr>u_time := tm\<rparr>
        in (case sys_recv E (s_socket s) (unat (u_mss u)) w of
              (RecvError err, w) \<Rightarrow>
                Some (if err \<noteq> EINTR \<and> err \<noteq> EAGAIN then u\<lparr>u_state := UDP_FINISHING\<rparr> else u, w)
            | (RecvData b, w) \<Rightarrow>
                if b = [] then Some (u\<lparr>u_state := UDP_FINISHING\<rparr>, w) else udp_received E u b w)
      else Some (u, w))"

section \<open>Packets from the client\<close>

definition udp_match :: "nat \<Rightarrow> bytes \<Rightarrow> u16 \<Rightarrow> bytes \<Rightarrow> u16 \<Rightarrow> ng_session \<Rightarrow> bool" where
  "udp_match version saddr source daddr dest s =
     (case s_proto s of
        Udp u \<Rightarrow> u_version u = version \<and> u_source u = source \<and> u_dest u = dest \<and>
          u_saddr u = saddr \<and> u_daddr u = daddr
      | _ \<Rightarrow> False)"

text \<open>The fields all UDP routines read first: version, ports and addresses.\<close>

definition udp_key :: "bytes \<Rightarrow> nat \<Rightarrow> (nat \<times> bytes \<times> u16 \<times> bytes \<times> u16) option" where
  "udp_key buf payload = do {
     b0 \<leftarrow> rd buf 0;
     let version = unat (drop_bit 4 b0);
     source \<leftarrow> rd16 buf payload;
     dest \<leftarrow> rd16 buf (payload + 2);
     (saddr, daddr) \<leftarrow> pkt_addrs buf version;
     Some (version, saddr, source, daddr, dest) }"

definition has_udp_session :: "env \<Rightarrow> bytes \<Rightarrow> nat \<Rightarrow> ng_session list \<Rightarrow> bool option" where
  "has_udp_session E buf payload ss = do {
     (version, saddr, source, daddr, dest) \<leftarrow> udp_key buf payload;
     Some (dest = 53 \<and> \<not> fwd53 E \<or> find (udp_match version saddr source daddr dest) ss \<noteq> None) }"

text \<open>A blocked session: the block comes from \<open>malloc\<close>, and its \<open>mss\<close>, counters and event are not
  set.\<close>

definition block_udp :: "env \<Rightarrow> bytes \<Rightarrow> nat \<Rightarrow> int \<Rightarrow> ng_session list \<Rightarrow> world \<Rightarrow> (ng_session list \<times> world) option" where
  "block_udp E buf payload uid ss w = do {
     (version, saddr, source, daddr, dest) \<leftarrow> udp_key buf payload;
     let (ptr, w) = ask (e_malloc E) w;
     let ((u, ev), w) = ask (e_garbage E) w;
     let (tm, w) = sys_time E w;
     let u = u\<lparr>u_time := tm, u_uid := uid, u_version := version, u_saddr := saddr, u_daddr := daddr,
               u_source := source, u_dest := dest, u_state := UDP_BLOCKED\<rparr>;
     Some (\<lparr>s_ptr = ptr, s_proto = Udp u, s_socket = -1, s_events = ev\<rparr> # ss, w) }"

text \<open>The broadcast and multicast options set on the new socket are not modelled: their results are
  only logged.\<close>

definition open_udp_socket :: "env \<Rightarrow> udp_session \<Rightarrow> allowed option \<Rightarrow> world \<Rightarrow> int \<times> world" where
  "open_udp_socket E u redirect w =
     (let version = (case redirect of None \<Rightarrow> u_version u | Some r \<Rightarrow> text_version (raddr r));
          (sock, w) = ask (\<lambda>k. e_socket E k (if version = 4 then 4 else 6) IPPROTO_UDP) w
      in if sock < 0 then (-1, w)
         else let (p, w) = ask (\<lambda>k. e_protect E k sock) w in (if p < 0 then -1 else sock, w))"

definition UDP4_MAXMSG :: u16 where "UDP4_MAXMSG = 65507"
definition UDP6_MAXMSG :: u16 where "UDP6_MAXMSG = 65487"

definition udp_register :: "env \<Rightarrow> nat \<Rightarrow> bytes \<Rightarrow> u16 \<Rightarrow> bytes \<Rightarrow> u16 \<Rightarrow> int \<Rightarrow> allowed option \<Rightarrow> world \<Rightarrow>
    ng_session option \<times> world" where
  "udp_register E version saddr source daddr dest uid redirect w =
     (let (ptr, w) = ask (e_malloc E) w;
          (tm, w) = sys_time E w;
          rversion = (case redirect of None \<Rightarrow> version | Some r \<Rightarrow> text_version (raddr r));
          u = \<lparr>u_time = tm, u_uid = uid, u_version = version,
               u_mss = (if rversion = 4 then UDP4_MAXMSG else UDP6_MAXMSG), u_sent = 0, u_received = 0,
               u_saddr = saddr, u_source = source, u_daddr = daddr, u_dest = dest, u_state = UDP_ACTIVE\<rparr>;
          (sock, w) = open_udp_socket E u redirect w
      in if sock < 0 then (None, w)
         else let events = EPOLLIN OR EPOLLERR;
                  (_, w) = sys_epoll E (EpollAdd sock events) sock w
              in (Some \<lparr>s_ptr = ptr, s_proto = Udp u, s_socket = sock, s_events = events\<rparr>, w))"

text \<open>A query the hosts file answers, a DHCP request, or data to forward.\<close>

definition udp_answer :: "env \<Rightarrow> udp_session \<Rightarrow> u16 \<Rightarrow> bytes \<Rightarrow> world \<Rightarrow> (bool \<times> world) option" where
  "udp_answer E u dest data w =
     (if dest = 53 then do {
        q \<leftarrow> get_dns_query data (replicate 256 0);
        (case q of
           None \<Rightarrow> Some (False, w)
         | Some (qtype, qclass, qname) \<Rightarrow> check_domain E u data qclass qtype qname w) }
      else Some (False, w))"

definition udp_target :: "env \<Rightarrow> udp_session \<Rightarrow> allowed option \<Rightarrow> sockaddr" where
  "udp_target E u redirect =
     (case redirect of
        None \<Rightarrow> (if u_version u = 4 then Sin4 else Sin6) (u_daddr u) (u_dest u)
      | Some r \<Rightarrow> (if text_version (raddr r) = 4 then Sin4 else Sin6) (e_pton E (raddr r)) (rport r))"

definition udp_forward :: "env \<Rightarrow> int \<Rightarrow> udp_session \<Rightarrow> bytes \<Rightarrow> allowed option \<Rightarrow> world \<Rightarrow> bool \<times> udp_session \<times> world" where
  "udp_forward E sock u data redirect w =
     (let (tm, w) = sys_time E w;
          u = u\<lparr>u_time := tm\<rparr>;
          ((r, errno), w) = sys_sendto E sock data (udp_target E u redirect) w
      in if r \<noteq> int (length data)
         then if errno \<noteq> EINTR \<and> errno \<noteq> EAGAIN then (False, u\<lparr>u_state := UDP_FINISHING\<rparr>, w) else (True, u, w)
         else (True, u\<lparr>u_sent := u_sent u + of_nat (length data)\<rparr>, w))"

definition udp_active :: "env \<Rightarrow> int \<Rightarrow> udp_session \<Rightarrow> u16 \<Rightarrow> u16 \<Rightarrow> bytes \<Rightarrow> allowed option \<Rightarrow> world \<Rightarrow>
    (bool \<times> udp_session \<times> world) option" where
  "udp_active E sock u source dest data redirect w = do {
     (answered, w) \<leftarrow> udp_answer E u dest data w;
     if answered then Some (False, u\<lparr>u_state := UDP_FINISHING\<rparr>, w)
     else do {
       (r, u, w) \<leftarrow> (if source = 68 \<or> dest = 67 then check_dhcp E u data w else Some (-1, u, w));
       Some (if r \<ge> 0 then (True, u, w) else udp_forward E sock u data redirect w) } }"

definition handle_udp :: "env \<Rightarrow> bytes \<Rightarrow> nat \<Rightarrow> nat \<Rightarrow> int \<Rightarrow> allowed option \<Rightarrow> ng_session list \<Rightarrow> world \<Rightarrow>
    (bool \<times> ng_session list \<times> world) option" where
  "handle_udp E buf plen payload uid redirect ss w = do {
     (version, saddr, source, daddr, dest) \<leftarrow> udp_key buf payload;
     let key = udp_match version saddr source daddr dest;
     let (s, ss, w) =
       (case find key ss of
          Some s \<Rightarrow> (Some s, ss, w)
        | None \<Rightarrow>
            (case udp_register E version saddr source daddr dest uid redirect w of
               (None, w) \<Rightarrow> (None, ss, w)
             | (Some s, w) \<Rightarrow> (Some s, s # ss, w)));
     (case s of
        None \<Rightarrow> Some (False, ss, w)
      | Some s \<Rightarrow>
          (case s_proto s of
             Udp u \<Rightarrow>
               if u_state u \<noteq> UDP_ACTIVE then Some (False, ss, w)
               else do {
                 data \<leftarrow> (if payload + 8 \<le> plen then slice buf (payload + 8) (plen - (payload + 8)) else None);
                 (r, u, w) \<leftarrow> udp_active E (s_socket s) u source dest data redirect w;
                 Some (r, replace_first key (s\<lparr>s_proto := Udp u\<rparr>) ss, w) }
           | _ \<Rightarrow> None)) }"

end
