(* ===== verification/Ng_Udp_Machine.thy ===== *)
theory Ng_Udp_Machine
  imports Ng_Udp Ng_Machine
begin

text \<open>
  The life of a UDP session, with the contract of \<open>Ng_Machine\<close>, and what \<open>handle_udp\<close> does with a
  datagram.
\<close>

section \<open>Invariant and order\<close>

definition udp_inv :: "int \<Rightarrow> udp_session \<Rightarrow> bool" where
  "udp_inv sock u \<longleftrightarrow>
     (u_state u \<in> {UDP_ACTIVE, UDP_FINISHING} \<and> 0 \<le> sock) \<or>
     (u_state u \<in> {UDP_CLOSED, UDP_BLOCKED} \<and> sock = -1)"

fun udp_rank :: "udp_state \<Rightarrow> nat" where
  "udp_rank UDP_ACTIVE = 0"
| "udp_rank UDP_FINISHING = 1"
| "udp_rank UDP_CLOSED = 2"
| "udp_rank UDP_BLOCKED = 3"

definition udp_good :: "udp_session \<Rightarrow> int \<Rightarrow> udp_session \<Rightarrow> bool" where
  "udp_good u sock' u' \<longleftrightarrow> udp_inv sock' u' \<and> udp_rank (u_state u) \<le> udp_rank (u_state u')"

lemma check_udp_session_good:
  assumes "udp_inv (s_socket s) u" and "check_udp_session E s u n m w = (del, s', u', w')"
  shows "udp_good u (s_socket s') u'" and "del \<Longrightarrow> u_state u' = UDP_CLOSED \<or> u_state u' = UDP_BLOCKED"
    and "u_state u' = UDP_CLOSED \<Longrightarrow> u_sent u' = 0 \<and> u_received u' = 0"
  using assms
  by (auto simp: check_udp_session_def Let_def split_beta udp_inv_def udp_good_def split: if_split_asm)

lemma udp_received_state:
  assumes "udp_received E u b w = Some (u', w')"
  shows "u_state u' = u_state u \<or> u_state u' = UDP_FINISHING"
  using assms by (auto simp: udp_received_def Let_def split_beta bind_eq_Some_conv split: if_split_asm)

lemma check_udp_socket_good:
  assumes "udp_inv sock u" and "0 \<le> sock" and "check_udp_socket E s u ev w = Some (u', w')"
  shows "udp_good u sock u'"
proof -
  have "u_state u' = u_state u \<or> u_state u' = UDP_FINISHING"
    using assms(3) udp_received_state [of E "u\<lparr>u_time := _\<rparr>"]
    by (fastforce simp: check_udp_socket_def Let_def split_beta split: if_split_asm recv_result.splits)
  then show ?thesis using assms(1,2) by (auto simp: udp_good_def udp_inv_def)
qed

lemma udp_forward_state:
  "udp_forward E sock u data redirect w = (r, u', w') \<Longrightarrow> u_state u' = u_state u \<or> u_state u' = UDP_FINISHING"
  by (auto simp: udp_forward_def Let_def split_beta split: if_split_asm)

lemma check_dhcp_state:
  "check_dhcp E u data w = Some (r, u', w') \<Longrightarrow> u_state u' = u_state u"
  by (auto simp: check_dhcp_def Let_def bind_eq_Some_conv split: if_split_asm)

lemma udp_active_good:
  assumes "udp_inv sock u" and "u_state u = UDP_ACTIVE"
    and "udp_active E sock u source dest data redirect w = Some (r, u', w')"
  shows "udp_good u sock u'"
proof -
  have "u_state u' = UDP_ACTIVE \<or> u_state u' = UDP_FINISHING"
    using assms(2,3) by (auto simp: udp_active_def bind_eq_Some_conv split: if_split_asm
        dest!: check_dhcp_state udp_forward_state)
  then show ?thesis using assms(1,2) by (auto simp: udp_good_def udp_inv_def)
qed

section \<open>The step relation\<close>

text \<open>Created by a datagram or by \<open>block_udp\<close>; then data on the socket (\<open>handle_events\<close> asks
  \<open>is_readable\<close> first, so only with an open socket), the periodic check, datagrams for an active
  session, and the end of its permission.\<close>

inductive udp_created :: "ng_session \<times> udp_session \<Rightarrow> bool" where
  registered: "udp_register E version saddr source daddr dest uid redirect w = (Some s, w') \<Longrightarrow>
    s_proto s = Udp u \<Longrightarrow> udp_created (s, u)"
| blocked: "block_udp E buf payload uid ss w = Some (s # ss, w') \<Longrightarrow> s_proto s = Udp u \<Longrightarrow> udp_created (s, u)"

inductive udp_step :: "ng_session \<times> udp_session \<Rightarrow> ng_session \<times> udp_session \<Rightarrow> bool" where
  udp_socket: "0 \<le> s_socket s \<Longrightarrow> check_udp_socket E s u ev w = Some (u', w') \<Longrightarrow> udp_step (s, u) (s, u')"
| udp_check: "check_udp_session E s u n m w = (del, s', u', w') \<Longrightarrow> udp_step (s, u) (s', u')"
| udp_datagram: "u_state u = UDP_ACTIVE \<Longrightarrow>
    udp_active E (s_socket s) u source dest data redirect w = Some (r, u', w') \<Longrightarrow> udp_step (s, u) (s, u')"
| udp_disallowed: "u_state u = UDP_ACTIVE \<Longrightarrow> udp_step (s, u) (s, u\<lparr>u_state := UDP_FINISHING\<rparr>)"

inductive_cases udp_created_cases: "udp_created (s, u)"
inductive_cases udp_step_cases: "udp_step (s, u) (s', u')"

lemma udp_created_inv: "udp_created (s, u) \<Longrightarrow> udp_inv (s_socket s) u"
  by (erule udp_created_cases)
    (auto simp: udp_register_def block_udp_def Let_def split_beta bind_eq_Some_conv udp_inv_def split: if_split_asm)

lemma udp_disallowed_good:
  "udp_inv sock u \<Longrightarrow> u_state u = UDP_ACTIVE \<Longrightarrow> udp_good u sock (u\<lparr>u_state := UDP_FINISHING\<rparr>)"
  by (auto simp: udp_good_def udp_inv_def)

lemma udp_step_good:
  assumes "udp_inv (s_socket s) u" and "udp_step (s, u) (s', u')"
  shows "udp_good u (s_socket s') u'"
  using assms(2)
  by (rule udp_step_cases)
    (use assms(1) in \<open>auto intro: check_udp_socket_good check_udp_session_good(1) udp_active_good
       udp_disallowed_good\<close>)

interpretation udp_machine: session_machine udp_created udp_step
  "\<lambda>(s, u). udp_inv (s_socket s) u" "\<lambda>(s, u). udp_rank (u_state u)"
proof unfold_locales
  show "udp_created st \<Longrightarrow> (\<lambda>(s, u). udp_inv (s_socket s) u) st" for st
    by (cases st) (simp add: udp_created_inv)
  show "(\<lambda>(s, u). udp_inv (s_socket s) u) st'"
    if "(\<lambda>(s, u). udp_inv (s_socket s) u) st" "udp_step st st'" for st st'
    using that udp_step_good by (cases st; cases st') (auto simp: udp_good_def)
  show "(\<lambda>(s, u). udp_rank (u_state u)) st \<le> (\<lambda>(s, u). udp_rank (u_state u)) st'"
    if "(\<lambda>(s, u). udp_inv (s_socket s) u) st" "udp_step st st'" for st st'
    using that udp_step_good by (cases st; cases st') (auto simp: udp_good_def)
qed

section \<open>Properties\<close>

lemma example_registered:
  "\<exists>s u w'. udp_register example_env 4 [10, 1, 10, 1] 4000 [1, 2, 3, 4] 80 10 None example_world = (Some s, w') \<and>
     s_proto s = Udp u \<and> s_socket s = 7 \<and> u_state u = UDP_ACTIVE \<and> u_time u = 1001 \<and> u_sent u = 0 \<and>
     u_received u = 0 \<and> u_dest u = 80 \<and> u_version u = 4 \<and> u_daddr u = [1, 2, 3, 4]"
  by (simp add: udp_register_def open_udp_socket_def ask_def sys_time_def called_def sys_epoll_def
      example_env_def example_world_def)

text \<open>In every reachable state an active or finishing UDP session has an open socket and a closed or
  blocked one has none; the states are passed in the order ACTIVE, FINISHING, CLOSED, and a blocked
  session stays blocked.\<close>

theorem udp_session_invariant:
  assumes "reach udp_created udp_step (s, u)" and "udp_step\<^sup>*\<^sup>* (s, u) (s', u')"
  shows "(u_state u' \<in> {UDP_ACTIVE, UDP_FINISHING} \<longrightarrow> 0 \<le> s_socket s') \<and>
    (u_state u' \<in> {UDP_CLOSED, UDP_BLOCKED} \<longrightarrow> s_socket s' = -1) \<and>
    udp_rank (u_state u) \<le> udp_rank (u_state u') \<and>
    (u_state u = UDP_BLOCKED \<longrightarrow> u_state u' = UDP_BLOCKED)"
proof -
  have i: "udp_inv (s_socket s) u" using udp_machine.reach_inv [OF assms(1)] by simp
  have i': "udp_inv (s_socket s') u'" using udp_machine.steps_inv [OF assms(2)] i by simp
  have r: "udp_rank (u_state u) \<le> udp_rank (u_state u')" using udp_machine.steps_rank [OF assms(2)] i by simp
  then have "u_state u' = UDP_BLOCKED" if "u_state u = UDP_BLOCKED"
    using that by (cases "u_state u'") simp_all
  then show ?thesis using i' r by (auto simp: udp_inv_def)
qed

theorem udp_session_invariant_witness:
  "\<exists>s u u'. reach udp_created udp_step (s, u) \<and> udp_step\<^sup>*\<^sup>* (s, u) (s, u') \<and> u_state u' = UDP_FINISHING \<and> 0 \<le> s_socket s"
proof -
  obtain s u where "udp_created (s, u)" "u_state u = UDP_ACTIVE"
    using example_registered registered by metis
  moreover have "udp_step\<^sup>*\<^sup>* (s, u) (s, u\<lparr>u_state := UDP_FINISHING\<rparr>)"
    using calculation(2) udp_disallowed by blast
  ultimately show ?thesis
    using udp_session_invariant [of s u s "u\<lparr>u_state := UDP_FINISHING\<rparr>"] reach_init by (metis (no_types, lifting)
        insertCI udp_session.select_convs(11) udp_session.surjective udp_session.update_convs(11))
qed

text \<open>A UDP session that the periodic check lets \<open>handle_events\<close> delete has no socket, and a closed
  one has reported all its traffic; a blocked session reports none.\<close>

theorem udp_delete_clean:
  assumes "reach udp_created udp_step (s, u)" and "check_udp_session E s u n m w = (del, s', u', w')"
  shows "(del \<longrightarrow> s_socket s' = -1) \<and> (u_state u' = UDP_CLOSED \<longrightarrow> u_sent u' = 0 \<and> u_received u' = 0) \<and>
    (u_state u = UDP_BLOCKED \<longrightarrow> w_out w' = w_out w)"
proof -
  have i: "udp_inv (s_socket s) u" using udp_machine.reach_inv [OF assms(1)] by simp
  note g = check_udp_session_good [OF i assms(2)]
  then have "udp_inv (s_socket s') u'" by (simp add: udp_good_def)
  then have "del \<longrightarrow> s_socket s' = -1" using g(2) by (auto simp: udp_inv_def)
  moreover have "w_out w' = w_out w" if "u_state u = UDP_BLOCKED"
    using assms(2) that by (auto simp: check_udp_session_def sys_time_def split: if_split_asm)
  ultimately show ?thesis using g(3) by simp
qed

theorem udp_delete_clean_witness:
  "\<exists>s u s' u' w'. check_udp_session (example_env\<lparr>e_time := \<lambda>k. 5000\<rparr>) s u 0 409 example_world = (False, s', u', w') \<and>
     u_state u = UDP_ACTIVE \<and> u_state u' = UDP_CLOSED \<and> u_sent u' = 0"
proof -
  obtain s u where u: "udp_created (s, u)" "u_state u = UDP_ACTIVE" "u_time u = 1001" "u_dest u = 80"
    "u_sent u = 0" "u_received u = 0"
    using example_registered registered by metis
  then have "\<exists>s' u' w'. check_udp_session (example_env\<lparr>e_time := \<lambda>k. 5000\<rparr>) s u 0 409 example_world =
      (False, s', u', w') \<and> u_state u' = UDP_CLOSED"
    by (simp add: check_udp_session_def sys_time_def example_env_def get_udp_timeout_def scale_timeout_def)
  then show ?thesis using udp_delete_clean [OF reach_init, OF u(1)] u(2) by blast
qed

text \<open>A datagram of a session that is blocked, finishing or closed is dropped: \<open>handle_udp\<close> changes
  no session, asks nothing of the outside and sends nothing.\<close>

theorem handle_udp_inactive:
  assumes "udp_key buf payload = Some (version, saddr, source, daddr, dest)"
    and "find (udp_match version saddr source daddr dest) ss = Some s" and "s_proto s = Udp u"
    and "u_state u \<noteq> UDP_ACTIVE"
  shows "handle_udp E buf plen payload uid redirect ss w = Some (False, ss, w)"
  using assms by (simp add: handle_udp_def)

text \<open>The socket of the session a first datagram makes.\<close>

lemma udp_register_result:
  assumes "family = (case redirect of None \<Rightarrow> version | Some r \<Rightarrow> text_version (raddr r))"
    and "sock = e_socket E (w_calls w + 2) (if family = 4 then 4 else 6) IPPROTO_UDP"
    and "udp_register E version saddr source daddr dest uid redirect w = (r, w')"
  shows "if sock < 0 \<or> e_protect E (w_calls w + 3) sock < 0 then r = None \<and> w_out w' = w_out w
    else (\<exists>s u. r = Some s \<and> s_proto s = Udp u \<and> s_socket s = sock \<and> udp_match version saddr source daddr dest s \<and>
        u_uid u = uid \<and> u_sent u = 0 \<and> u_state u = UDP_ACTIVE) \<and>
      w_calls w' = w_calls w + 5 \<and> w_out w' = w_out w @ [EpollAdd sock (EPOLLIN OR EPOLLERR)]"
  using assms
  by (cases redirect)
    (auto simp: udp_register_def open_udp_socket_def ask_def sys_time_def sys_epoll_def called_def emit_def
      numeral_3_eq_3 Let_def udp_match_def split: if_split_asm)

text \<open>C13: a datagram that is not to port 53 or 67 and not from port 68 (those are looked into for DNS and DHCP)
  is forwarded, its payload byte for byte, once, to the redirect Java gave or to its own destination.
  When a session of its connection is active it goes out on its socket; a session that is finishing,
  closed or blocked swallows it, and nothing else happens. The first datagram of a connection goes out
  on the new, protected and watched socket of a new session at the head of the list; without such a
  socket it is dropped. The session counts the payload exactly when the kernel has taken all of it.\<close>

theorem handle_udp_forwards:
  assumes "udp_key buf payload = Some (version, saddr, source, daddr, dest)"
    and "dest \<noteq> 53" and "dest \<noteq> 67" and "source \<noteq> 68" and "payload + 8 \<le> plen" and "plen \<le> length buf"
    and "key = udp_match version saddr source daddr dest" and "data = take (plen - (payload + 8)) (drop (payload + 8) buf)"
    and "(family, target) = (case redirect of
        None \<Rightarrow> (version, (if version = 4 then Sin4 else Sin6) daddr dest)
      | Some r \<Rightarrow> (text_version (raddr r), (if text_version (raddr r) = 4 then Sin4 else Sin6) (e_pton E (raddr r)) (rport r)))"
    and "sock = e_socket E (w_calls w + 2) (if family = 4 then 4 else 6) IPPROTO_UDP"
    and "counted = (\<lambda>k s. if fst (e_sendto E k s data) = int (length data) then of_nat (length data) else 0)"
  shows "\<exists>r ss' w'. handle_udp E buf plen payload uid redirect ss w = Some (r, ss', w') \<and>
    (case find key ss of
       Some s \<Rightarrow> \<exists>u. s_proto s = Udp u \<and>
         (if u_state u = UDP_ACTIVE
          then (\<exists>u'. ss' = replace_first key (s\<lparr>s_proto := Udp u'\<rparr>) ss \<and>
              u_sent u' = u_sent u + counted (w_calls w + 1) (s_socket s)) \<and>
            w_out w' = w_out w @ [SendTo (s_socket s) data target]
          else \<not> r \<and> ss' = ss \<and> w' = w)
     | None \<Rightarrow>
         if sock < 0 \<or> e_protect E (w_calls w + 3) sock < 0 then \<not> r \<and> ss' = ss \<and> w_out w' = w_out w
         else (\<exists>s u. ss' = s # ss \<and> s_proto s = Udp u \<and> s_socket s = sock \<and> key s \<and> u_uid u = uid \<and>
             u_sent u = counted (w_calls w + 6) sock) \<and>
           w_out w' = w_out w @ [EpollAdd sock (EPOLLIN OR EPOLLERR), SendTo sock data target])"
proof -
  have sl: "slice buf (payload + 8) (plen - (payload + 8)) = Some data"
    using assms(5,6,8) by (auto intro!: slice_Some)
  have f: "udp_active E sk u source dest data redirect v = Some (udp_forward E sk u data redirect v)" for sk u v
    using assms(2-4) by (simp add: udp_active_def udp_answer_def)
  have o: "w_out (snd (snd (udp_forward E sk u data redirect v))) = w_out v @ [SendTo sk data target] \<and>
      u_sent (fst (snd (udp_forward E sk u data redirect v))) = u_sent u + counted (w_calls v + 1) sk \<and>
      key (s\<lparr>s_proto := Udp (fst (snd (udp_forward E sk u data redirect v)))\<rparr>) \<and>
      u_uid (fst (snd (udp_forward E sk u data redirect v))) = u_uid u"
    if "key s" "s_proto s = Udp u" for sk u v s
    using that assms(7,9,11)
    by (auto simp: udp_forward_def Let_def split_beta sys_time_def sys_sendto_def udp_target_def udp_match_def called_def
        split: option.splits)
  show ?thesis
  proof (cases "find key ss")
    case (Some s)
    then have k: "key s" by (auto simp: find_Some_iff)
    then obtain u where u: "s_proto s = Udp u" using assms(7) by (auto simp: udp_match_def split: proto_session.splits)
    let ?f = "udp_forward E (s_socket s) u data redirect w"
    have "handle_udp E buf plen payload uid redirect ss w =
        (if u_state u = UDP_ACTIVE then Some (fst ?f, replace_first key (s\<lparr>s_proto := Udp (fst (snd ?f))\<rparr>) ss, snd (snd ?f))
         else Some (False, ss, w))"
      using assms(1,5,7) sl Some u f by (simp add: handle_udp_def split_beta)
    then show ?thesis using o [OF k u, of "s_socket s" w] Some u by auto
  next
    case None
    obtain r w1 where r: "udp_register E version saddr source daddr dest uid redirect w = (r, w1)" by (metis prod.exhaust)
    have "family = (case redirect of None \<Rightarrow> version | Some r \<Rightarrow> text_version (raddr r))"
      using assms(9) by (simp split: option.splits)
    note g = udp_register_result [OF this assms(10) r]
    show ?thesis
    proof (cases "sock < 0 \<or> e_protect E (w_calls w + 3) sock < 0")
      case True
      then have "r = None" "w_out w1 = w_out w" using g by simp_all
      then show ?thesis using assms(1,7) None r True by (auto simp: handle_udp_def)
    next
      case False
      then obtain s u where s: "r = Some s" "s_proto s = Udp u" "s_socket s = sock" "key s" "u_uid u = uid" "u_sent u = 0"
        "u_state u = UDP_ACTIVE" "w_calls w1 = w_calls w + 5" "w_out w1 = w_out w @ [EpollAdd sock (EPOLLIN OR EPOLLERR)]"
        using g assms(7) by auto
      let ?f = "udp_forward E (s_socket s) u data redirect w1"
      have "handle_udp E buf plen payload uid redirect ss w =
          Some (fst ?f, s\<lparr>s_proto := Udp (fst (snd ?f))\<rparr> # ss, snd (snd ?f))"
        using assms(1,5,7) sl s(1,2,4,7) None r f by (simp add: handle_udp_def split_beta)
      then show ?thesis using o [OF s(4,2), of "s_socket s" w1] s None False
        by (auto simp: add.commute intro!: exI [of _ "s\<lparr>s_proto := Udp (fst (snd ?f))\<rparr>"])
    qed
  qed
qed

lemma wr_bind_None: "(\<And>r'. length r' = length r \<Longrightarrow> f r' = None) \<Longrightarrow> wr r i ys \<bind> f = None"
  by (cases "wr r i ys") (auto dest: length_wr)

lemma check_dhcp_eq:
  assumes "240 \<le> length data"
  shows "check_dhcp E u data w =
    (if rd32 data 236 = Some DHCP_OPTION_MAGIC_NUMBER \<and> data ! 1 = 1 \<and> data ! 2 = 6
     then if data ! 0 = 1 then None else Some (0, u, w)
     else Some (-1, u, w))"
proof -
  obtain m where m: "rd32 data 236 = Some m" using assms rd32_ex [of 236 data] by auto
  have s: "\<exists>x. slice data 20 4 = Some x" using assms by (simp add: slice_def)
  have o: "wr r 57600 (dhcp_options d) \<bind> k = None" if "length r = 500" for r d and k :: "8 word list \<Rightarrow> 'z option"
    using that by (simp add: wr_def)
  have "wr (replicate 500 0) 0 (take 240 data) \<bind> (\<lambda>r. wr r 0 [x] \<bind> (\<lambda>r. wr r 8 y \<bind>
      (\<lambda>r. wr r 16 z \<bind> (\<lambda>r. wr r (240 * 240) (dhcp_options d) \<bind> k)))) = None" for x y z d
      and k :: "8 word list \<Rightarrow> 'z option"
    by (rule wr_bind_None, rule wr_bind_None, rule wr_bind_None, rule wr_bind_None) (simp add: o)
  then show ?thesis
    using assms m s by (auto simp: check_dhcp_def rd_def Let_def)
qed

text \<open>C36: every DHCP discover or request (an Ethernet BOOTREQUEST with the magic number) makes
  \<open>check_dhcp\<close> write outside the buffer of the response it has allocated; any other datagram gets
  an answer without a packet.\<close>

theorem check_dhcp_overflow:
  assumes "240 \<le> length data"
  shows "check_dhcp E u data w =
    (if rd32 data 236 = Some DHCP_OPTION_MAGIC_NUMBER \<and> data ! 1 = 1 \<and> data ! 2 = 6
     then if data ! 0 = 1 then None else Some (0, u, w)
     else Some (-1, u, w))"
  using assms by (rule check_dhcp_eq)

section \<open>Instances\<close>

text \<open>A datagram of 2 bytes from 10.1.10.1/4000 to 1.2.3.4/80 (the IP header is not looked at beyond
  the version and the addresses), and the session it belongs to.\<close>

definition example_datagram :: bytes where
  "example_datagram = [0x45, 0, 0, 30, 0, 0, 0, 0, 64, 17, 0, 0, 10, 1, 10, 1, 1, 2, 3, 4] @
     u16_be 4000 @ u16_be 80 @ u16_be 10 @ [0, 0] @ [7, 8]"

definition example_udp_session :: "udp_state \<Rightarrow> ng_session" where
  "example_udp_session st = \<lparr>s_ptr = 0, s_proto = Udp (example_udp\<lparr>u_version := 4, u_saddr := [10, 1, 10, 1],
     u_daddr := [1, 2, 3, 4], u_dest := 80, u_state := st\<rparr>), s_socket = 9, s_events = 9\<rparr>"

lemma example_datagram_key:
  "udp_key example_datagram 20 = Some (4, [10, 1, 10, 1], 4000, [1, 2, 3, 4], 80)"
  "length example_datagram = 30" "drop 28 example_datagram = [7, 8]"
  "find (udp_match 4 [10, 1, 10, 1] 4000 [1, 2, 3, 4] 80) [example_udp_session st] = Some (example_udp_session st)"
  by (simp_all add: udp_key_def example_datagram_def rd_def rd16_def pkt_addrs_def slice_def u16_be_def be16_def
      udp_match_def example_udp_session_def example_udp_def)

theorem handle_udp_inactive_witness:
  "handle_udp example_env example_datagram 30 20 10 None [example_udp_session UDP_BLOCKED] example_world =
     Some (False, [example_udp_session UDP_BLOCKED], example_world)"
proof -
  obtain u where "s_proto (example_udp_session UDP_BLOCKED) = Udp u" "u_state u = UDP_BLOCKED"
    by (simp add: example_udp_session_def)
  then show ?thesis using handle_udp_inactive [OF example_datagram_key(1,4)] by simp
qed

theorem handle_udp_forwards_witness:
  "(\<exists>r u' w'. handle_udp example_env example_datagram 30 20 10 None [example_udp_session UDP_ACTIVE] example_world =
     Some (r, [(example_udp_session UDP_ACTIVE)\<lparr>s_proto := Udp u'\<rparr>], w') \<and>
     w_out w' = [SendTo 9 [7, 8] (Sin4 [1, 2, 3, 4] 80)] \<and> u_sent u' = 2) \<and>
   (\<exists>r s u w'. handle_udp example_env example_datagram 30 20 10 None [] example_world = Some (r, [s], w') \<and>
     s_proto s = Udp u \<and> s_socket s = 7 \<and> u_sent u = 2 \<and>
     w_out w' = [EpollAdd 7 9, SendTo 7 [7, 8] (Sin4 [1, 2, 3, 4] 80)])"
proof
  let ?k = "udp_match 4 [10, 1, 10, 1] 4000 [1, 2, 3, 4] 80" and ?s = "example_udp_session UDP_ACTIVE"
  obtain u where u: "s_proto ?s = Udp u" "u_state u = UDP_ACTIVE" "u_sent u = 0"
    by (simp add: example_udp_session_def example_udp_def)
  have k: "?k ?s" "s_socket ?s = 9" by (simp_all add: udp_match_def example_udp_session_def example_udp_def)
  have d: "[7, 8] = take (30 - (20 + 8)) (drop (20 + 8) example_datagram)" by (simp add: example_datagram_key(3))
  have l: "(20 :: nat) + 8 \<le> 30" "(30 :: nat) \<le> length example_datagram" by (simp_all add: example_datagram_key(2))
  have p: "(80 :: u16) \<noteq> 53" "(80 :: u16) \<noteq> 67" "(4000 :: u16) \<noteq> 68" by simp_all
  have g: "(4, Sin4 [1, 2, 3, 4] 80) = (case None of
      None \<Rightarrow> (4, (if (4 :: nat) = 4 then Sin4 else Sin6) [1, 2, 3, 4] 80)
    | Some r \<Rightarrow> (text_version (raddr r), (if text_version (raddr r) = 4 then Sin4 else Sin6) (e_pton example_env (raddr r)) (rport r)))"
    by simp
  have o: "7 = e_socket example_env (w_calls example_world + 2) (if (4 :: nat) = 4 then 4 else 6) 17"
    by (simp add: example_env_def)
  have c: "(\<lambda>k s. 2) = (\<lambda>k s. if fst (e_sendto example_env k s [7, 8]) = int (length [7 :: u8, 8]) then of_nat (length [7 :: u8, 8]) else 0)"
    by (simp add: example_env_def)
  have e: "\<not> e_protect example_env (w_calls example_world + 3) 7 < 0" by (simp add: example_env_def)
  note f = handle_udp_forwards [OF example_datagram_key(1) p l refl d g o c, where uid = 10]
  show "\<exists>r u' w'. handle_udp example_env example_datagram 30 20 10 None [?s] example_world =
     Some (r, [?s\<lparr>s_proto := Udp u'\<rparr>], w') \<and>
     w_out w' = [SendTo 9 [7, 8] (Sin4 [1, 2, 3, 4] 80)] \<and> u_sent u' = 2"
    using f [of "[?s]"] u k e by (auto simp: example_world_def)
  show "\<exists>r s u w'. handle_udp example_env example_datagram 30 20 10 None [] example_world = Some (r, [s], w') \<and>
     s_proto s = Udp u \<and> s_socket s = 7 \<and> u_sent u = 2 \<and>
     w_out w' = [EpollAdd 7 9, SendTo 7 [7, 8] (Sin4 [1, 2, 3, 4] 80)]"
    using f [of "[]"] e by (auto simp: example_world_def)
qed

theorem check_dhcp_overflow_witness:
  "check_dhcp example_env example_udp ([1, 1, 6] @ replicate 233 0 @ u32_be 0x63825363) example_world = None"
proof -
  have "rd32 ([1, 1, 6] @ replicate 233 0 @ u32_be 0x63825363) 236 = Some 0x63825363"
    using rd32_mid [of "[1, 1, 6] @ replicate 233 0" 236 "0x63825363" "[]"] by simp
  then show ?thesis
    using check_dhcp_overflow [of "[1, 1, 6] @ replicate 233 0 @ u32_be 0x63825363" example_env example_udp example_world]
    by (simp add: DHCP_OPTION_MAGIC_NUMBER_def)
qed

end
