(* ===== verification/Ng_Icmp.thy ===== *)
theory Ng_Icmp
  imports Ng_Packet Ng_Timeout Ng_Tcp_Handle Ng_Machine
begin

text \<open>
  icmp.c: echo requests and their replies. As for TCP, a routine that gets a session in C gets the
  \<open>ng_session\<close> and its union member \<open>c\<close>; ids are read in network order.
\<close>

section \<open>The message\<close>

definition ICMP_ECHO :: u8 where "ICMP_ECHO = 8"
definition ICMP4_MAXMSG :: u16 where "ICMP4_MAXMSG = 65507"
definition ICMP6_MAXMSG :: u16 where "ICMP6_MAXMSG = 65487"

text \<open>Store the id and the checksum in the message. The buffer holds at least the 8 bytes of the
  header; of a shorter message only its own bytes are sent on.\<close>

definition icmp_seal :: "u16 \<Rightarrow> u16 \<Rightarrow> bytes \<Rightarrow> bytes" where
  "icmp_seal csum ident data =
     (let buf = data @ replicate (8 - length data) 0;
          buf = take 4 buf @ u16_be ident @ drop 6 buf;
          buf = take 2 buf @ [0, 0] @ drop 4 buf;
          csum = calc_checksum csum (take (length data) buf)
      in take (length data) (take 2 buf @ u16_le (NOT csum) @ drop 4 buf))"

text \<open>The pseudo header of a reply: its length is the one of the message less 40, in host order.\<close>

definition icmp_reply_pseudo :: "icmp_session \<Rightarrow> nat \<Rightarrow> bytes" where
  "icmp_reply_pseudo c n = i_daddr c @ i_saddr c @ u32_le (of_nat n - 40) @ [0, 0, 0, IPPROTO_ICMPV6]"

section \<open>The periodic check\<close>

definition check_icmp_session :: "env \<Rightarrow> ng_session \<Rightarrow> icmp_session \<Rightarrow> int \<Rightarrow> int \<Rightarrow> world \<Rightarrow>
    bool \<times> ng_session \<times> world" where
  "check_icmp_session E s c sessions maxsessions w =
     (let (now, w) = sys_time E w;
          timeout = get_icmp_timeout c sessions maxsessions
      in if i_stop c \<or> i_time c + timeout < now
         then (True, s\<lparr>s_socket := -1\<rparr>, sys_close (s_socket s) w)
         else (False, s, w))"

section \<open>Replies from the socket\<close>

definition icmp_received :: "env \<Rightarrow> icmp_session \<Rightarrow> bytes \<Rightarrow> world \<Rightarrow> icmp_session \<times> world" where
  "icmp_received E c b w =
     (let csum = (if i_version c = 6 then calc_checksum 0 (icmp_reply_pseudo c (length b)) else 0);
          (r, w) = write_icmp E c (icmp_seal csum (i_id c) b) w
      in (if r < 0 then c\<lparr>i_stop := True\<rparr> else c, w))"

definition check_icmp_socket :: "env \<Rightarrow> ng_session \<Rightarrow> icmp_session \<Rightarrow> u32 \<Rightarrow> world \<Rightarrow> icmp_session \<times> world" where
  "check_icmp_socket E s c events w =
     (if events AND EPOLLERR \<noteq> 0 then
        let (tm, w) = sys_time E w in (c\<lparr>i_time := tm, i_stop := True\<rparr>, w)
      else if events AND EPOLLIN \<noteq> 0 then
        let (tm, w) = sys_time E w;
            c = c\<lparr>i_time := tm\<rparr>;
            blen = (if i_version c = 4 then ICMP4_MAXMSG else ICMP6_MAXMSG)
        in (case sys_recv E (s_socket s) (unat blen) w of
              (RecvError err, w) \<Rightarrow>
                (if err \<noteq> EINTR \<and> err \<noteq> EAGAIN then c\<lparr>i_stop := True\<rparr> else c, w)
            | (RecvData b, w) \<Rightarrow>
                if b = [] then (c\<lparr>i_stop := True\<rparr>, w) else icmp_received E c b w)
      else (c, w))"

section \<open>Requests from the client\<close>

definition open_icmp_socket :: "env \<Rightarrow> icmp_session \<Rightarrow> world \<Rightarrow> int \<times> world" where
  "open_icmp_socket E c w =
     (let (sock, w) = ask (\<lambda>k. e_socket E k (if i_version c = 4 then 4 else 6) IPPROTO_ICMP) w
      in if sock < 0 then (-1, w)
         else let (p, w) = ask (\<lambda>k. e_protect E k sock) w in (if p < 0 then -1 else sock, w))"

definition icmp_match :: "nat \<Rightarrow> bytes \<Rightarrow> bytes \<Rightarrow> ng_session \<Rightarrow> bool" where
  "icmp_match version saddr daddr s =
     (case s_proto s of
        Icmp c \<Rightarrow> \<not> i_stop c \<and> i_version c = version \<and> i_saddr c = saddr \<and> i_daddr c = daddr
      | _ \<Rightarrow> False)"

definition icmp_register :: "env \<Rightarrow> nat \<Rightarrow> bytes \<Rightarrow> bytes \<Rightarrow> u16 \<Rightarrow> int \<Rightarrow> world \<Rightarrow> ng_session option \<times> world" where
  "icmp_register E version saddr daddr ident uid w =
     (let (ptr, w) = ask (e_malloc E) w;
          (tm, w) = sys_time E w;
          c = \<lparr>i_time = tm, i_uid = uid, i_version = version, i_saddr = saddr, i_daddr = daddr,
               i_id = ident, i_stop = False\<rparr>;
          (sock, w) = open_icmp_socket E c w
      in if sock < 0 then (None, w)
         else let events = EPOLLIN OR EPOLLERR;
                  (_, w) = sys_epoll E (EpollAdd sock events) sock w
              in (Some \<lparr>s_ptr = ptr, s_proto = Icmp c, s_socket = sock, s_events = events\<rparr>, w))"

text \<open>The request goes out with the inverted id. For IPv6 the 32-bit length of the pseudo header is
  assigned from the 16-bit field in network order.\<close>

definition icmp_forward :: "env \<Rightarrow> int \<Rightarrow> icmp_session \<Rightarrow> nat \<Rightarrow> bytes \<Rightarrow> u16 \<Rightarrow> bytes \<Rightarrow> world \<Rightarrow>
    bool \<times> icmp_session \<times> world" where
  "icmp_forward E sock c version daddr csum msg w =
     (let (tm, w) = sys_time E w;
          c = c\<lparr>i_time := tm\<rparr>;
          ((r, errno), w) = sys_sendto E sock msg ((if version = 4 then Sin4 else Sin6) daddr 0) w
      in if r \<noteq> int (length msg) \<and> errno \<noteq> EINTR \<and> errno \<noteq> EAGAIN
         then (False, c\<lparr>i_stop := True\<rparr>, w)
         else (True, c, w))"

definition icmp_request_csum :: "bytes \<Rightarrow> nat \<Rightarrow> bytes \<Rightarrow> bytes \<Rightarrow> u16 option" where
  "icmp_request_csum buf version saddr daddr =
     (if version = 6 then do {
        plen \<leftarrow> slice buf 4 2;
        nxt \<leftarrow> rd buf 6;
        Some (calc_checksum 0 (daddr @ saddr @ plen @ [0, 0] @ [0, 0, 0, nxt])) }
      else Some 0)"

definition handle_icmp :: "env \<Rightarrow> bytes \<Rightarrow> nat \<Rightarrow> nat \<Rightarrow> int \<Rightarrow> ng_session list \<Rightarrow> world \<Rightarrow>
    (bool \<times> ng_session list \<times> world) option" where
  "handle_icmp E buf plen payload uid ss w = do {
     b0 \<leftarrow> rd buf 0;
     let version = unat (drop_bit 4 b0);
     (saddr, daddr) \<leftarrow> pkt_addrs buf version;
     icmp_type \<leftarrow> rd buf payload;
     if icmp_type \<noteq> ICMP_ECHO then Some (False, ss, w)
     else do {
       ident \<leftarrow> rd16 buf (payload + 4);
       let key = icmp_match version saddr daddr;
       let (s, ss, w) =
         (case find key ss of
            Some s \<Rightarrow> (Some s, ss, w)
          | None \<Rightarrow>
              (case icmp_register E version saddr daddr ident uid w of
                 (None, w) \<Rightarrow> (None, ss, w)
               | (Some s, w) \<Rightarrow> (Some s, s # ss, w)));
       (case s of
          None \<Rightarrow> Some (False, ss, w)
        | Some s \<Rightarrow>
            (case s_proto s of
               Icmp c \<Rightarrow> do {
                 data \<leftarrow> (if payload \<le> plen then slice buf payload (plen - payload) else None);
                 csum \<leftarrow> icmp_request_csum buf version saddr daddr;
                 let (r, c, w) = icmp_forward E (s_socket s) c version daddr csum
                                   (icmp_seal csum (NOT ident) data) w;
                 Some (r, replace_first key (s\<lparr>s_proto := Icmp c\<rparr>) ss, w) }
             | _ \<Rightarrow> None)) } }"

section \<open>Messages that are sent on\<close>

lemma length_icmp_seal [simp]: "length (icmp_seal csum ident data) = length data"
  by (simp add: icmp_seal_def Let_def)

text \<open>A message of at least a header: what is stored, what stays, and the checksum.\<close>

lemma icmp_seal_full:
  assumes "8 \<le> length data"
  obtains z where "drop 6 data = z"
    "icmp_seal csum ident data =
       take 2 data @ u16_le (NOT (calc_checksum csum (take 2 data @ [0, 0] @ u16_be ident @ z))) @ u16_be ident @ z"
proof -
  have t: "take (length data) (take 2 data @ u16_le k @ u16_be ident @ drop 6 data) =
      take 2 data @ u16_le k @ u16_be ident @ drop 6 data" for k
    using assms by (intro take_all) simp
  have z: "take (length data) (take 2 data @ [0, 0] @ u16_be ident @ drop 6 data) =
      take 2 data @ [0, 0] @ u16_be ident @ drop 6 data"
    using assms by (intro take_all) simp
  let ?b = "take 2 data @ [0, 0] @ u16_be ident @ drop 6 data"
  have "take 2 (take 4 data @ u16_be ident @ drop 6 data) @ [0, 0] @
      drop 4 (take 4 data @ u16_be ident @ drop 6 data) = ?b"
    using assms by (simp add: min_def)
  moreover have "take 2 ?b = take 2 data" "drop 4 ?b = u16_be ident @ drop 6 data"
    using assms by (simp_all add: min_def numeral_eq_Suc)
  ultimately have "icmp_seal csum ident data =
      take 2 data @ u16_le (NOT (calc_checksum csum ?b)) @ u16_be ident @ drop 6 data"
    using assms by (simp only: icmp_seal_def Let_def t z) (simp add: t)
  then show ?thesis using that by blast
qed

lemma icmp_seal_valid:
  assumes "8 \<le> length data" and "length data \<le> 65536"
  shows "calc_checksum csum (icmp_seal csum ident data) = 0xFFFF"
    and "rd16 (icmp_seal csum ident data) 4 = Some ident"
    and "take 2 (icmp_seal csum ident data) = take 2 data"
    and "drop 6 (icmp_seal csum ident data) = drop 6 data"
proof -
  obtain z where z: "drop 6 data = z" and e: "icmp_seal csum ident data =
      take 2 data @ u16_le (NOT (calc_checksum csum (take 2 data @ [0, 0] @ u16_be ident @ z))) @ u16_be ident @ z"
    using icmp_seal_full [OF assms(1)] by metis
  have "even (length (take 2 data))" using assms(1) by simp
  moreover have "length (take 2 data) + length (u16_be ident @ z) + 2 \<le> 65536"
    using assms z by auto
  ultimately show "calc_checksum csum (icmp_seal csum ident data) = 0xFFFF"
    using cksum.ck_field [of "take 2 data" "u16_be ident @ z" csum] by (simp only: e)
  have l: "length (take 2 data) = 2" using assms(1) by simp
  show "rd16 (icmp_seal csum ident data) 4 = Some ident"
    using rd16_mid [of "take 2 data @ u16_le k" 4 ident z for k] l by (simp add: e)
  show "take 2 (icmp_seal csum ident data) = take 2 data" using l by (simp add: e)
  show "drop 6 (icmp_seal csum ident data) = drop 6 data" using l z by (simp add: e)
qed

text \<open>What is sent on of an echo request with the given id and data.\<close>

definition echo_sent :: "bytes \<Rightarrow> u16 \<Rightarrow> bytes \<Rightarrow> bool" where
  "echo_sent data ident msg \<longleftrightarrow>
     length msg = length data \<and> take 2 msg = take 2 data \<and> drop 6 msg = drop 6 data \<and>
     rd16 msg 4 = Some (NOT ident) \<and> calc_checksum 0 msg = 0xFFFF"

text \<open>C23: an IPv4 echo request of at least eight bytes goes out once, to the address of the packet: type,
  code, sequence number and data are the client's, the id is inverted and the checksum is valid.
  When an ICMP session of these addresses runs it goes out on its socket, and the session keeps the id
  of its first request, also when this one has another; otherwise it goes out on the new, protected and
  watched socket of a new session at the head of the list, which keeps this id, and when there is no
  such socket nothing is sent and no session is made. (ICMPv6 echo requests are not served.)\<close>

theorem icmp_request_forwarded:
  assumes "rd buf 0 = Some b0" and "drop_bit 4 b0 = 4" and "pkt_addrs buf 4 = Some (saddr, daddr)"
    and "rd buf payload = Some ICMP_ECHO" and "payload + 8 \<le> plen" and "plen \<le> length buf"
    and "plen - payload \<le> 65536" and "rd16 buf (payload + 4) = Some ident"
    and "key = icmp_match 4 saddr daddr" and "data = take (plen - payload) (drop payload buf)"
    and "sock = e_socket E (w_calls w + 2) 4 IPPROTO_ICMP"
  shows "\<exists>r ss' w' msg. handle_icmp E buf plen payload uid ss w = Some (r, ss', w') \<and> echo_sent data ident msg \<and>
    (case find key ss of
       Some s \<Rightarrow> (\<exists>c c'. s_proto s = Icmp c \<and> i_id c' = i_id c \<and> ss' = replace_first key (s\<lparr>s_proto := Icmp c'\<rparr>) ss) \<and>
         w_out w' = w_out w @ [SendTo (s_socket s) msg (Sin4 daddr 0)]
     | None \<Rightarrow>
         if sock < 0 \<or> e_protect E (w_calls w + 3) sock < 0 then \<not> r \<and> ss' = ss \<and> w_out w' = w_out w
         else (\<exists>s c. ss' = s # ss \<and> s_proto s = Icmp c \<and> s_socket s = sock \<and> i_version c = 4 \<and> i_saddr c = saddr \<and>
             i_daddr c = daddr \<and> i_id c = ident \<and> i_uid c = uid) \<and>
           w_out w' = w_out w @ [EpollAdd sock (EPOLLIN OR EPOLLERR), SendTo sock msg (Sin4 daddr 0)])"
proof -
  let ?msg = "icmp_seal 0 (NOT ident) data"
  have l: "length data = plen - payload" using assms(5,6,10) by simp
  have sl: "slice buf payload (plen - payload) = Some data" using assms(5,6,10) by (simp add: slice_def)
  have "8 \<le> length data" "length data \<le> 65536" using l assms(5,7) by simp_all
  note icmp_seal_valid [OF this, of 0 "NOT ident"]
  then have m: "echo_sent data ident ?msg" by (simp add: echo_sent_def)
  have f: "i_id (fst (snd (icmp_forward E s c 4 daddr 0 ?msg v))) = i_id c \<and>
      w_out (snd (snd (icmp_forward E s c 4 daddr 0 ?msg v))) = w_out v @ [SendTo s ?msg (Sin4 daddr 0)]" for s c v
    by (simp add: icmp_forward_def Let_def split_beta sys_time_def sys_sendto_def)
  show ?thesis
  proof (cases "find key ss")
    case (Some s)
    then have "key s" by (auto simp: find_Some_iff)
    then obtain c where c: "s_proto s = Icmp c" using assms(9) by (auto simp: icmp_match_def split: proto_session.splits)
    let ?f = "icmp_forward E (s_socket s) c 4 daddr 0 ?msg w"
    have "handle_icmp E buf plen payload uid ss w =
        Some (fst ?f, replace_first key (s\<lparr>s_proto := Icmp (fst (snd ?f))\<rparr>) ss, snd (snd ?f))"
      using assms sl c Some by (simp add: handle_icmp_def icmp_request_csum_def split_beta)
    then show ?thesis using f [of "s_socket s" c w] m Some c by auto
  next
    case None
    obtain r w1 where r: "icmp_register E 4 saddr daddr ident uid w = (r, w1)" by (metis prod.exhaust)
    show ?thesis
    proof (cases "sock < 0 \<or> e_protect E (w_calls w + 3) sock < 0")
      case True
      then have "r = None" "w_out w1 = w_out w" using r assms(11)
        by (auto simp: icmp_register_def open_icmp_socket_def ask_def sys_time_def called_def numeral_3_eq_3 Let_def
            split: if_split_asm)
      then show ?thesis using assms None r m True by (auto simp: handle_icmp_def)
    next
      case False
      then obtain s c where s: "r = Some s" "s_proto s = Icmp c" "s_socket s = sock" "i_version c = 4" "i_saddr c = saddr"
        "i_daddr c = daddr" "i_id c = ident" "i_uid c = uid" "\<not> i_stop c" "w_out w1 = w_out w @ [EpollAdd sock (EPOLLIN OR EPOLLERR)]"
        using r assms(11)
        by (auto simp: icmp_register_def open_icmp_socket_def ask_def sys_time_def sys_epoll_def called_def emit_def numeral_3_eq_3 Let_def
            split: if_split_asm)
      let ?f = "icmp_forward E (s_socket s) c 4 daddr 0 ?msg w1"
      have k: "key s" using s assms(9) by (simp add: icmp_match_def)
      have "handle_icmp E buf plen payload uid ss w =
          Some (fst ?f, s\<lparr>s_proto := Icmp (fst (snd ?f))\<rparr> # ss, snd (snd ?f))"
        using assms sl s(1,2) None r k by (simp add: handle_icmp_def icmp_request_csum_def split_beta)
      moreover have "i_version (fst (snd ?f)) = 4" "i_saddr (fst (snd ?f)) = saddr" "i_daddr (fst (snd ?f)) = daddr"
        "i_uid (fst (snd ?f)) = uid"
        using s by (simp_all add: icmp_forward_def Let_def split_beta)
      ultimately show ?thesis using f [of "s_socket s" c w1] m s None False by auto
    qed
  qed
qed

text \<open>C24: a reply of 8 to 65507 bytes on the socket of an IPv4 session is written to the tun device once, as a
  packet from the session's server to its client with a valid header; the message has the id of the
  request that made the session and a valid checksum, and the rest of the reply is unchanged. (Later
  requests of the same client to the same host share the session and get the first id; the checksum of an
  IPv6 reply is computed over a wrong length.)\<close>

theorem icmp_reply_restored:
  assumes "events AND EPOLLERR = 0" and "events AND EPOLLIN \<noteq> 0" and "i_version c = 4"
    and "length (i_saddr c) = 4" and "length (i_daddr c) = 4"
    and "e_recv E (w_calls w + 1) (s_socket s) 65507 = RecvData b" and "8 \<le> length b" and "length b \<le> 65507"
  shows "\<exists>p rs. w_out (snd (check_icmp_socket E s c events w)) =
      w_out w @ Received (s_socket s) b # TunWrite p # rs \<and> set rs \<subseteq> range PcapRecord \<and>
    length p = 20 + length b \<and> rd16 p 2 = Some (of_nat (20 + length b)) \<and> calc_checksum 0 (take 20 p) = 0xFFFF \<and>
    take 4 (drop 12 p) = i_daddr c \<and> take 4 (drop 16 p) = i_saddr c \<and>
    calc_checksum 0 (drop 20 p) = 0xFFFF \<and> rd16 (drop 20 p) 4 = Some (i_id c) \<and>
    take 2 (drop 20 p) = take 2 b \<and> drop 6 (drop 20 p) = drop 6 b"
proof -
  let ?c = "c\<lparr>i_time := e_time E (w_calls w)\<rparr>"
  let ?m = "icmp_seal 0 (i_id c) b"
  let ?h = "ip4_header IPPROTO_ICMP (i_daddr c) (i_saddr c) (20 + length ?m)"
  let ?w = "emit (Received (s_socket s) b) (called (called w))"
  have "snd (check_icmp_socket E s c events w) = snd (write_icmp E ?c ?m ?w)"
    using assms by (auto simp: check_icmp_socket_def sys_time_def sys_recv_def icmp_received_def
        ICMP4_MAXMSG_def called_def split_beta Let_def)
  moreover have "icmp_packet ?c ?m = ?h @ ?m" using assms(3) by (simp add: icmp_packet_def)
  moreover obtain rs where "w_out (snd (write_tun E (?h @ ?m) ?w)) = w_out ?w @ TunWrite (?h @ ?m) # rs"
    "set rs \<subseteq> range PcapRecord"
    using w_out_write_tun by blast
  ultimately have o: "w_out (snd (check_icmp_socket E s c events w)) =
      w_out w @ Received (s_socket s) b # TunWrite (?h @ ?m) # rs" "set rs \<subseteq> range PcapRecord"
    by (simp_all add: write_icmp_def)
  have h: "length ?h = 20" using assms(4,5) by simp
  have "take 4 (drop 12 (?h @ ?m)) = i_daddr c" "take 4 (drop 16 (?h @ ?m)) = i_saddr c"
    using assms(4,5) by (simp_all add: ip4_header_def Let_def u16_be_def u16_le_def)
  moreover have "rd16 (?h @ ?m) 2 = Some (of_nat (20 + length ?m))"
    using rd16_mid [of "[0x45, 0]" 2 "of_nat (20 + length ?m)"]
    by (simp add: ip4_header_def Let_def del: of_nat_add length_icmp_seal)
  moreover have "take 20 (?h @ ?m) = ?h" "drop 20 (?h @ ?m) = ?m" using h by simp_all
  moreover have "length b \<le> 65536" using assms(8) by simp
  note icmp_seal_valid [OF assms(7) this, of 0 "i_id c"]
  moreover note ip4_header_checksum [OF assms(5,4), of IPPROTO_ICMP "20 + length ?m"]
  ultimately show ?thesis
    using o h by (intro exI [of _ "?h @ ?m"] exI [of _ rs] conjI) (simp_all only: length_append length_icmp_seal)
qed

section \<open>Instances\<close>

definition example_icmp :: icmp_session where
  "example_icmp = \<lparr>i_time = 0, i_uid = 10, i_version = 4, i_saddr = [10, 1, 10, 1], i_daddr = [1, 2, 3, 4],
     i_id = 0x0102, i_stop = False\<rparr>"

definition example_icmp_session :: ng_session where
  "example_icmp_session = \<lparr>s_ptr = 0, s_proto = Icmp example_icmp, s_socket = 9, s_events = 9\<rparr>"

text \<open>An echo request with another id than the session's, and a reply of the server.\<close>

definition example_echo :: bytes where
  "example_echo = [0x45, 0, 0, 30, 0, 0, 0, 0, 64, 1, 0, 0, 10, 1, 10, 1, 1, 2, 3, 4] @
     [8, 0, 0, 0, 0, 5, 0, 1, 7, 7]"

lemma example_echo_reads:
  "pkt_addrs example_echo 4 = Some ([10, 1, 10, 1], [1, 2, 3, 4])" "rd example_echo 0 = Some 0x45"
  "rd example_echo 20 = Some ICMP_ECHO" "rd16 example_echo (20 + 4) = Some 5" "length example_echo = 30"
  by (simp_all add: pkt_addrs_def slice_def example_echo_def rd16_def rd_def be16_def ICMP_ECHO_def)

theorem icmp_request_forwarded_witness:
  "(\<exists>r ss w' msg. handle_icmp example_env example_echo 30 20 10 [example_icmp_session] example_world = Some (r, ss, w') \<and>
     w_out w' = [SendTo 9 msg (Sin4 [1, 2, 3, 4] 0)] \<and> rd16 msg 4 = Some 0xFFFA \<and> calc_checksum 0 msg = 0xFFFF) \<and>
   (\<exists>r s w' msg. handle_icmp example_env example_echo 30 20 10 [] example_world = Some (r, [s], w') \<and> s_socket s = 7 \<and>
     w_out w' = [EpollAdd 7 9, SendTo 7 msg (Sin4 [1, 2, 3, 4] 0)] \<and> rd16 msg 4 = Some 0xFFFA)"
proof
  let ?key = "icmp_match 4 [10, 1, 10, 1] [1, 2, 3, 4]"
  have n: "(NOT 5 :: u16) = 0xFFFA" "w_out example_world = []" by (simp_all add: example_world_def)
  have k: "find ?key [example_icmp_session] = Some example_icmp_session" "s_socket example_icmp_session = 9"
    by (simp_all add: icmp_match_def example_icmp_session_def example_icmp_def)
  have l: "(20 :: nat) + 8 \<le> 30" "(30 :: nat) \<le> length example_echo" "(30 :: nat) - 20 \<le> 65536"
    by (simp_all add: example_echo_reads)
  have v: "drop_bit 4 (0x45 :: u8) = 4" by simp
  note f = icmp_request_forwarded [OF example_echo_reads(2) v example_echo_reads(1,3) l example_echo_reads(4) refl refl refl,
      of example_env 10 _ example_world]
  show "\<exists>r ss w' msg. handle_icmp example_env example_echo 30 20 10 [example_icmp_session] example_world = Some (r, ss, w') \<and>
     w_out w' = [SendTo 9 msg (Sin4 [1, 2, 3, 4] 0)] \<and> rd16 msg 4 = Some 0xFFFA \<and> calc_checksum 0 msg = 0xFFFF"
    using f [of "[example_icmp_session]"] k n by (auto simp: echo_sent_def)
  have e: "\<not> (e_socket example_env (w_calls example_world + 2) 4 1 < 0)"
    "\<not> (e_protect example_env (w_calls example_world + 3) (e_socket example_env (w_calls example_world + 2) 4 1) < 0)"
    "e_socket example_env (w_calls example_world + 2) 4 1 = 7"
    by (simp_all add: example_env_def)
  show "\<exists>r s w' msg. handle_icmp example_env example_echo 30 20 10 [] example_world = Some (r, [s], w') \<and> s_socket s = 7 \<and>
     w_out w' = [EpollAdd 7 9, SendTo 7 msg (Sin4 [1, 2, 3, 4] 0)] \<and> rd16 msg 4 = Some 0xFFFA"
    using f [of "[]"] e n by (auto simp: echo_sent_def)
qed

theorem icmp_reply_restored_witness:
  "\<exists>p rs. w_out (snd (check_icmp_socket (example_env\<lparr>e_recv := \<lambda>k s n. RecvData [0, 0, 0, 0, 9, 9, 0, 1, 7]\<rparr>)
       example_icmp_session example_icmp 1 example_world)) = Received 9 [0, 0, 0, 0, 9, 9, 0, 1, 7] # TunWrite p # rs \<and>
     length p = 29 \<and> rd16 (drop 20 p) 4 = Some 0x0102 \<and> calc_checksum 0 (drop 20 p) = 0xFFFF"
proof -
  let ?E = "example_env\<lparr>e_recv := \<lambda>k s n. RecvData [0, 0, 0, 0, 9, 9, 0, 1, 7]\<rparr>"
  have c: "i_version example_icmp = 4" "length (i_saddr example_icmp) = 4" "length (i_daddr example_icmp) = 4"
    "i_id example_icmp = 0x0102" "s_socket example_icmp_session = 9" "w_out example_world = []"
    by (simp_all add: example_icmp_def example_icmp_session_def example_world_def)
  have e: "(1 :: u32) AND EPOLLERR = 0" "(1 :: u32) AND EPOLLIN \<noteq> 0" by simp_all
  have r: "e_recv ?E (w_calls example_world + 1) (s_socket example_icmp_session) 65507 =
      RecvData [0, 0, 0, 0, 9, 9, 0, 1, 7]" by simp
  show ?thesis using icmp_reply_restored [OF e c(1-3) r] c(4-6) by auto
qed

end
