(* ===== verification/Ng_Uid.thy ===== *)
theory Ng_Uid
  imports Ng_Types Ng_Util
begin

text \<open>
  \<open>get_uid\<close> and \<open>get_uid_sub\<close> of ip.c: the application that owns a connection, from a cache or from
  the tables of /proc/net. The cache is the global \<open>uid_cache\<close>, an array of \<open>uid_cache_size\<close>
  entries; a table is the list of its lines as \<open>sscanf\<close> reads them.
\<close>

definition UID_MAX_AGE :: int where "UID_MAX_AGE = 30000"

record uid_cache_entry =
  c_version :: nat
  c_protocol :: u8
  c_saddr :: bytes
  c_sport :: u16
  c_daddr :: bytes
  c_dport :: u16
  c_uid :: int
  c_time :: int

section \<open>The cache\<close>

text \<open>\<open>memcmp\<close> of the address, or all zero.\<close>

definition addr_wild :: "bytes \<Rightarrow> bytes \<Rightarrow> bool" where
  "addr_wild a addr \<longleftrightarrow> a = addr \<or> (\<forall>x\<in>set a. x = 0)"

definition cache_fresh :: "int \<Rightarrow> uid_cache_entry \<Rightarrow> bool" where
  "cache_fresh now e \<longleftrightarrow> now - c_time e \<le> UID_MAX_AGE"

definition cache_match :: "int \<Rightarrow> nat \<Rightarrow> u8 \<Rightarrow> bytes \<Rightarrow> u16 \<Rightarrow> bytes \<Rightarrow> u16 \<Rightarrow> uid_cache_entry \<Rightarrow> bool" where
  "cache_match now version protocol saddr sport daddr dport e \<longleftrightarrow>
     cache_fresh now e \<and> c_version e = version \<and> c_protocol e = protocol \<and> c_sport e = sport \<and>
     (c_dport e = dport \<or> c_dport e = 0) \<and> addr_wild (c_saddr e) saddr \<and> addr_wild (c_daddr e) daddr"

text \<open>Store an entry in the first slot from \<open>c\<close> on that has expired, or in a new slot at the end.\<close>

fun cache_slot :: "int \<Rightarrow> uid_cache_entry list \<Rightarrow> nat \<Rightarrow> nat" where
  "cache_slot now [] c = c"
| "cache_slot now (e # es) c = (if \<not> cache_fresh now e then c else cache_slot now es (c + 1))"

definition cache_store :: "int \<Rightarrow> nat \<Rightarrow> uid_cache_entry \<Rightarrow> uid_cache_entry list \<Rightarrow> nat \<times> uid_cache_entry list" where
  "cache_store now c e cache =
     (let c = cache_slot now (drop c cache) c
      in (c, if c \<ge> length cache then cache @ [e] else cache[c := e]))"

section \<open>The tables of /proc/net\<close>

text \<open>\<open>htonl\<close> of each word of an address.\<close>

fun swap_words :: "bytes \<Rightarrow> bytes" where
  "swap_words (a # b # c # d # xs) = [d, c, b, a] @ swap_words xs"
| "swap_words xs = xs"

definition proc_file :: "nat \<Rightarrow> u8 \<Rightarrow> bool" where
  "proc_file version protocol \<longleftrightarrow>
     protocol = IPPROTO_ICMP \<and> version = 4 \<or> protocol = IPPROTO_ICMPV6 \<and> version = 6 \<or>
     protocol = IPPROTO_TCP \<or> protocol = IPPROTO_UDP"

definition line_match :: "bytes \<Rightarrow> u16 \<Rightarrow> bytes \<Rightarrow> u16 \<Rightarrow> proc_line \<Rightarrow> bool" where
  "line_match saddr sport daddr dport l \<longleftrightarrow>
     l_sport l = uint sport \<and> (l_dport l = uint dport \<or> l_dport l = 0) \<and>
     addr_wild (swap_words (hex2bytes (l_saddr l))) saddr \<and>
     addr_wild (swap_words (hex2bytes (l_daddr l))) daddr"

definition line_entry :: "int \<Rightarrow> nat \<Rightarrow> u8 \<Rightarrow> proc_line \<Rightarrow> uid_cache_entry" where
  "line_entry now version protocol l =
     \<lparr>c_version = version, c_protocol = protocol, c_saddr = swap_words (hex2bytes (l_saddr l)),
      c_sport = of_int (l_sport l), c_daddr = swap_words (hex2bytes (l_daddr l)),
      c_dport = of_int (l_dport l), c_uid = l_uid l, c_time = now\<rparr>"

definition line_ok :: "nat \<Rightarrow> proc_line \<Rightarrow> bool" where
  "line_ok ws l \<longleftrightarrow> l_fields l = 5 \<and> length (l_saddr l) = ws * 8 \<and> length (l_daddr l) = ws * 8"

text \<open>The lines after the first: each well-formed one goes into the cache, the last that matches
  gives the uid; a line that does not parse ends the search with -2.\<close>

fun uid_scan :: "int \<Rightarrow> nat \<Rightarrow> u8 \<Rightarrow> bytes \<Rightarrow> u16 \<Rightarrow> bytes \<Rightarrow> u16 \<Rightarrow> proc_line list \<Rightarrow> int \<Rightarrow> nat \<Rightarrow>
    uid_cache_entry list \<Rightarrow> int \<times> uid_cache_entry list" where
  "uid_scan now version protocol saddr sport daddr dport [] uid c cache = (uid, cache)"
| "uid_scan now version protocol saddr sport daddr dport (l # ls) uid c cache =
     (if line_ok (if version = 4 then 1 else 4) l
      then let uid = (if line_match saddr sport daddr dport l then l_uid l else uid);
               (c, cache) = cache_store now c (line_entry now version protocol l) cache
           in uid_scan now version protocol saddr sport daddr dport ls uid c cache
      else (-2, cache))"

definition get_uid_sub :: "env \<Rightarrow> nat \<Rightarrow> u8 \<Rightarrow> bytes \<Rightarrow> u16 \<Rightarrow> bytes \<Rightarrow> u16 \<Rightarrow> int \<Rightarrow> uid_cache_entry list \<Rightarrow> world \<Rightarrow>
    int \<times> uid_cache_entry list \<times> world" where
  "get_uid_sub E version protocol saddr sport daddr dport now cache w =
     (case find (cache_match now version protocol saddr sport daddr dport) cache of
        Some e \<Rightarrow> (c_uid e, cache, w)
      | None \<Rightarrow>
          if \<not> proc_file version protocol then (-1, cache, w)
          else (case ask (\<lambda>k. e_proc E k version protocol) w of
                  (None, w) \<Rightarrow> (-2, cache, w)
                | (Some ls, w) \<Rightarrow>
                    let (uid, cache) = uid_scan now version protocol saddr sport daddr dport (drop 1 ls) (-1) 0 cache
                    in (uid, cache, w)))"

text \<open>An IPv4 address is looked up as an IPv4-mapped IPv6 address first.\<close>

definition v4_mapped :: "bytes \<Rightarrow> bytes" where
  "v4_mapped a = replicate 10 0 @ [0xFF, 0xFF] @ a"

definition get_uid :: "env \<Rightarrow> nat \<Rightarrow> u8 \<Rightarrow> bytes \<Rightarrow> u16 \<Rightarrow> bytes \<Rightarrow> u16 \<Rightarrow> uid_cache_entry list \<Rightarrow> world \<Rightarrow>
    int \<times> uid_cache_entry list \<times> world" where
  "get_uid E version protocol saddr sport daddr dport cache w =
     (let (now, w) = ask (e_wall E) w;
          (uid, cache, w) =
            (if version = 4
             then get_uid_sub E 6 protocol (v4_mapped saddr) sport (v4_mapped daddr) dport now cache w
             else (-1, cache, w))
      in if uid = -1 then get_uid_sub E version protocol saddr sport daddr dport now cache w
         else (uid, cache, w))"

section \<open>The cache holds what was read\<close>

text \<open>A slot is at or behind \<open>c\<close>, and an entry it overwrites has expired.\<close>

lemma cache_slot_bounds: "c \<le> cache_slot now es c \<and> cache_slot now es c \<le> c + length es"
proof (induction es arbitrary: c)
  case (Cons e es)
  show ?case using Cons.IH [of "c + 1"] by simp
qed simp

lemma cache_slot_stale:
  "cache_slot now es c < c + length es \<Longrightarrow> \<not> cache_fresh now (es ! (cache_slot now es c - c))"
proof (induction es arbitrary: c)
  case (Cons e es)
  show ?case
  proof (cases "cache_fresh now e")
    case True
    then have "cache_slot now es (c + 1) < (c + 1) + length es" using Cons.prems by simp
    from Cons.IH [OF this] cache_slot_bounds [of "c + 1" now es] True show ?thesis
      by (simp add: nth_Cons' diff_Suc split: nat.split)
  qed simp
qed simp

lemma cache_store_set:
  assumes "cache_store now c e cache = (c', cache')" and "c \<le> length cache"
  shows "e \<in> set cache'" and "set cache' \<subseteq> insert e (set cache)"
    and "x \<in> set cache \<Longrightarrow> cache_fresh now x \<Longrightarrow> x \<in> set cache'"
    and "c' \<le> length cache'"
proof -
  let ?i = "cache_slot now (drop c cache) c"
  have c: "cache' = (if ?i \<ge> length cache then cache @ [e] else cache[?i := e])" "c' = ?i"
    using assms(1) by (auto simp: cache_store_def Let_def)
  have st: "\<not> cache_fresh now (cache ! ?i)" if "?i < length cache"
    using cache_slot_stale [of now "drop c cache" c] cache_slot_bounds [of c now "drop c cache"] that assms(2) by simp
  have up: "?i \<le> length cache" using cache_slot_bounds [of c now "drop c cache"] assms(2) by simp
  show "e \<in> set cache'" using c by (auto simp: set_update_memI)
  show "set cache' \<subseteq> insert e (set cache)" using c set_update_subset_insert [of cache ?i e] by auto
  show "c' \<le> length cache'" using c up by auto
  show "x \<in> set cache'" if x: "x \<in> set cache" "cache_fresh now x"
  proof (cases "?i \<ge> length cache")
    case False
    obtain j where j: "j < length cache" "cache ! j = x" using x(1) by (auto simp: in_set_conv_nth)
    then have "j \<noteq> ?i" using st False x(2) by auto
    then show ?thesis using c False j by (metis length_list_update nth_list_update_neq nth_mem)
  qed (use c x in auto)
qed

text \<open>A scan of well-formed lines: the uid of the last that matches, and every line in the cache
  beside the entries that have not expired.\<close>

lemma uid_scan_spec:
  assumes "\<forall>l\<in>set ls. line_ok (if version = 4 then 1 else 4) l" and "c \<le> length cache"
    and "uid_scan now version protocol saddr sport daddr dport ls uid c cache = (u, cache')"
  shows "u = (case filter (line_match saddr sport daddr dport) ls of [] \<Rightarrow> uid | ms \<Rightarrow> l_uid (last ms)) \<and>
    line_entry now version protocol ` set ls \<subseteq> set cache' \<and>
    {e \<in> set cache. cache_fresh now e} \<subseteq> set cache' \<and>
    set cache' \<subseteq> set cache \<union> line_entry now version protocol ` set ls"
  using assms
proof (induction ls arbitrary: uid c cache)
  case (Cons l ls)
  let ?e = "line_entry now version protocol l"
  obtain c1 cache1 where st: "cache_store now c ?e cache = (c1, cache1)" by (metis prod.exhaust)
  note s = cache_store_set [OF st Cons.prems(2)]
  have fr: "cache_fresh now ?e" by (simp add: cache_fresh_def line_entry_def UID_MAX_AGE_def)
  let ?u = "if line_match saddr sport daddr dport l then l_uid l else uid"
  have "uid_scan now version protocol saddr sport daddr dport ls ?u c1 cache1 = (u, cache')"
    using Cons.prems(1,3) st by simp
  from Cons.IH [OF _ s(4) this] Cons.prems(1)
  have ih: "u = (case filter (line_match saddr sport daddr dport) ls of [] \<Rightarrow> ?u | ms \<Rightarrow> l_uid (last ms))"
    "line_entry now version protocol ` set ls \<subseteq> set cache'"
    "{e \<in> set cache1. cache_fresh now e} \<subseteq> set cache'"
    "set cache' \<subseteq> set cache1 \<union> line_entry now version protocol ` set ls" by auto
  have "u = (case filter (line_match saddr sport daddr dport) (l # ls) of [] \<Rightarrow> uid | ms \<Rightarrow> l_uid (last ms))"
    using ih(1) by (auto split: list.splits)
  moreover have "?e \<in> set cache'" using s(1) fr ih(3) by blast
  ultimately show ?case using ih(2-4) s(2,3) by auto
qed simp

text \<open>For 16-bit ports, a cached line matches as the line itself.\<close>

lemma line_entry_match:
  assumes "l_sport l \<in> {0..<65536}" and "l_dport l \<in> {0..<65536}"
  shows "cache_match now' version protocol saddr sport daddr dport (line_entry now version protocol l) \<longleftrightarrow>
    now' - now \<le> UID_MAX_AGE \<and> line_match saddr sport daddr dport l"
proof -
  have w: "(of_int i = (p :: u16)) = (i = uint p)" if "i \<in> {0..<65536}" for i p
  proof -
    have "uint (of_int i :: u16) = i" using that by (simp add: uint_word_of_int take_bit_int_eq_self)
    then show ?thesis by (metis word_of_int_uint of_int_uint)
  qed
  have z: "(of_int i = (0 :: u16)) = (i = 0)" if "i \<in> {0..<65536}" for i
    using w [OF that, of 0] by simp
  show ?thesis
    by (auto simp: cache_match_def cache_fresh_def line_match_def line_entry_def w [OF assms(1)]
        w [OF assms(2)] z [OF assms(2)])
qed

text \<open>C25: a lookup that is not in the cache answers with the last matching line of the table, or -1.
  For the next 30 seconds the same lookup is answered without reading the table again, when a line
  matched, with the uid of a matching line; when none matched the answer is not cached.\<close>

theorem get_uid_sub_cached:
  assumes "find (cache_match now version protocol saddr sport daddr dport) cache = None"
    and "proc_file version protocol" and "e_proc E (w_calls w) version protocol = Some (hdr # ls)"
    and "\<forall>l\<in>set ls. line_ok (if version = 4 then 1 else 4) l \<and> l_sport l \<in> {0..<65536} \<and> l_dport l \<in> {0..<65536}"
    and "now \<le> now'" and "now' \<le> now + 30000"
  shows "\<exists>u cache' w'. get_uid_sub E version protocol saddr sport daddr dport now cache w = (u, cache', w') \<and>
    (let ms = filter (line_match saddr sport daddr dport) ls in
      if ms = [] then u = -1 \<and> find (cache_match now' version protocol saddr sport daddr dport) cache' = None
      else u = l_uid (last ms) \<and>
        (\<exists>l\<in>set ms. get_uid_sub E version protocol saddr sport daddr dport now' cache' w' = (l_uid l, cache', w')))"
proof -
  let ?m = "line_match saddr sport daddr dport"
  let ?cm = "cache_match now' version protocol saddr sport daddr dport"
  obtain u cache' where sc: "uid_scan now version protocol saddr sport daddr dport ls (-1) 0 cache = (u, cache')"
    by (metis prod.exhaust)
  have g: "get_uid_sub E version protocol saddr sport daddr dport now cache w = (u, cache', called w)"
    using assms(1-3) sc by (simp add: get_uid_sub_def ask_def)
  note s = uid_scan_spec [OF _ _ sc]
  have fr: "now' - now \<le> UID_MAX_AGE" using assms(6) by (simp add: UID_MAX_AGE_def)
  have old: "\<not> ?cm e" if "e \<in> set cache" for e
    using assms(1,5) that by (auto simp: find_None_iff cache_match_def cache_fresh_def)
  have new: "?cm (line_entry now version protocol l) \<longleftrightarrow> ?m l" if "l \<in> set ls" for l
    using line_entry_match [of l now'] assms(4) that fr by blast
  have "\<exists>l\<in>set (filter ?m ls). get_uid_sub E version protocol saddr sport daddr dport now' cache' (called w) =
      (l_uid l, cache', called w)" if ne: "filter ?m ls \<noteq> []"
  proof -
    obtain l where "l \<in> set ls" "?m l" using ne by (metis filter_False)
    then have "line_entry now version protocol l \<in> set cache'" "?cm (line_entry now version protocol l)"
      using new s assms(4) by auto
    then have "find ?cm cache' \<noteq> None" by (auto simp: find_None_iff)
    then obtain e where e: "find ?cm cache' = Some e" by auto
    then have "e \<in> set cache'" "?cm e" by (auto simp: find_Some_iff)
    then obtain k where "k \<in> set ls" "?m k" "e = line_entry now version protocol k"
      using s old new assms(4) by blast
    then show ?thesis using e by (intro bexI [of _ k]) (simp_all add: get_uid_sub_def line_entry_def)
  qed
  moreover have "find ?cm cache' = None" if "filter ?m ls = []"
    using that s old new assms(4) by (auto simp: find_None_iff filter_empty_conv)
  moreover have "u = (case filter ?m ls of [] \<Rightarrow> -1 | ms \<Rightarrow> l_uid (last ms))" using s assms(4) by blast
  ultimately show ?thesis using g by (auto simp: Let_def split: list.splits)
qed

definition example_lines :: "proc_line list" where
  "example_lines =
     [\<lparr>l_fields = 0, l_saddr = [], l_sport = 0, l_daddr = [], l_dport = 0, l_uid = 0\<rparr>,
      \<lparr>l_fields = 5, l_saddr = [48, 49, 48, 65, 48, 49, 48, 65], l_sport = 4000, l_daddr = [48, 48, 48, 48, 48, 48, 48, 48],
       l_dport = 0, l_uid = 10077\<rparr>]"

theorem get_uid_sub_cached_witness:
  "\<exists>u cache' w'. get_uid_sub (example_env\<lparr>e_proc := \<lambda>k v p. Some example_lines\<rparr>) 4 IPPROTO_UDP
       [10, 1, 10, 1] 4000 [1, 2, 3, 4] 53 1000 [] example_world = (10077, cache', w') \<and>
     get_uid_sub (example_env\<lparr>e_proc := \<lambda>k v p. Some example_lines\<rparr>) 4 IPPROTO_UDP
       [10, 1, 10, 1] 4000 [1, 2, 3, 4] 53 20000 cache' w' = (10077, cache', w')"
proof -
  let ?E = "example_env\<lparr>e_proc := \<lambda>k v p. Some example_lines\<rparr>"
  let ?g = "get_uid_sub ?E 4 IPPROTO_UDP [10, 1, 10, 1] 4000 [1, 2, 3, 4] 53"
  let ?l = "example_lines ! 1"
  have "hex2bytes [48, 49, 48, 65, 48, 49, 48, 65] = [1, 10, 1, 10]"
    "hex2bytes [48, 48, 48, 48, 48, 48, 48, 48] = [0, 0, 0, 0]"
    by code_simp+
  then have f: "filter (line_match [10, 1, 10, 1] 4000 [1, 2, 3, 4] 53) [?l] = [?l]"
    by (simp add: line_match_def example_lines_def addr_wild_def)
  have p: "e_proc ?E (w_calls example_world) 4 IPPROTO_UDP = Some (example_lines ! 0 # [?l])"
    by (simp add: example_lines_def)
  have k: "\<forall>l\<in>set [?l]. line_ok (if 4 = (4::nat) then 1 else 4) l \<and> l_sport l \<in> {0..<65536} \<and> l_dport l \<in> {0..<65536}"
    "l_uid ?l = 10077"
    by (simp_all add: example_lines_def line_ok_def)
  have q: "find (cache_match 1000 4 IPPROTO_UDP [10, 1, 10, 1] 4000 [1, 2, 3, 4] 53) [] = None"
    "proc_file 4 IPPROTO_UDP" "(1000 :: int) \<le> 20000" "(20000 :: int) \<le> 1000 + 30000"
    by (simp_all add: proc_file_def)
  obtain u cache' w' where u: "?g 1000 [] example_world = (u, cache', w')"
    "let ms = [?l] in if ms = [] then u = -1 \<and> find (cache_match 20000 4 IPPROTO_UDP [10, 1, 10, 1] 4000
        [1, 2, 3, 4] 53) cache' = None
      else u = l_uid (last ms) \<and> (\<exists>l\<in>set ms. ?g 20000 cache' w' = (l_uid l, cache', w'))"
    using get_uid_sub_cached [OF q(1,2) p k(1) q(3,4)] unfolding f by (elim exE conjE)
  then show ?thesis using k(2) by (auto simp: Let_def)
qed

end
