(* ===== verification/Ng_Ip.thy ===== *)
theory Ng_Ip
  imports Ng_Uid Ng_Icmp Ng_Udp Ng_Tls Ng_Http
begin

text \<open>
  \<open>handle_ip\<close> and \<open>check_tun\<close> of ip.c: a packet from the tun device is parsed, counted against the
  session limit, given a uid, checked with the Java side and dispatched to the protocol handlers.
  \<open>buf\<close> is the buffer the packet was read into and \<open>plen\<close> the length of the packet; lengths are
  unsigned, so that a payload beyond the end of the packet counts as long.
\<close>

section \<open>Layers\<close>

definition is_lower_layer :: "u8 \<Rightarrow> bool" where
  "is_lower_layer p \<longleftrightarrow> p = 0 \<or> p = 60 \<or> p = 43 \<or> p = 44 \<or> p = 51 \<or> p = 50 \<or> p = 60 \<or> p = 135"

definition is_upper_layer :: "u8 \<Rightarrow> bool" where
  "is_upper_layer p \<longleftrightarrow> p = IPPROTO_TCP \<or> p = IPPROTO_UDP \<or> p = IPPROTO_ICMP \<or> p = IPPROTO_ICMPV6"

text \<open>The loop over the extension headers; \<open>off\<close> is a 16-bit variable, so on a buffer of more than
  64 KiB it need not end.\<close>

partial_function (option) ip6_ext_loop :: "bytes \<Rightarrow> u16 \<Rightarrow> u8 \<Rightarrow> (u16 \<times> u8) option" where
  "ip6_ext_loop buf off protocol = do {
     nxt \<leftarrow> rd buf (unat off);
     if is_lower_layer nxt \<and> \<not> is_upper_layer protocol then do {
       len \<leftarrow> rd buf (unat off + 1);
       ip6_ext_loop buf (off + (8 + ucast len)) nxt }
     else Some (off, protocol) }"

definition ip6_payload :: "bytes \<Rightarrow> u8 \<Rightarrow> (u8 \<times> nat) option" where
  "ip6_payload buf nxt =
     (if is_upper_layer nxt then Some (nxt, 40)
      else do {
        (off, protocol) \<leftarrow> ip6_ext_loop buf 40 nxt;
        Some (if is_upper_layer protocol then (protocol, 40 + unat off) else (nxt, 40)) })"

section \<open>The headers\<close>

text \<open>Version, protocol, addresses and the offset of the payload; the inner \<open>None\<close> is a packet that
  is dropped.\<close>

type_synonym ip_hdr = "nat \<times> u8 \<times> bytes \<times> bytes \<times> nat"

definition ip_header :: "env \<Rightarrow> bytes \<Rightarrow> nat \<Rightarrow> ip_hdr option option" where
  "ip_header E buf plen = do {
     b0 \<leftarrow> rd buf 0;
     let version = unat (drop_bit 4 b0);
     if version = 4 then
       if plen < 20 then Some None
       else do {
         protocol \<leftarrow> rd buf 9;
         (saddr, daddr) \<leftarrow> pkt_addrs buf 4;
         f0 \<leftarrow> rd buf 6;
         f1 \<leftarrow> rd buf 7;
         tot_len \<leftarrow> rd16 buf 2;
         h \<leftarrow> slice buf 0 20;
         let ipoptlen = ((b0 AND 0x0F) - 5) * 4;
         if le16 f0 f1 AND 0x2000 \<noteq> 0 then Some None
         else if unat tot_len \<noteq> plen then Some None
         else if verbose_log E \<and> calc_checksum 0 h = 0 then Some None
         else Some (Some (4, protocol, saddr, daddr, 20 + unat ipoptlen)) }
     else if version = 6 then
       if plen < 40 then Some None
       else do {
         nxt \<leftarrow> rd buf 6;
         (protocol, payload) \<leftarrow> ip6_payload buf nxt;
         (saddr, daddr) \<leftarrow> pkt_addrs buf 6;
         Some (Some (6, protocol, saddr, daddr, payload)) }
     else Some None }"

text \<open>Ports, the SYN flag, the flags and the data text for the Java side.\<close>

definition tcp_flag_text :: "tcphdr \<Rightarrow> bytes" where
  "tcp_flag_text h =
     (if th_syn h then [83] else []) @ (if th_ack h then [65] else []) @ (if th_psh h then [80] else []) @
     (if th_fin h then [70] else []) @ (if th_rst h then [82] else [])"

definition is_icmp :: "u8 \<Rightarrow> bool" where
  "is_icmp protocol \<longleftrightarrow> protocol = IPPROTO_ICMP \<or> protocol = IPPROTO_ICMPV6"

text \<open>\<open>length - (payload - pkt) < n\<close>, in the unsigned arithmetic of \<open>size_t\<close>.\<close>

definition too_short :: "nat \<Rightarrow> nat \<Rightarrow> nat \<Rightarrow> bool" where
  "too_short plen payload n \<longleftrightarrow> payload \<le> plen \<and> plen - payload < n"

definition ip_ports :: "bytes \<Rightarrow> nat \<Rightarrow> u8 \<Rightarrow> nat \<Rightarrow> (u16 \<times> u16 \<times> bool \<times> bytes \<times> pkt_data) option option" where
  "ip_ports buf plen protocol payload =
     (if is_icmp protocol then
        if too_short plen payload 8 then Some None
        else do {
          ty \<leftarrow> rd buf payload;
          code \<leftarrow> rd buf (payload + 1);
          ident \<leftarrow> rd16 buf (payload + 4);
          Some (Some (ident, ident, False, [], IcmpText ty code)) }
      else if protocol = IPPROTO_UDP then
        if too_short plen payload 8 then Some None
        else do {
          sport \<leftarrow> rd16 buf payload;
          dport \<leftarrow> rd16 buf (payload + 2);
          Some (Some (sport, dport, False, [], NoText)) }
      else if protocol = IPPROTO_TCP then
        if too_short plen payload 20 then Some None
        else do {
          h \<leftarrow> get_tcphdr buf payload;
          Some (Some (th_source h, th_dest h, th_syn h, tcp_flag_text h, NoText)) }
      else Some (Some (0, 0, False, [], NoText)))"

section \<open>Limit, server name and uid\<close>

text \<open>Does the packet need a new session?\<close>

definition ip_starts :: "env \<Rightarrow> bytes \<Rightarrow> u8 \<Rightarrow> nat \<Rightarrow> bool \<Rightarrow> ng_session list \<Rightarrow> bool option" where
  "ip_starts E buf protocol payload syn ss =
     (if is_icmp protocol then Some True
      else if protocol = IPPROTO_UDP then do { has \<leftarrow> has_udp_session E buf payload ss; Some (\<not> has) }
      else Some (protocol = IPPROTO_TCP \<and> syn))"

text \<open>Offset and length of the data of a segment; the length is a 16-bit variable.\<close>

definition tcp_data :: "bytes \<Rightarrow> nat \<Rightarrow> nat \<Rightarrow> (nat \<times> u16) option" where
  "tcp_data buf plen payload = do {
     h \<leftarrow> get_tcphdr buf payload;
     let data = payload + 20 + unat ((th_doff h - 5) * 4);
     Some (data, of_int (int plen - int data)) }"

definition ip_sni :: "bytes \<Rightarrow> nat \<Rightarrow> u8 \<Rightarrow> nat \<Rightarrow> bytes option option" where
  "ip_sni buf plen protocol payload =
     (if protocol = IPPROTO_TCP then do {
        (data, datalen) \<leftarrow> tcp_data buf plen payload;
        get_sni (drop data buf) datalen }
      else Some None)"

text \<open>The uid: for a server name, and again for a packet that needs a session.\<close>

definition ip_uid :: "env \<Rightarrow> ip_hdr \<Rightarrow> u16 \<Rightarrow> u16 \<Rightarrow> bytes option \<Rightarrow> bool \<Rightarrow> uid_cache_entry list \<Rightarrow> world \<Rightarrow>
    int \<times> uid_cache_entry list \<times> world" where
  "ip_uid E hdr sport dport sni starts cache w =
     (case hdr of (version, protocol, saddr, daddr, payload) \<Rightarrow>
        (let (uid, cache, w) =
               (case sni of
                  None \<Rightarrow> (-1, cache, w)
                | Some name \<Rightarrow>
                    let (uid, cache, w) = get_uid E version protocol saddr sport daddr dport cache w
                    in (uid, cache, emit (DnsResolved (cstr name) (cstr name) daddr (-1) uid) w))
         in if starts then
              if sdk E \<le> 28 then get_uid E version protocol saddr sport daddr dport cache w
              else let (uid, w) = ask (\<lambda>k. e_uid_q E k version protocol saddr sport daddr dport) w
                   in (uid, cache, w)
            else (uid, cache, w)))"

section \<open>Is the packet allowed?\<close>

definition is_address_allowed :: "env \<Rightarrow> pkt_info \<Rightarrow> world \<Rightarrow> allowed option \<times> world" where
  "is_address_allowed E p w =
     (case ask (\<lambda>k. e_allowed E k p) w of
        (None, w) \<Rightarrow> (None, w)
      | (Some (ra, rp), w) \<Rightarrow>
          (Some \<lparr>raddr = (case ra of None \<Rightarrow> [] | Some a \<Rightarrow> a), rport = of_int rp\<rparr>, w))"

definition is_domain_blocked :: "env \<Rightarrow> bytes \<Rightarrow> world \<Rightarrow> bool \<times> world" where
  "is_domain_blocked E name w = ask (\<lambda>k. e_blocked E k name) w"

text \<open>The host name of a plain HTTP request; the string stays empty when none is found, and is the
  null pointer (no text in Java) when \<open>malloc\<close> fails.\<close>

definition ip_hostname :: "env \<Rightarrow> bytes \<Rightarrow> nat \<Rightarrow> u8 \<Rightarrow> nat \<Rightarrow> bytes \<Rightarrow> world \<Rightarrow> (bytes \<times> world) option" where
  "ip_hostname E buf plen protocol payload name w =
     (if name = [] \<and> protocol = IPPROTO_TCP then do {
        (data, datalen) \<leftarrow> tcp_data buf plen payload;
        d \<leftarrow> slice buf data (unat datalen);
        let (mem, w) = ask (e_mem E) w;
        Some (case snd (parse_http_header mem d False) of Buffer h \<Rightarrow> cstr h | _ \<Rightarrow> [], w) }
      else Some (name, w))"

definition ip_allowed :: "env \<Rightarrow> bytes \<Rightarrow> nat \<Rightarrow> ip_hdr \<Rightarrow> u16 \<Rightarrow> u16 \<Rightarrow> bool \<Rightarrow> bytes \<Rightarrow> pkt_data \<Rightarrow> bytes option \<Rightarrow> int \<Rightarrow>
    ng_session list \<Rightarrow> world \<Rightarrow> (bool \<times> allowed option \<times> world) option" where
  "ip_allowed E buf plen hdr sport dport syn flags data sni uid ss w =
     (case hdr of (version, protocol, saddr, daddr, payload) \<Rightarrow>
        (let name = (case sni of None \<Rightarrow> [] | Some n \<Rightarrow> cstr n) in do {
           known \<leftarrow> (if protocol = IPPROTO_UDP then has_udp_session E buf payload ss else Some False);
           if known then Some (True, None, w)
           else if protocol = IPPROTO_TCP \<and> (\<not> syn \<or> uid = 0 \<and> dport = 53) \<and> name = [] then Some (True, None, w)
           else do {
             (host, w) \<leftarrow> ip_hostname E buf plen protocol payload name w;
             let (redirect, w) = is_address_allowed E
               \<lparr>p_version = version, p_protocol = protocol, p_flags = flags, p_saddr = saddr, p_sport = sport,
                p_daddr = daddr, p_dport = dport, p_data = (if name \<noteq> [] then SniText else data), p_uid = uid,
                p_host = host, p_tls = (sni \<noteq> None)\<rparr> w;
             let allowed = (redirect \<noteq> None);
             let redirect = (case redirect of
                 Some r \<Rightarrow> if raddr r = [] \<or> rport r = 0 then None else Some r
               | None \<Rightarrow> None);
             let (blocked, w) = (if allowed \<and> name \<noteq> [] then is_domain_blocked E name w else (False, w));
             Some (allowed \<and> \<not> blocked, redirect, w) } }))"

section \<open>handle_ip\<close>

definition ip_dispatch :: "env \<Rightarrow> bytes \<Rightarrow> nat \<Rightarrow> u8 \<Rightarrow> nat \<Rightarrow> int \<Rightarrow> bool \<Rightarrow> bool \<Rightarrow> allowed option \<Rightarrow>
    ng_session list \<Rightarrow> world \<Rightarrow> (ng_session list \<times> world) option" where
  "ip_dispatch E buf plen protocol payload uid named allowed redirect ss w =
     (if allowed then
        if is_icmp protocol then do { (_, ss, w) \<leftarrow> handle_icmp E buf plen payload uid ss w; Some (ss, w) }
        else if protocol = IPPROTO_UDP then do {
          (_, ss, w) \<leftarrow> handle_udp E buf plen payload uid redirect ss w; Some (ss, w) }
        else if protocol = IPPROTO_TCP then do {
          (_, ss, w) \<leftarrow> handle_tcp E buf plen payload uid True redirect ss w; Some (ss, w) }
        else Some (ss, w)
      else if protocol = IPPROTO_UDP then block_udp E buf payload uid ss w
      else if protocol = IPPROTO_TCP \<and> named then do {
        (_, ss, w) \<leftarrow> handle_tcp E buf plen payload uid False redirect ss w; Some (ss, w) }
      else Some (ss, w))"

definition handle_ip :: "env \<Rightarrow> bytes \<Rightarrow> nat \<Rightarrow> int \<Rightarrow> int \<Rightarrow> ng_session list \<Rightarrow> uid_cache_entry list \<Rightarrow> world \<Rightarrow>
    (ng_session list \<times> uid_cache_entry list \<times> world) option" where
  "handle_ip E buf plen sessions maxsessions ss cache w = do {
     hdr \<leftarrow> ip_header E buf plen;
     (case hdr of
        None \<Rightarrow> Some (ss, cache, w)
      | Some (version, protocol, saddr, daddr, payload) \<Rightarrow> do {
          ports \<leftarrow> ip_ports buf plen protocol payload;
          (case ports of
             None \<Rightarrow> Some (ss, cache, w)
           | Some (sport, dport, syn, flags, data) \<Rightarrow> do {
               starts \<leftarrow> ip_starts E buf protocol payload syn ss;
               if sessions \<ge> maxsessions \<and> starts then Some (ss, cache, w)
               else do {
                 sni \<leftarrow> ip_sni buf plen protocol payload;
                 let hdr = (version, protocol, saddr, daddr, payload);
                 let (uid, cache, w) = ip_uid E hdr sport dport sni starts cache w;
                 (allowed, redirect, w) \<leftarrow> ip_allowed E buf plen hdr sport dport syn flags data sni uid ss w;
                 let named = (case sni of None \<Rightarrow> False | Some n \<Rightarrow> cstr n \<noteq> []);
                 (ss, w) \<leftarrow> ip_dispatch E buf plen protocol payload uid named allowed redirect ss w;
                 Some (ss, cache, w) } }) }) }"

section \<open>check_tun\<close>

text \<open>A read from the tun device into a buffer of \<open>get_mtu()\<close> bytes, of which the rest is what the
  heap held. The result is false when the loop has to end.\<close>

definition check_tun :: "env \<Rightarrow> u32 \<Rightarrow> int \<Rightarrow> int \<Rightarrow> ng_session list \<Rightarrow> uid_cache_entry list \<Rightarrow> world \<Rightarrow>
    (bool \<times> ng_session list \<times> uid_cache_entry list \<times> world) option" where
  "check_tun E events sessions maxsessions ss cache w =
     (if events AND EPOLLERR \<noteq> 0 then Some (False, ss, cache, emit ReportExit w)
      else if events AND EPOLLIN \<noteq> 0 then
        let mtu = unat get_mtu;
            (heap, w) = ask (e_heap E) w
        in (case ask (e_tun_read E) w of
              (RecvError err, w) \<Rightarrow>
                if err = EINTR \<or> err = EAGAIN then Some (True, ss, cache, w)
                else Some (False, ss, cache, emit ReportExit w)
            | (RecvData b, w) \<Rightarrow>
                if b = [] then Some (False, ss, cache, emit ReportExit w)
                else let b = take mtu b;
                         buf = take mtu (b @ heap @ replicate mtu 0);
                         w = (if pcap_open E then write_pcap_rec E b w else w)
                     in do {
                       (ss, cache, w) \<leftarrow> handle_ip E buf (length b) sessions maxsessions ss cache w;
                       Some (True, ss, cache, w) })
      else Some (True, ss, cache, w))"

end
