(* ===== verification/Ng_Ip_Props.thy ===== *)
theory Ng_Ip_Props
  imports Ng_Ip Ng_Udp_Machine
begin

text \<open>
  What the packet pipeline of ip.c guarantees: the session limit, that a packet Java does not allow
  leaves no trace outside, and two places where the pipeline does not do what its comments say.
\<close>

section \<open>Extension headers\<close>

lemma lower_not_upper: "is_lower_layer p \<Longrightarrow> \<not> is_upper_layer p"
  by (auto simp: is_lower_layer_def is_upper_layer_def)

lemma ip6_ext_loop_protocol:
  assumes "ip6_ext_loop buf off protocol = Some r"
  shows "is_upper_layer protocol \<or> \<not> is_upper_layer (snd r)"
proof (rule ip6_ext_loop.raw_induct [OF _ assms])
  fix f :: "bytes \<Rightarrow> u16 \<Rightarrow> u8 \<Rightarrow> (u16 \<times> u8) option" and buf :: bytes and off protocol and r :: "u16 \<times> u8"
  assume "\<And>buf off protocol r. f buf off protocol = Some r \<Longrightarrow> is_upper_layer protocol \<or> \<not> is_upper_layer (snd r)"
    and "do { nxt \<leftarrow> rd buf (unat off);
       if is_lower_layer nxt \<and> \<not> is_upper_layer protocol
       then do { len \<leftarrow> rd buf (unat off + 1); f buf (off + (8 + ucast len)) nxt }
       else Some (off, protocol) } = Some r"
  then show "is_upper_layer protocol \<or> \<not> is_upper_layer (snd r)"
    by (auto simp: bind_eq_Some_conv dest: lower_not_upper split: if_split_asm)
      (metis lower_not_upper prod.collapse)
qed

text \<open>The extension headers of an IPv6 packet are never skipped: the loop only goes on while the
  next header is another extension, so it never ends on a transport protocol, and the packet counts
  as one of its first header with a payload at 40. A TCP or UDP packet behind an extension header
  therefore reaches no protocol handler.\<close>

theorem ip6_extensions_not_skipped:
  "ip6_payload buf nxt = Some (protocol, payload) \<longleftrightarrow>
     protocol = nxt \<and> payload = 40 \<and> (is_upper_layer nxt \<or> (\<exists>r. ip6_ext_loop buf 40 nxt = Some r))"
  using ip6_ext_loop_protocol [of buf 40 nxt]
  by (fastforce simp: ip6_payload_def bind_eq_Some_conv split: if_splits)

section \<open>The session limit\<close>

lemma map_replace_first:
  "find P xs = Some x \<Longrightarrow> f y = f x \<Longrightarrow> map f (replace_first P y xs) = map f xs"
  by (induction xs) (auto split: if_split_asm)

abbreviation (input) ident :: "ng_session \<Rightarrow> nat \<times> int" where
  "ident s \<equiv> (s_ptr s, s_socket s)"

lemma handle_udp_known:
  assumes "handle_udp E buf plen payload uid redirect ss w = Some (r, ss', w')"
    and "udp_key buf payload = Some (version, saddr, source, daddr, dest)"
    and "find (udp_match version saddr source daddr dest) ss = Some s"
  shows "map ident ss' = map ident ss"
  using assms
  by (auto simp: handle_udp_def bind_eq_Some_conv map_replace_first split: proto_session.splits if_split_asm)

lemma handle_tcp_no_syn:
  assumes "handle_tcp E buf plen payload uid allowed redirect ss w = Some (r, ss', w')"
    and "get_tcphdr buf payload = Some h" and "\<not> th_syn h"
  shows "map ident ss' = map ident ss"
  using assms
  by (auto simp: handle_tcp_def bind_eq_Some_conv map_replace_first Let_def
      split: proto_session.splits if_split_asm option.splits)

text \<open>The UDP packet that needs no session has one, when port 53 is not kept from the engine.\<close>

lemma udp_has_session:
  assumes "has_udp_session E buf payload ss = Some True" and "fwd53 E \<or> rd16 buf (payload + 2) \<noteq> Some 53"
  obtains version saddr source daddr dest s where "udp_key buf payload = Some (version, saddr, source, daddr, dest)"
    "find (udp_match version saddr source daddr dest) ss = Some s"
  using assms by (auto simp: has_udp_session_def udp_key_def Let_def bind_eq_Some_conv)

lemma ip_dispatch_no_session:
  assumes "ip_dispatch E buf plen protocol payload uid named allowed redirect ss w = Some (ss', w')"
    and "ip_ports buf plen protocol payload = Some (Some (sport, dport, syn, flags, data))"
    and "ip_starts E buf protocol payload syn ss = Some False"
    and "protocol = IPPROTO_UDP \<longrightarrow> fwd53 E \<or> rd16 buf (payload + 2) \<noteq> Some 53"
    and "protocol = IPPROTO_UDP \<longrightarrow> allowed"
  shows "map ident ss' = map ident ss"
proof -
  have "\<not> is_icmp protocol" using assms(3) by (auto simp: ip_starts_def)
  moreover have "map ident ss' = map ident ss" if u: "protocol = IPPROTO_UDP"
  proof -
    have "has_udp_session E buf payload ss = Some True"
      using assms(3) u by (auto simp: ip_starts_def is_icmp_def bind_eq_Some_conv)
    then obtain version saddr source daddr dest s where
      "udp_key buf payload = Some (version, saddr, source, daddr, dest)"
      "find (udp_match version saddr source daddr dest) ss = Some s"
      using udp_has_session assms(4) u by blast
    then show ?thesis using assms(1,5) u handle_udp_known
      by (auto simp: ip_dispatch_def is_icmp_def bind_eq_Some_conv)
  qed
  moreover have "map ident ss' = map ident ss" if t: "protocol = IPPROTO_TCP"
  proof -
    obtain h where "get_tcphdr buf payload = Some h" "\<not> th_syn h"
      using assms(2,3) t by (auto simp: ip_ports_def ip_starts_def is_icmp_def bind_eq_Some_conv split: if_split_asm)
    then show ?thesis using assms(1) t handle_tcp_no_syn
      by (auto simp: ip_dispatch_def is_icmp_def bind_eq_Some_conv split: if_split_asm)
  qed
  ultimately show ?thesis using assms(1) by (auto simp: ip_dispatch_def split: if_split_asm)
qed

lemma ip_allowed_known_udp:
  assumes "ip_allowed E buf plen (version, IPPROTO_UDP, saddr, daddr, payload) sport dport syn flags data sni uid ss w =
      Some (allowed, redirect, w')" and "has_udp_session E buf payload ss = Some True"
  shows "allowed"
  using assms by (simp add: ip_allowed_def Let_def)

text \<open>A UDP packet to port 53.\<close>

definition dns_datagram :: "env \<Rightarrow> bytes \<Rightarrow> nat \<Rightarrow> bool" where
  "dns_datagram E buf plen \<longleftrightarrow>
     (\<exists>version saddr daddr payload. ip_header E buf plen = Some (Some (version, IPPROTO_UDP, saddr, daddr, payload)) \<and>
       rd16 buf (payload + 2) = Some 53)"

lemma handle_ip_limit:
  assumes "handle_ip E buf plen sessions maxsessions ss cache w = Some (ss', cache', w')"
    and "maxsessions \<le> sessions" and "fwd53 E \<or> \<not> dns_datagram E buf plen"
  shows "map ident ss' = map ident ss"
proof -
  obtain hdr where hdr: "ip_header E buf plen = Some hdr"
    using assms(1) by (auto simp: handle_ip_def bind_eq_Some_conv)
  show ?thesis
  proof (cases hdr)
    case None
    then show ?thesis using assms(1) hdr by (simp add: handle_ip_def)
  next
    case (Some h)
    obtain version protocol saddr daddr payload where h: "h = (version, protocol, saddr, daddr, payload)"
      by (metis prod.exhaust)
    obtain ports where ports: "ip_ports buf plen protocol payload = Some ports"
      using assms(1) hdr Some h by (auto simp: handle_ip_def bind_eq_Some_conv)
    show ?thesis
    proof (cases ports)
      case None
      then show ?thesis using assms(1) hdr Some h ports by (simp add: handle_ip_def)
    next
      case p: (Some p)
      obtain sport dport syn flags data where p': "p = (sport, dport, syn, flags, data)"
        by (metis prod.exhaust)
      obtain starts where st: "ip_starts E buf protocol payload syn ss = Some starts"
        using assms(1) hdr Some h ports p p' by (auto simp: handle_ip_def bind_eq_Some_conv)
      show ?thesis
      proof (cases starts)
        case True
        then show ?thesis using assms(1,2) hdr Some h ports p p' st by (simp add: handle_ip_def)
      next
        case False
        then obtain sni u c w1 allowed redirect w2 w3 where
          a: "ip_allowed E buf plen h sport dport syn flags data sni u ss w1 = Some (allowed, redirect, w2)"
          and d: "ip_dispatch E buf plen protocol payload u (case sni of None \<Rightarrow> False | Some n \<Rightarrow> cstr n \<noteq> [])
              allowed redirect ss w2 = Some (ss', w3)"
          using assms(1) hdr Some h ports p p' st
          by (auto simp: handle_ip_def bind_eq_Some_conv split_beta Let_def)
        have "protocol = IPPROTO_UDP \<longrightarrow> allowed"
        proof
          assume u: "protocol = IPPROTO_UDP"
          then have "has_udp_session E buf payload ss = Some True"
            using st False by (auto simp: ip_starts_def is_icmp_def bind_eq_Some_conv)
          then show allowed using a h u ip_allowed_known_udp by blast
        qed
        moreover have "ip_ports buf plen protocol payload = Some (Some (sport, dport, syn, flags, data))"
          "ip_starts E buf protocol payload syn ss = Some False"
          using ports p p' st False by simp_all
        moreover have "protocol = IPPROTO_UDP \<longrightarrow> fwd53 E \<or> rd16 buf (payload + 2) \<noteq> Some 53"
          using assms(3) hdr Some h by (auto simp: dns_datagram_def)
        ultimately show ?thesis using ip_dispatch_no_session [OF d] by blast
      qed
    qed
  qed
qed

text \<open>C9: with the session limit reached no packet makes a session: the list of sessions, by address and
  socket, is what it was; except for UDP packets to port 53 while \<open>fwd53\<close> is off, for which
  \<open>has_udp_session\<close> claims a session, so that they pass the limit.\<close>

theorem session_limit:
  assumes "handle_ip E buf plen sessions maxsessions ss cache w = Some (ss', cache', w')"
    and "maxsessions \<le> sessions" and "fwd53 E \<or> \<not> dns_datagram E buf plen"
  shows "map s_ptr ss' = map s_ptr ss \<and> map s_socket ss' = map s_socket ss"
  using handle_ip_limit [OF assms]
  by (metis (no_types, lifting) comp_apply fst_conv list.map_comp list.map_cong0 snd_conv)

theorem session_limit_witness:
  "\<exists>ss' cache' w'. handle_ip example_env example_echo 30 409 409 [] [] example_world = Some (ss', cache', w') \<and>
     map s_ptr ss' = []"
proof -
  have "handle_ip example_env example_echo 30 409 409 [] [] example_world = Some ([], [], example_world)"
    by (simp add: handle_ip_def ip_header_def ip_ports_def ip_starts_def is_icmp_def too_short_def
        example_echo_def rd_def rd16_def pkt_addrs_def slice_def be16_def le16_def example_env_def)
  moreover have "fwd53 example_env" by (simp add: example_env_def)
  ultimately show ?thesis using session_limit [of example_env example_echo 30 409 409 "[]" "[]" example_world] by simp
qed

section \<open>Packets that are not allowed\<close>

lemma w_out_ask [simp]: "w_out (snd (ask f w)) = w_out w"
  by (simp add: ask_def)

lemma w_out_get_uid_sub: "w_out (snd (snd (get_uid_sub E v p sa sp da dp now cache w))) = w_out w"
  by (auto simp: get_uid_sub_def ask_def split_beta Let_def split: option.splits)

lemma w_out_get_uid [simp]: "w_out (snd (snd (get_uid E v p sa sp da dp cache w))) = w_out w"
  by (simp add: get_uid_def split_beta Let_def w_out_get_uid_sub)

lemma w_out_ip_uid: "w_out (snd (snd (ip_uid E hdr sp dp None starts cache w))) = w_out w"
  by (simp add: ip_uid_def split_beta Let_def)

lemma block_udp_spec:
  assumes "has_udp_session E buf payload ss = Some False"
  shows "\<exists>s u w'. block_udp E buf payload uid ss w = Some (s # ss, w') \<and> s_proto s = Udp u \<and>
    u_state u = UDP_BLOCKED \<and> s_socket s = -1 \<and> w_out w' = w_out w"
  using assms by (auto simp: has_udp_session_def block_udp_def bind_eq_Some_conv split_beta Let_def sys_time_def)

lemma ip_hostname_Some:
  assumes "protocol = IPPROTO_TCP \<longrightarrow> (\<exists>d n. tcp_data buf plen payload = Some (d, n) \<and> d + unat n \<le> length buf)"
  shows "\<exists>host w'. ip_hostname E buf plen protocol payload name w = Some (host, w') \<and> w_out w' = w_out w"
  using assms by (auto simp: ip_hostname_def slice_Some split_beta Let_def)

text \<open>A question to Java about this connection, whatever else it says.\<close>

definition asks_about :: "nat \<Rightarrow> u8 \<Rightarrow> bytes \<Rightarrow> u16 \<Rightarrow> bytes \<Rightarrow> u16 \<Rightarrow> pkt_info \<Rightarrow> bool" where
  "asks_about version protocol saddr sport daddr dport p \<longleftrightarrow>
     p_version p = version \<and> p_protocol p = protocol \<and> p_saddr p = saddr \<and> p_sport p = sport \<and>
     p_daddr p = daddr \<and> p_dport p = dport"

lemma ip_allowed_denied:
  assumes "ip_starts E buf protocol payload syn ss = Some True"
    and "protocol = IPPROTO_TCP \<longrightarrow> \<not> (uid = 0 \<and> dport = 53) \<and>
      (\<exists>d n. tcp_data buf plen payload = Some (d, n) \<and> d + unat n \<le> length buf)"
    and "\<forall>k p. asks_about version protocol saddr sport daddr dport p \<longrightarrow> e_allowed E k p = None"
  shows "\<exists>w'. ip_allowed E buf plen (version, protocol, saddr, daddr, payload) sport dport syn flags data None uid ss w =
    Some (False, None, w') \<and> w_out w' = w_out w"
proof -
  obtain host w1 where h: "ip_hostname E buf plen protocol payload [] w = Some (host, w1)" "w_out w1 = w_out w"
    using ip_hostname_Some assms(2) by blast
  have k: "(if protocol = IPPROTO_UDP then has_udp_session E buf payload ss else Some False) = Some False"
    using assms(1) by (auto simp: ip_starts_def is_icmp_def bind_eq_Some_conv split: if_split_asm)
  have s: "\<not> (protocol = IPPROTO_TCP \<and> (\<not> syn \<or> uid = 0 \<and> dport = 53))"
    using assms(1,2) by (auto simp: ip_starts_def is_icmp_def)
  have a: "is_address_allowed E p w1 = (None, called w1)" if "asks_about version protocol saddr sport daddr dport p" for p
    using assms(3) that by (simp add: is_address_allowed_def ask_def)
  show ?thesis
    using h k s by (simp add: ip_allowed_def a asks_about_def Let_def)
qed

text \<open>C8: a packet without a TLS server name that would start a session and whose connection Java does not
  allow leaves nothing but the blocked UDP session behind: no packet is sent to either side, no socket
  is opened and no other session is touched. Not covered: a TCP SYN with a TLS client hello in it, which
  \<open>handle_tcp\<close> gets to reset, and DNS over TCP of uid 0, which is let through without asking. The data of
  a TCP packet has to lie in the buffer.\<close>

theorem denied_packet_silent:
  assumes "ip_header E buf plen = Some (Some (version, protocol, saddr, daddr, payload))"
    and "ip_ports buf plen protocol payload = Some (Some (sport, dport, syn, flags, data))"
    and "ip_starts E buf protocol payload syn ss = Some True"
    and "ip_sni buf plen protocol payload = Some None"
    and "uid = fst (ip_uid E (version, protocol, saddr, daddr, payload) sport dport None True cache w)"
    and "protocol = IPPROTO_TCP \<longrightarrow> \<not> (uid = 0 \<and> dport = 53) \<and>
      (\<exists>d n. tcp_data buf plen payload = Some (d, n) \<and> d + unat n \<le> length buf)"
    and "\<forall>k p. asks_about version protocol saddr sport daddr dport p \<longrightarrow> e_allowed E k p = None"
  shows "\<exists>ss' cache' w'. handle_ip E buf plen sessions maxsessions ss cache w = Some (ss', cache', w') \<and>
    w_out w' = w_out w \<and>
    (ss' = ss \<or> protocol = IPPROTO_UDP \<and>
      (\<exists>s u. ss' = s # ss \<and> s_proto s = Udp u \<and> u_state u = UDP_BLOCKED \<and> s_socket s = -1))"
proof -
  let ?h = "(version, protocol, saddr, daddr, payload)"
  let ?u = "ip_uid E ?h sport dport None True cache w"
  obtain w1 where a: "ip_allowed E buf plen ?h sport dport syn flags data None (fst ?u) ss (snd (snd ?u)) =
      Some (False, None, w1)" "w_out w1 = w_out w"
    using ip_allowed_denied [OF assms(3,6,7)] w_out_ip_uid assms(5) by metis
  have "\<exists>ss' w'. ip_dispatch E buf plen protocol payload (fst ?u) False False None ss w1 = Some (ss', w') \<and>
      w_out w' = w_out w \<and> (ss' = ss \<or> protocol = IPPROTO_UDP \<and>
      (\<exists>s u. ss' = s # ss \<and> s_proto s = Udp u \<and> u_state u = UDP_BLOCKED \<and> s_socket s = -1))"
  proof (cases "protocol = IPPROTO_UDP")
    case True
    then have "has_udp_session E buf payload ss = Some False"
      using assms(3) by (auto simp: ip_starts_def is_icmp_def bind_eq_Some_conv)
    from block_udp_spec [OF this, of "fst ?u" w1] True a(2) show ?thesis by (auto simp: ip_dispatch_def)
  qed (use a(2) in \<open>simp add: ip_dispatch_def\<close>)
  then show ?thesis
    using assms(1-4) a(1) by (auto simp: handle_ip_def split_beta Let_def)
qed

theorem denied_packet_silent_witness:
  "\<exists>ss' cache' w'. handle_ip (example_env\<lparr>e_allowed := \<lambda>k p. None\<rparr>) example_datagram 30 0 409 [] [] example_world =
     Some (ss', cache', w') \<and> w_out w' = []"
proof -
  let ?E = "example_env\<lparr>e_allowed := \<lambda>k p. None\<rparr>"
  have "ip_header ?E example_datagram 30 = Some (Some (4, IPPROTO_UDP, [10, 1, 10, 1], [1, 2, 3, 4], 20))"
    "ip_ports example_datagram 30 IPPROTO_UDP 20 = Some (Some (4000, 80, False, [], NoText))"
    "ip_sni example_datagram 30 IPPROTO_UDP 20 = Some None"
    by (simp_all add: ip_header_def ip_ports_def ip_sni_def is_icmp_def too_short_def example_datagram_def rd_def
        rd16_def pkt_addrs_def slice_def be16_def u16_be_def le16_def example_env_def)
  moreover have "ip_starts ?E example_datagram IPPROTO_UDP 20 False [] = Some True"
    by (simp add: ip_starts_def is_icmp_def has_udp_session_def example_datagram_key(1))
  ultimately show ?thesis
    using denied_packet_silent [of ?E example_datagram 30 4 IPPROTO_UDP "[10, 1, 10, 1]" "[1, 2, 3, 4]" 20 4000 80
        False "[]" NoText "[]" _ "[]" example_world 0 409]
    by (auto simp: example_world_def)
qed

section \<open>Blocked server names\<close>

text \<open>A TLS client hello with a blocked server name on a connection the engine has a session for
  is handled exactly like an allowed one: the call that is meant to reset the connection only looks
  at \<open>allowed\<close> when it makes a session, so the data is queued and forwarded.\<close>

theorem blocked_name_not_reset:
  assumes "rd buf 0 = Some b0" and "get_tcphdr buf payload = Some h"
    and "pkt_addrs buf (unat (drop_bit 4 b0)) = Some (saddr, daddr)"
    and "find (tcp_match (unat (drop_bit 4 b0)) saddr (th_source h) daddr (th_dest h)) ss = Some s"
  shows "ip_dispatch E buf plen IPPROTO_TCP payload uid True False redirect ss w =
    ip_dispatch E buf plen IPPROTO_TCP payload uid True True redirect' ss w"
  using assms by (simp add: ip_dispatch_def is_icmp_def handle_tcp_def Let_def)

definition example_hello_packet :: bytes where
  "example_hello_packet = [0x45, 0, 0, 41, 0, 0, 0, 0, 64, 6, 0, 0, 10, 1, 10, 1, 1, 2, 3, 4] @
     u16_be 4000 @ u16_be 80 @ u32_be 100 @ u32_be 200 @ [0x50, 0x18] @ u16_be 256 @ [0, 0, 0, 0, 22]"

definition example_tcp_session :: ng_session where
  "example_tcp_session = \<lparr>s_ptr = 0, s_proto = Tcp example_tcp, s_socket = 9, s_events = 9\<rparr>"

theorem blocked_name_not_reset_witness:
  "ip_dispatch example_env example_hello_packet 41 IPPROTO_TCP 20 10 True False None [example_tcp_session] example_world =
   ip_dispatch example_env example_hello_packet 41 IPPROTO_TCP 20 10 True True None [example_tcp_session] example_world"
proof -
  obtain h where h: "get_tcphdr example_hello_packet 20 = Some h" "th_source h = 4000" "th_dest h = 80"
    using get_tcphdr_at [of "[0x45, 0, 0, 41, 0, 0, 0, 0, 64, 6, 0, 0, 10, 1, 10, 1, 1, 2, 3, 4]" 20 4000 80 100 200
        "0x50" "0x18" 256 "[0, 0, 0, 0, 22]"]
    by (simp only: example_hello_packet_def) simp
  have p: "rd example_hello_packet 0 = Some 0x45"
    "pkt_addrs example_hello_packet (unat (drop_bit 4 (0x45 :: u8))) = Some ([10, 1, 10, 1], [1, 2, 3, 4])"
    by (simp_all add: example_hello_packet_def rd_def pkt_addrs_def slice_def)
  have "find (tcp_match (unat (drop_bit 4 (0x45 :: u8))) [10, 1, 10, 1] (th_source h) [1, 2, 3, 4] (th_dest h))
      [example_tcp_session] = Some example_tcp_session"
    by (simp add: tcp_match_def example_tcp_session_def example_tcp_def h)
  then show ?thesis by (rule blocked_name_not_reset [OF p(1) h(1) p(2)])
qed

end
