(* ===== verification/Ng_Session.thy ===== *)
theory Ng_Session
  imports Ng_Ip Ng_Tcp_Socket
begin

text \<open>
  session.c: the event loop. One turn counts the sessions and chooses what to wait for, runs the
  periodic check (which deletes finished sessions), waits, and dispatches the events. The state is
  the session list of the context, the uid cache and the time of the last check.
\<close>

section \<open>Limits\<close>

definition SESSION_MAX :: int where "SESSION_MAX = 409"
definition EPOLL_TIMEOUT :: int where "EPOLL_TIMEOUT = 3600"
definition EPOLL_MIN_CHECK :: int where "EPOLL_MIN_CHECK = 100"
definition TUN_YIELD :: nat where "TUN_YIELD = 10"
definition UDP_YIELD :: nat where "UDP_YIELD = 10"

text \<open>\<open>(int) (rlim.rlim_cur * SESSION_LIMIT / 100)\<close> with a 64-bit limit, when \<open>getrlimit\<close> succeeds.\<close>

definition max_sessions :: "u64 option \<Rightarrow> int" where
  "max_sessions rlim_cur =
     (case rlim_cur of
        None \<Rightarrow> SESSION_MAX
      | Some cur \<Rightarrow> let m = sint (ucast (cur * 40 div 100) :: u32) in if m > SESSION_MAX then SESSION_MAX else m)"

section \<open>clear\<close>

text \<open>Close every socket and drop the list.\<close>

fun clear_loop :: "ng_session list \<Rightarrow> world \<Rightarrow> world" where
  "clear_loop [] w = w"
| "clear_loop (s # ss) w = clear_loop ss (if s_socket s \<ge> 0 then sys_close (s_socket s) w else w)"

definition clear :: "ng_session list \<Rightarrow> world \<Rightarrow> ng_session list \<times> world" where
  "clear ss w = ([], clear_loop ss w)"

section \<open>check_allowed\<close>

definition ask_allowed :: "env \<Rightarrow> nat \<Rightarrow> u8 \<Rightarrow> bytes \<Rightarrow> u16 \<Rightarrow> bytes \<Rightarrow> u16 \<Rightarrow> int \<Rightarrow> world \<Rightarrow> bool \<times> world" where
  "ask_allowed E version protocol saddr sport daddr dport uid w =
     (let (a, w) = is_address_allowed E
            \<lparr>p_version = version, p_protocol = protocol, p_flags = [], p_saddr = saddr, p_sport = sport,
             p_daddr = daddr, p_dport = dport, p_data = NoText, p_uid = uid, p_host = [], p_tls = False\<rparr> w
      in (a \<noteq> None, w))"

text \<open>One session; \<open>None\<close> is a blocked UDP session, which is removed.\<close>

definition check_allowed_one :: "env \<Rightarrow> ng_session \<Rightarrow> world \<Rightarrow> ng_session option \<times> world" where
  "check_allowed_one E s w =
     (case s_proto s of
        Icmp c \<Rightarrow>
          if i_stop c then (Some s, w)
          else let (ok, w) = ask_allowed E (i_version c) IPPROTO_ICMP (i_saddr c) 0 (i_daddr c) 0 (i_uid c) w
               in (Some (if ok then s else s\<lparr>s_proto := Icmp (c\<lparr>i_stop := True\<rparr>)\<rparr>), w)
      | Udp u \<Rightarrow>
          if u_state u = UDP_ACTIVE then
            let (ok, w) = ask_allowed E (u_version u) IPPROTO_UDP (u_saddr u) (u_source u) (u_daddr u) (u_dest u) (u_uid u) w
            in (Some (if ok then s else s\<lparr>s_proto := Udp (u\<lparr>u_state := UDP_FINISHING\<rparr>)\<rparr>), w)
          else (if u_state u = UDP_BLOCKED then None else Some s, w)
      | Tcp t \<Rightarrow>
          if t_state t \<noteq> TCP_CLOSING \<and> t_state t \<noteq> TCP_CLOSE then
            let (ok, w) = ask_allowed E (t_version t) IPPROTO_TCP (t_saddr t) (t_source t) (t_daddr t) (t_dest t) (t_uid t) w
            in if ok then (Some s, w)
               else let (t, w) = write_rst E t w in (Some (s\<lparr>s_proto := Tcp t\<rparr>), w)
          else (Some s, w))"

fun check_allowed :: "env \<Rightarrow> ng_session list \<Rightarrow> world \<Rightarrow> ng_session list \<times> world" where
  "check_allowed E [] w = ([], w)"
| "check_allowed E (s # ss) w =
     (let (r, w) = check_allowed_one E s w;
          (ss, w) = check_allowed E ss w
      in (case r of None \<Rightarrow> ss | Some s \<Rightarrow> s # ss, w))"

section \<open>Counting\<close>

definition is_active :: "ng_session \<Rightarrow> bool" where
  "is_active s =
     (case s_proto s of
        Icmp c \<Rightarrow> \<not> i_stop c
      | Udp u \<Rightarrow> u_state u = UDP_ACTIVE
      | Tcp t \<Rightarrow> t_state t \<noteq> TCP_CLOSING \<and> t_state t \<noteq> TCP_CLOSE)"

text \<open>The number of active sessions, whether a session wants a check soon, and the sessions with the
  events to wait for. A TCP session is counted before it is monitored.\<close>

fun count_sessions :: "env \<Rightarrow> ng_session list \<Rightarrow> world \<Rightarrow> int \<times> bool \<times> ng_session list \<times> world" where
  "count_sessions E [] w = (0, False, [], w)"
| "count_sessions E (s # ss) w =
     (let (c, s', w) =
            (case s_proto s of
               Tcp t \<Rightarrow>
                 if s_socket s \<ge> 0
                 then let (c, s, t, w) = monitor_tcp_session E s t w in (c, s\<lparr>s_proto := Tcp t\<rparr>, w)
                 else (False, s, w)
             | _ \<Rightarrow> (False, s, w));
          (n, recheck, ss, w) = count_sessions E ss w
      in ((if is_active s then 1 else 0) + n, c \<or> recheck, s' # ss, w))"

section \<open>The periodic check of all sessions\<close>

text \<open>One session: is it to be deleted, and if not, and it is active, when does it time out?\<close>

definition check_session :: "env \<Rightarrow> int \<Rightarrow> int \<Rightarrow> int \<Rightarrow> ng_session \<Rightarrow> world \<Rightarrow>
    bool \<times> int option \<times> ng_session \<times> world" where
  "check_session E sessions maxsessions now s w =
     (case s_proto s of
        Icmp c \<Rightarrow>
          let (del, s, w) = check_icmp_session E s c sessions maxsessions w
          in (del, if \<not> i_stop c \<and> \<not> del then Some (i_time c + get_icmp_timeout c sessions maxsessions - now + 1) else None, s, w)
      | Udp u \<Rightarrow>
          let (del, s, u, w) = check_udp_session E s u sessions maxsessions w
          in (del, if u_state u = UDP_ACTIVE \<and> \<not> del then Some (u_time u + get_udp_timeout u sessions maxsessions - now + 1) else None,
              s\<lparr>s_proto := Udp u\<rparr>, w)
      | Tcp t \<Rightarrow>
          let (del, s, t, w) = check_tcp_session E s t sessions maxsessions w
          in (del, if t_state t \<noteq> TCP_CLOSING \<and> t_state t \<noteq> TCP_CLOSE \<and> \<not> del
                   then Some (t_time t + get_tcp_timeout t sessions maxsessions - now + 1) else None,
              s\<lparr>s_proto := Tcp t\<rparr>, w))"

fun check_sessions :: "env \<Rightarrow> int \<Rightarrow> int \<Rightarrow> int \<Rightarrow> int \<Rightarrow> ng_session list \<Rightarrow> world \<Rightarrow>
    int \<times> ng_session list \<times> world" where
  "check_sessions E sessions maxsessions now timeout [] w = (timeout, [], w)"
| "check_sessions E sessions maxsessions now timeout (s # ss) w =
     (let (del, st, s, w) = check_session E sessions maxsessions now s w;
          timeout = (case st of None \<Rightarrow> timeout | Some st \<Rightarrow> if st > 0 \<and> st < timeout then st else timeout);
          (timeout, ss, w) = check_sessions E sessions maxsessions now timeout ss w
      in (timeout, if del then ss else s # ss, w))"

section \<open>Events\<close>

text \<open>\<open>is_readable(tun)\<close> up to ten times; the result tells whether an error ends the loop.\<close>

fun tun_loop :: "nat \<Rightarrow> env \<Rightarrow> u32 \<Rightarrow> int \<Rightarrow> int \<Rightarrow> ng_session list \<Rightarrow> uid_cache_entry list \<Rightarrow> world \<Rightarrow>
    (bool \<times> ng_session list \<times> uid_cache_entry list \<times> world) option" where
  "tun_loop 0 E events sessions maxsessions ss cache w = Some (False, ss, cache, w)"
| "tun_loop (Suc n) E events sessions maxsessions ss cache w =
     (let (stop, w) = ask (e_stopping E) w
      in if stop then Some (False, ss, cache, w)
         else let (readable, w) = ask (\<lambda>k. e_readable E k (tun_fd E)) w
              in if \<not> readable then Some (False, ss, cache, w)
                 else do {
                   (ok, ss, cache, w) \<leftarrow> check_tun E events sessions maxsessions ss cache w;
                   if \<not> ok then Some (True, ss, cache, w)
                   else tun_loop n E events sessions maxsessions ss cache w })"

fun udp_loop :: "nat \<Rightarrow> env \<Rightarrow> u32 \<Rightarrow> ng_session \<Rightarrow> udp_session \<Rightarrow> world \<Rightarrow> (udp_session \<times> world) option" where
  "udp_loop 0 E events s u w = Some (u, w)"
| "udp_loop (Suc n) E events s u w =
     (let (stop, w) = ask (e_stopping E) w
      in if stop \<or> events AND EPOLLERR \<noteq> 0 \<or> events AND EPOLLIN = 0 then Some (u, w)
         else let (readable, w) = ask (\<lambda>k. e_readable E k (s_socket s)) w
              in if \<not> readable then Some (u, w)
                 else do {
                   (u, w) \<leftarrow> check_udp_socket E s u events w;
                   udp_loop n E events s u w })"

text \<open>An event of a session; \<open>ev[i].data.ptr\<close> is the address of the session.\<close>

definition session_event :: "env \<Rightarrow> u32 \<Rightarrow> ng_session \<Rightarrow> world \<Rightarrow> (ng_session \<times> world) option" where
  "session_event E events s w =
     (case s_proto s of
        Icmp c \<Rightarrow> let (c, w) = check_icmp_socket E s c events w in Some (s\<lparr>s_proto := Icmp c\<rparr>, w)
      | Udp u \<Rightarrow> do { (u, w) \<leftarrow> udp_loop UDP_YIELD E events s u w; Some (s\<lparr>s_proto := Udp u\<rparr>, w) }
      | Tcp t \<Rightarrow> do { (s, t, w) \<leftarrow> check_tcp_socket E s t events w; Some (s\<lparr>s_proto := Tcp t\<rparr>, w) })"

definition dispatch_event :: "env \<Rightarrow> int \<Rightarrow> int \<Rightarrow> epoll_target \<Rightarrow> u32 \<Rightarrow> ng_session list \<Rightarrow> uid_cache_entry list \<Rightarrow>
    world \<Rightarrow> (bool \<times> ng_session list \<times> uid_cache_entry list \<times> world) option" where
  "dispatch_event E sessions maxsessions target events ss cache w =
     (case target of
        OnPipe \<Rightarrow> Some (False, ss, cache, called w)
      | OnTun \<Rightarrow> tun_loop TUN_YIELD E events sessions maxsessions ss cache w
      | OnSession ptr \<Rightarrow>
          (case find (\<lambda>s. s_ptr s = ptr) ss of
             None \<Rightarrow> None
           | Some s \<Rightarrow> do {
               (s, w) \<leftarrow> session_event E events s w;
               Some (False, replace_first (\<lambda>s. s_ptr s = ptr) s ss, cache, w) }))"

fun dispatch_events :: "env \<Rightarrow> int \<Rightarrow> int \<Rightarrow> (epoll_target \<times> u32) list \<Rightarrow> ng_session list \<Rightarrow> uid_cache_entry list \<Rightarrow>
    world \<Rightarrow> (bool \<times> ng_session list \<times> uid_cache_entry list \<times> world) option" where
  "dispatch_events E sessions maxsessions [] ss cache w = Some (False, ss, cache, w)"
| "dispatch_events E sessions maxsessions ((target, events) # evs) ss cache w = do {
     (error, ss, cache, w) \<leftarrow> dispatch_event E sessions maxsessions target events ss cache w;
     if error then Some (True, ss, cache, w)
     else dispatch_events E sessions maxsessions evs ss cache w }"

section \<open>The loop\<close>

record loop_state =
  m_sessions :: "ng_session list"
  m_cache :: "uid_cache_entry list"
  m_last_check :: int

text \<open>The first half of a turn: count and check. The check is skipped within 100 ms of the last.\<close>

definition loop_check :: "env \<Rightarrow> int \<Rightarrow> loop_state \<Rightarrow> world \<Rightarrow> int \<times> int \<times> bool \<times> loop_state \<times> world" where
  "loop_check E maxsessions m w =
     (let (sessions, recheck, ss, w) = count_sessions E (m_sessions m) w;
          (ms, w) = sys_ms E w
      in if ms - m_last_check m > EPOLL_MIN_CHECK then
           let (now, w) = sys_time E w;
               (timeout, ss, w) = check_sessions E sessions maxsessions now EPOLL_TIMEOUT ss w
           in (sessions, timeout, recheck, m\<lparr>m_sessions := ss, m_last_check := ms\<rparr>, w)
         else (sessions, EPOLL_TIMEOUT, True, m\<lparr>m_sessions := ss\<rparr>, w))"

text \<open>How long \<open>epoll_wait\<close> waits, in milliseconds.\<close>

definition poll_wait :: "int \<Rightarrow> bool \<Rightarrow> int" where
  "poll_wait timeout recheck = (if recheck then EPOLL_MIN_CHECK else timeout * 1000)"

text \<open>A turn; the flag of the result is false when the loop ends (\<open>break\<close>).\<close>

definition loop_turn :: "env \<Rightarrow> int \<Rightarrow> loop_state \<Rightarrow> world \<Rightarrow> (bool \<times> loop_state \<times> world) option" where
  "loop_turn E maxsessions m w =
     (let (sessions, timeout, recheck, m, w) = loop_check E maxsessions m w;
          w = emit (EpollWait (poll_wait timeout recheck)) w
      in (case ask (e_poll E) w of
            (PollError err, w) \<Rightarrow>
              if err = EINTR then Some (True, m, w) else Some (False, m, emit ReportExit w)
          | (PollReady evs, w) \<Rightarrow> do {
              (error, ss, cache, w) \<leftarrow> dispatch_events E sessions maxsessions evs (m_sessions m) (m_cache m) w;
              Some (\<not> error, m\<lparr>m_sessions := ss, m_cache := cache\<rparr>, w) }))"

text \<open>\<open>handle_events\<close>: the sessions left from the last run are checked against the permissions, then
  the loop turns until it is told to stop; it may run for ever.\<close>

partial_function (option) events_loop :: "env \<Rightarrow> int \<Rightarrow> loop_state \<Rightarrow> world \<Rightarrow> (loop_state \<times> world) option" where
  "events_loop E maxsessions m w =
     (let (stop, w) = ask (e_stopping E) w
      in if stop then Some (m, w)
         else do {
           (go, m, w) \<leftarrow> loop_turn E maxsessions m w;
           if go then events_loop E maxsessions m w else Some (m, w) })"

definition handle_events :: "env \<Rightarrow> u64 option \<Rightarrow> ng_session list \<Rightarrow> uid_cache_entry list \<Rightarrow> world \<Rightarrow>
    (loop_state \<times> world) option" where
  "handle_events E rlim_cur ss cache w =
     (let (ss, w) = check_allowed E ss w;
          m = \<lparr>m_sessions = ss, m_cache = cache, m_last_check = 0\<rparr>;
          (fd, w) = ask (e_epoll_create E) w;
          w = (if fd < 0 then emit ReportExit w else w);
          (ok_pipe, w) = sys_epoll E (EpollAdd (pipe_fd E) (EPOLLIN OR EPOLLERR)) (pipe_fd E) w;
          w = (if \<not> ok_pipe then emit ReportExit w else w);
          (ok_tun, w) = sys_epoll E (EpollAdd (tun_fd E) (EPOLLIN OR EPOLLERR)) (tun_fd E) w;
          w = (if \<not> ok_tun then emit ReportExit w else w)
      in do {
        (m, w) \<leftarrow> (if fd < 0 \<or> \<not> ok_pipe \<or> \<not> ok_tun then Some (m, w)
                    else events_loop E (max_sessions rlim_cur) m w);
        Some (m, if fd \<ge> 0 then sys_close fd w else w) })"

end
