(* ===== verification/Ng_Session_Steps.thy ===== *)
theory Ng_Session_Steps
  imports Ng_Session Ng_Tcp_Machine Ng_Udp_Machine
begin

text \<open>
  The session list, step by step. Each session is a state of the machine of its protocol
  (\<open>session_step\<close>); what a packet or an event does to the list is \<open>grows\<close>: every session goes on in
  its place by steps of its machine, and new sessions, in initial states, are put before them. What a
  check does is \<open>thins\<close>: every session goes on by steps of its machine, or it is finished and left
  out. Each routine of ip.c and session.c is shown to do one or the other.
\<close>

section \<open>Lists\<close>

lemma list_all_find: "list_all P ss \<Longrightarrow> find Q ss = Some s \<Longrightarrow> P s"
  by (auto simp: find_Some_iff list_all_iff)

lemma list_all2_replace_first:
  "(\<And>x. R x x) \<Longrightarrow> find Q ss = Some s \<Longrightarrow> R s y \<Longrightarrow> list_all2 R ss (replace_first Q y ss)"
  by (induction ss) (auto intro: list_all2_refl split: if_split_asm)

lemma yields_prod_app [yields_intro]:
  "(\<And>a b. x = (a, b) \<Longrightarrow> yields (f a b z) P) \<Longrightarrow> yields ((case x of (a, b) \<Rightarrow> f a b) z) P"
  by (cases x) simp

lemma yields_poll_result [yields_intro]:
  "(\<And>e. x = PollError e \<Longrightarrow> yields (f e) P) \<Longrightarrow> (\<And>b. x = PollReady b \<Longrightarrow> yields (g b) P) \<Longrightarrow>
   yields (case x of PollError e \<Rightarrow> f e | PollReady b \<Rightarrow> g b) P"
  by (cases x) simp_all

section \<open>The machine of a session\<close>

text \<open>ICMP: created by an echo request; then requests, events on the socket, and the end of its
  permission.\<close>

inductive icmp_created :: "ng_session \<times> icmp_session \<Rightarrow> bool" where
  "icmp_register E version saddr daddr ident uid w = (Some s, w') \<Longrightarrow> s_proto s = Icmp c \<Longrightarrow> icmp_created (s, c)"

inductive icmp_step :: "ng_session \<times> icmp_session \<Rightarrow> ng_session \<times> icmp_session \<Rightarrow> bool" where
  request: "icmp_forward E (s_socket s) c version daddr csum msg w = (r, c', w') \<Longrightarrow> icmp_step (s, c) (s, c')"
| icmp_event: "check_icmp_socket E s c ev w = (c', w') \<Longrightarrow> icmp_step (s, c) (s, c')"
| icmp_disallowed: "\<not> i_stop c \<Longrightarrow> icmp_step (s, c) (s, c\<lparr>i_stop := True\<rparr>)"

inductive_cases icmp_step_cases: "icmp_step (s, c) (s', c')"

definition session_created :: "ng_session \<Rightarrow> bool" where
  "session_created s =
     (case s_proto s of
        Icmp c \<Rightarrow> icmp_created (s, c)
      | Udp u \<Rightarrow> udp_created (s, u)
      | Tcp t \<Rightarrow> tcp_created (s, t))"

inductive session_step :: "ng_session \<Rightarrow> ng_session \<Rightarrow> bool" where
  icmp: "s_proto s = Icmp c \<Longrightarrow> icmp_step (s, c) (s', c') \<Longrightarrow> session_step s (s'\<lparr>s_proto := Icmp c'\<rparr>)"
| udp: "s_proto s = Udp u \<Longrightarrow> udp_step (s, u) (s', u') \<Longrightarrow> session_step s (s'\<lparr>s_proto := Udp u'\<rparr>)"
| tcp: "s_proto s = Tcp t \<Longrightarrow> tcp_step (s, t) (s', t') \<Longrightarrow> session_step s (s'\<lparr>s_proto := Tcp t'\<rparr>)"

abbreviation moves :: "ng_session \<Rightarrow> ng_session \<Rightarrow> bool" where
  "moves \<equiv> session_step\<^sup>*\<^sup>*"

definition started :: "ng_session \<Rightarrow> bool" where
  "started s \<longleftrightarrow> (\<exists>s0. session_created s0 \<and> moves s0 s)"

lemma started_moves: "started s \<Longrightarrow> moves s s' \<Longrightarrow> started s'"
  by (auto simp: started_def)

text \<open>A session keeps its block and its protocol.\<close>

lemma check_tcp_socket_ptr: "check_tcp_socket E s t events w = Some (s', t', w') \<Longrightarrow> s_ptr s' = s_ptr s"
  by (auto simp: check_tcp_socket_def tcp_read_def tcp_eof_def Let_def bind_eq_Some_conv
      split: if_split_asm prod.splits recv_result.splits)

lemma check_tcp_session_ptr: "check_tcp_session E s t n m w = (del, s', t', w') \<Longrightarrow> s_ptr s' = s_ptr s"
  by (auto simp: check_tcp_session_def tcp_close_socket_def split_beta Let_def split: if_splits)

lemma monitor_tcp_session_ptr: "monitor_tcp_session E s t w = (c, s', t', w') \<Longrightarrow> s_ptr s' = s_ptr s"
  by (auto simp: monitor_tcp_session_def Let_def split_beta split: if_split_asm)

lemma check_udp_session_ptr: "check_udp_session E s u n m w = (del, s', u', w') \<Longrightarrow> s_ptr s' = s_ptr s"
  by (auto simp: check_udp_session_def Let_def split_beta split: if_split_asm)

definition same_protocol :: "proto_session \<Rightarrow> proto_session \<Rightarrow> bool" where
  "same_protocol x y =
     (case x of Icmp _ \<Rightarrow> (\<exists>c. y = Icmp c) | Udp _ \<Rightarrow> (\<exists>u. y = Udp u) | Tcp _ \<Rightarrow> (\<exists>t. y = Tcp t))"

lemma session_step_same: "session_step s s' \<Longrightarrow> s_ptr s' = s_ptr s \<and> same_protocol (s_proto s) (s_proto s')"
  by (erule session_step.cases)
    (auto simp: same_protocol_def elim!: icmp_step_cases udp_step_cases tcp_step_cases
      dest!: check_tcp_socket_ptr check_tcp_session_ptr monitor_tcp_session_ptr check_udp_session_ptr)

lemma moves_same: "moves s s' \<Longrightarrow> s_ptr s' = s_ptr s \<and> same_protocol (s_proto s) (s_proto s')"
proof (induction rule: rtranclp_induct)
  case (step s' s'')
  then show ?case using session_step_same [OF step(2)]
    by (auto simp: same_protocol_def split: proto_session.splits)
qed (simp add: same_protocol_def split: proto_session.split)

section \<open>Growing lists\<close>

definition grows :: "ng_session list \<Rightarrow> ng_session list \<Rightarrow> bool" where
  "grows ss ss' \<longleftrightarrow> (\<exists>new kept. ss' = new @ kept \<and> list_all started new \<and> list_all2 moves ss kept)"

lemma grows_refl [simp, intro]: "grows ss ss"
  unfolding grows_def by (rule exI [of _ "[]"]) (auto intro: list_all2_refl)

lemma grows_moved:
  assumes "grows ss0 ss" and "list_all2 moves ss ss'"
  shows "grows ss0 ss'"
proof -
  obtain new kept where g: "ss = new @ kept" "list_all started new" "list_all2 moves ss0 kept"
    using assms(1) by (auto simp: grows_def)
  then obtain new' kept' where k: "ss' = new' @ kept'" "list_all2 moves new new'" "list_all2 moves kept kept'"
    using assms(2) by (auto simp: list_all2_append1)
  have "list_all2 moves ss0 kept'"
    by (rule list_all2_trans [OF _ g(3) k(3)]) (rule rtranclp_trans)
  moreover have "list_all started new'"
    using k(2) g(2) by (induction rule: list_all2_induct) (auto intro: started_moves)
  ultimately show ?thesis using k(1) by (auto simp: grows_def)
qed

lemma grows_replace: "grows ss0 ss \<Longrightarrow> find Q ss = Some s \<Longrightarrow> moves s y \<Longrightarrow> grows ss0 (replace_first Q y ss)"
  by (rule grows_moved) (auto intro: list_all2_replace_first)

lemma grows_new:
  assumes "grows ss0 ss" and "session_created s"
  shows "grows ss0 (s # ss)"
proof -
  obtain new kept where g: "ss = new @ kept" "list_all started new" "list_all2 moves ss0 kept"
    using assms(1) by (auto simp: grows_def)
  moreover have "started s" using assms(2) by (auto simp: started_def)
  ultimately show ?thesis unfolding grows_def by (intro exI [of _ "s # new"] exI [of _ kept]) simp
qed

section \<open>Packets\<close>

lemma tcp_syn_created:
  assumes "tcp_syn E buf payload tcpoptlen h data datalen version saddr daddr uid al redirect ss w = Some (r, ss', w')"
  shows "ss' = ss \<or> r \<and> (\<exists>s t. ss' = s # ss \<and> s_proto s = Tcp t \<and> tcp_created (s, t))"
proof (cases "ss' = ss")
  case False
  then obtain s t where "r" "ss' = s # ss" "s_proto s = Tcp t"
    using assms by (auto simp: tcp_syn_def tcp_register_def bind_eq_Some_conv Let_def split_beta split: if_split_asm)
  then show ?thesis using assms tcp_created.intros [of _ _ _ _ _ _ _ _ _ _ _ _ _ ss w s w' t] by auto
qed simp

lemma block_udp_created:
  assumes "block_udp E buf payload uid ss w = Some (ss', w')"
  shows "ss' = ss \<or> (\<exists>s u. ss' = s # ss \<and> s_proto s = Udp u \<and> udp_created (s, u))"
proof (cases "ss' = ss")
  case False
  then obtain s u where "ss' = s # ss" "s_proto s = Udp u"
    using assms by (auto simp: block_udp_def bind_eq_Some_conv Let_def split_beta split: if_split_asm)
  then show ?thesis using assms udp_created.blocked [of _ _ _ _ ss w s w' u] by auto
qed simp

lemma udp_register_created:
  assumes "udp_register E version saddr source daddr dest uid redirect w = (Some s, w')"
  obtains u where "s_proto s = Udp u" "udp_created (s, u)"
proof -
  obtain u where "s_proto s = Udp u"
    using assms by (auto simp: udp_register_def Let_def split_beta split: if_split_asm)
  then show thesis using that udp_created.intros(1) [OF assms] by blast
qed

lemma icmp_register_proto:
  "icmp_register E version saddr daddr ident uid w = (Some s, w') \<Longrightarrow> \<exists>c. s_proto s = Icmp c"
  by (auto simp: icmp_register_def split_beta Let_def split: if_split_asm)

lemma registered_created:
  "icmp_register E version saddr daddr ident uid w = (Some s, w') \<Longrightarrow> session_created s"
  "udp_register E version saddr source daddr dest uid redirect w = (Some s, w') \<Longrightarrow> session_created s"
proof -
  show "session_created s" if "icmp_register E version saddr daddr ident uid w = (Some s, w')"
    using icmp_register_proto [OF that] icmp_created.intros [OF that] by (auto simp: session_created_def)
  show "session_created s" if "udp_register E version saddr source daddr dest uid redirect w = (Some s, w')"
    using that by (rule udp_register_created) (simp add: session_created_def)
qed

text \<open>The session a packet is for is the first of its connection: found in the list, or just put at
  its head.\<close>

lemma icmp_found:
  assumes "(s, ss1, w1) = (case find (icmp_match v sa da) ss of
          Some s \<Rightarrow> (Some s, ss, w)
        | None \<Rightarrow>
            (case icmp_register E v sa da i uid w of
               (None, w) \<Rightarrow> (None, ss, w)
             | (Some s, w) \<Rightarrow> (Some s, s # ss, w)))"
  shows "grows ss0 ss \<Longrightarrow> grows ss0 ss1" and "s = Some x \<Longrightarrow> find (icmp_match v sa da) ss1 = Some x"
proof -
  have "icmp_match v sa da x" if "icmp_register E v sa da i uid w = (Some x, w2)" for x w2
    using that by (auto simp: icmp_register_def icmp_match_def split_beta Let_def split: if_split_asm)
  then show "s = Some x \<Longrightarrow> find (icmp_match v sa da) ss1 = Some x"
    using assms by (auto split: option.splits prod.splits)
  show "grows ss0 ss \<Longrightarrow> grows ss0 ss1"
    using assms by (auto intro: grows_new registered_created split: option.splits prod.splits)
qed

lemma udp_found:
  assumes "(s, ss1, w1) = (case find (udp_match v sa so da de) ss of
          Some s \<Rightarrow> (Some s, ss, w)
        | None \<Rightarrow>
            (case udp_register E v sa so da de uid redirect w of
               (None, w) \<Rightarrow> (None, ss, w)
             | (Some s, w) \<Rightarrow> (Some s, s # ss, w)))"
  shows "grows ss0 ss \<Longrightarrow> grows ss0 ss1" and "s = Some x \<Longrightarrow> find (udp_match v sa so da de) ss1 = Some x"
proof -
  have "udp_match v sa so da de x" if "udp_register E v sa so da de uid redirect w = (Some x, w2)" for x w2
    using that by (auto simp: udp_register_def udp_match_def split_beta Let_def split: if_split_asm)
  then show "s = Some x \<Longrightarrow> find (udp_match v sa so da de) ss1 = Some x"
    using assms by (auto split: option.splits prod.splits)
  show "grows ss0 ss \<Longrightarrow> grows ss0 ss1"
    using assms by (auto intro: grows_new registered_created split: option.splits prod.splits)
qed

lemma icmp_forward_moves:
  "s_proto s = Icmp c \<Longrightarrow> (r, c', w') = icmp_forward E (s_socket s) c version daddr csum msg w \<Longrightarrow>
   moves s (s\<lparr>s_proto := Icmp c'\<rparr>)"
  by (rule r_into_rtranclp, rule session_step.icmp, assumption, rule icmp_step.request [OF sym])

lemma handle_icmp_grows:
  assumes "grows ss0 ss"
  shows "yields (handle_icmp E buf plen payload uid ss w) (\<lambda>(r, ss', w'). grows ss0 ss')"
  unfolding handle_icmp_def
  by (intro yields_intro) (use assms icmp_found in \<open>auto intro!: grows_replace intro: icmp_forward_moves\<close>)

lemma udp_active_moves:
  "s_proto s = Udp u \<Longrightarrow> u_state u = UDP_ACTIVE \<Longrightarrow>
   udp_active E (s_socket s) u source dest data redirect w = Some (r, u', w') \<Longrightarrow> moves s (s\<lparr>s_proto := Udp u'\<rparr>)"
  by (rule r_into_rtranclp, rule session_step.udp, assumption, rule udp_datagram)

lemma handle_udp_grows:
  assumes "grows ss0 ss"
  shows "yields (handle_udp E buf plen payload uid redirect ss w) (\<lambda>(r, ss', w'). grows ss0 ss')"
  unfolding handle_udp_def
  by (intro yields_intro) (use assms udp_found in \<open>auto intro!: grows_replace intro: udp_active_moves\<close>)

lemma block_udp_grows:
  assumes "grows ss0 ss"
  shows "yields (block_udp E buf payload uid ss w) (\<lambda>(ss', w'). grows ss0 ss')"
  using assms by (auto intro!: yieldsI grows_new dest!: block_udp_created simp: session_created_def)

lemma tcp_syn_grows:
  assumes "grows ss0 ss"
  shows "yields (tcp_syn E buf payload tcpoptlen h data datalen version saddr daddr uid al redirect ss w)
    (\<lambda>(r, ss', w'). grows ss0 ss')"
  using assms by (auto intro!: yieldsI grows_new dest!: tcp_syn_created simp: session_created_def)

lemma tcp_known_moves:
  "s_proto s = Tcp t \<Longrightarrow> tcp_known E (s_socket s) buf data datalen h t w = Some (r, t', w') \<Longrightarrow>
   moves s (s\<lparr>s_proto := Tcp t'\<rparr>)"
  by (rule r_into_rtranclp, rule session_step.tcp, assumption, rule segment)

lemma handle_tcp_grows:
  assumes "grows ss0 ss"
  shows "yields (handle_tcp E buf plen payload uid al redirect ss w) (\<lambda>(r, ss', w'). grows ss0 ss')"
  unfolding handle_tcp_def
  by (intro yields_intro tcp_syn_grows) (use assms in \<open>auto intro!: grows_replace intro: tcp_known_moves\<close>)

lemma ip_dispatch_grows:
  assumes "grows ss0 ss"
  shows "yields (ip_dispatch E buf plen protocol payload uid named al redirect ss w) (\<lambda>(ss', w'). grows ss0 ss')"
proof -
  note h = handle_icmp_grows [OF assms] handle_udp_grows [OF assms] handle_tcp_grows [OF assms] block_udp_grows [OF assms]
  show ?thesis
    unfolding ip_dispatch_def
    by (intro yields_intro h) (use assms in \<open>auto dest: h [THEN yieldsD]\<close>)
qed

lemma handle_ip_grows:
  assumes "grows ss0 ss"
  shows "yields (handle_ip E buf plen sessions maxsessions ss cache w) (\<lambda>(ss', cache', w'). grows ss0 ss')"
  unfolding handle_ip_def
  by (intro yields_intro) (use assms in \<open>auto dest: ip_dispatch_grows [THEN yieldsD]\<close>)

lemma check_tun_grows:
  assumes "grows ss0 ss"
  shows "yields (check_tun E events sessions maxsessions ss cache w) (\<lambda>(ok, ss', cache', w'). grows ss0 ss')"
  unfolding check_tun_def
  by (intro yields_intro) (use assms in \<open>auto dest: handle_ip_grows [THEN yieldsD]\<close>)

lemma tun_loop_grows:
  "grows ss0 ss \<Longrightarrow> yields (tun_loop n E events sessions maxsessions ss cache w) (\<lambda>(e, ss', cache', w'). grows ss0 ss')"
proof (induction n arbitrary: ss cache w)
  case (Suc n)
  show ?case
    unfolding tun_loop.simps
    by (intro yields_intro Suc.IH) (use Suc.prems in \<open>auto dest: check_tun_grows [THEN yieldsD]\<close>)
qed (auto intro: yields_intro)

section \<open>Events on sockets\<close>

text \<open>\<open>poll\<close> never reports a negative descriptor as readable.\<close>

definition poll_ok :: "env \<Rightarrow> bool" where
  "poll_ok E \<longleftrightarrow> (\<forall>k s. s < 0 \<longrightarrow> \<not> e_readable E k s)"

lemma check_udp_socket_proto: "check_udp_socket E (s\<lparr>s_proto := x\<rparr>) u ev w = check_udp_socket E s u ev w"
  by (simp add: check_udp_socket_def)

lemma udp_socket_moves:
  assumes "moves s0 (s\<lparr>s_proto := Udp u\<rparr>)" and "0 \<le> s_socket s" and "check_udp_socket E s u ev w = Some (u', w')"
  shows "moves s0 (s\<lparr>s_proto := Udp u'\<rparr>)"
proof (rule rtranclp.rtrancl_into_rtrancl [OF assms(1)])
  have "udp_step (s\<lparr>s_proto := Udp u\<rparr>, u) (s\<lparr>s_proto := Udp u\<rparr>, u')"
    using assms(2,3) by (intro udp_socket) (simp_all add: check_udp_socket_proto)
  then show "session_step (s\<lparr>s_proto := Udp u\<rparr>) (s\<lparr>s_proto := Udp u'\<rparr>)"
    using session_step.udp [of "s\<lparr>s_proto := Udp u\<rparr>" u "s\<lparr>s_proto := Udp u\<rparr>" u'] by simp
qed

lemma udp_loop_moves:
  "poll_ok E \<Longrightarrow> moves s0 (s\<lparr>s_proto := Udp u\<rparr>) \<Longrightarrow>
   yields (udp_loop n E events s u w) (\<lambda>(u', w'). moves s0 (s\<lparr>s_proto := Udp u'\<rparr>))"
proof (induction n arbitrary: u w)
  case (Suc n)
  have sock: "0 \<le> s_socket s" if "(True, w') = ask (\<lambda>k. e_readable E k (s_socket s)) w" for w w'
    using that Suc.prems(1) by (auto simp: ask_def poll_ok_def) (meson not_le)
  show ?case
    unfolding udp_loop.simps
    by (intro yields_intro Suc.IH) (use Suc.prems sock udp_socket_moves in auto)
qed (auto intro: yields_intro)

lemma session_event_moves:
  assumes "poll_ok E"
  shows "yields (session_event E events s w) (\<lambda>(s', w'). moves s s')"
proof (cases "s_proto s")
  case (Icmp c)
  then have "moves s (s\<lparr>s_proto := Icmp c'\<rparr>)" if "check_icmp_socket E s c events w = (c', w')" for c' w'
    using that by (intro r_into_rtranclp session_step.icmp icmp_event)
  then show ?thesis using Icmp by (auto simp: session_event_def split: prod.splits intro: yields_intro)
next
  case (Udp u)
  then have "s\<lparr>s_proto := Udp u\<rparr> = s" by simp
  then have "yields (udp_loop UDP_YIELD E events s u w) (\<lambda>(u', w'). moves s (s\<lparr>s_proto := Udp u'\<rparr>))"
    using udp_loop_moves [OF assms, where s = s] by simp
  then show ?thesis using Udp by (auto simp: session_event_def yields_def bind_eq_Some_conv)
next
  case (Tcp t)
  then have "moves s (s'\<lparr>s_proto := Tcp t'\<rparr>)" if "check_tcp_socket E s t events w = Some (s', t', w')" for s' t' w'
    using that by (intro r_into_rtranclp session_step.tcp socket_event)
  then show ?thesis using Tcp by (auto simp: session_event_def yields_def bind_eq_Some_conv)
qed

lemma dispatch_event_grows:
  assumes "poll_ok E" and "grows ss0 ss"
  shows "yields (dispatch_event E sessions maxsessions target events ss cache w) (\<lambda>(e, ss', cache', w'). grows ss0 ss')"
proof (cases target)
  case (OnSession ptr)
  show ?thesis
    unfolding dispatch_event_def OnSession epoll_target.case
    by (intro yields_intro)
      (use assms(2) in \<open>auto intro!: grows_replace dest: session_event_moves [OF assms(1), THEN yieldsD]\<close>)
qed (use assms in \<open>auto simp: dispatch_event_def intro: yields_intro tun_loop_grows\<close>)

lemma dispatch_events_grows:
  "poll_ok E \<Longrightarrow> grows ss0 ss \<Longrightarrow>
   yields (dispatch_events E sessions maxsessions evs ss cache w) (\<lambda>(e, ss', cache', w'). grows ss0 ss')"
proof (induction evs arbitrary: ss cache w)
  case (Cons ev evs)
  obtain target events where ev: "ev = (target, events)" by (cases ev)
  show ?case
    unfolding ev dispatch_events.simps
    by (intro yields_intro Cons.IH) (use Cons.prems in \<open>auto dest: dispatch_event_grows [THEN yieldsD, rotated 2]\<close>)
qed (auto intro: yields_intro)

section \<open>Checks\<close>

text \<open>A session is left out when it is a blocked UDP session whose rules have changed, or when
  \<open>check_session\<close> says so.\<close>

definition is_blocked :: "ng_session \<Rightarrow> bool" where
  "is_blocked s \<longleftrightarrow> (\<exists>u. s_proto s = Udp u \<and> u_state u = UDP_BLOCKED)"

definition finished :: "ng_session \<Rightarrow> bool" where
  "finished s \<longleftrightarrow> is_blocked s \<or> (\<exists>E n m now w st s' w'. check_session E n m now s w = (True, st, s', w'))"

inductive thins :: "ng_session list \<Rightarrow> ng_session list \<Rightarrow> bool" where
  none: "thins [] []"
| goes_on: "moves s s' \<Longrightarrow> thins ss ss' \<Longrightarrow> thins (s # ss) (s' # ss')"
| left_out: "moves s s' \<Longrightarrow> finished s' \<Longrightarrow> thins ss ss' \<Longrightarrow> thins (s # ss) ss'"

lemma moved_thins: "list_all2 moves ss ss1 \<Longrightarrow> thins ss1 ss2 \<Longrightarrow> thins ss ss2"
proof (induction arbitrary: ss2 rule: list_all2_induct)
  case (Cons s ss s1 ss1)
  from Cons.prems Cons show ?case
    by (cases rule: thins.cases) (auto intro: thins.intros dest: rtranclp_trans)
qed simp

lemma moved_thins_only: "list_all2 moves ss ss' \<Longrightarrow> thins ss ss'"
  by (induction rule: list_all2_induct) (auto intro: thins.intros)

lemma check_allowed_one_moves:
  assumes r: "check_allowed_one E s w = (r, w')"
  shows "case r of None \<Rightarrow> is_blocked s | Some s' \<Rightarrow> moves s s'"
proof (cases "s_proto s")
  case (Icmp c)
  then have "moves s (s\<lparr>s_proto := Icmp (c\<lparr>i_stop := True\<rparr>)\<rparr>)" if "\<not> i_stop c"
    using session_step.icmp [OF _ icmp_disallowed [OF that]] by blast
  then show ?thesis using r Icmp by (auto simp: check_allowed_one_def Let_def split: if_split_asm prod.splits)
next
  case (Udp u)
  then have "moves s (s\<lparr>s_proto := Udp (u\<lparr>u_state := UDP_FINISHING\<rparr>)\<rparr>)" if "u_state u = UDP_ACTIVE"
    using session_step.udp [OF _ udp_disallowed [OF that]] by blast
  then show ?thesis using r Udp
    by (auto simp: check_allowed_one_def is_blocked_def Let_def split: if_split_asm prod.splits)
next
  case (Tcp t)
  then have "moves s (s\<lparr>s_proto := Tcp t'\<rparr>)" if "t_state t \<notin> {TCP_CLOSING, TCP_CLOSE}" "write_rst E t w1 = (t', w2)" for t' w1 w2
    using session_step.tcp [OF _ disallowed [OF that]] by blast
  then show ?thesis using r Tcp by (auto simp: check_allowed_one_def Let_def split: if_split_asm prod.splits)
qed

lemma check_allowed_thins: "thins ss (fst (check_allowed E ss w))"
proof (induction ss arbitrary: w)
  case (Cons s ss)
  obtain r w1 where r: "check_allowed_one E s w = (r, w1)" by (metis prod.exhaust)
  then show ?case using Cons [of w1] check_allowed_one_moves [OF r]
    by (auto simp: split_beta Let_def finished_def intro: thins.intros split: option.splits)
qed (simp add: thins.none)

lemma count_sessions_moves: "list_all2 moves ss (fst (snd (snd (count_sessions E ss w))))"
proof (induction ss arbitrary: w)
  case (Cons s ss)
  have "moves s ((fst (snd r))\<lparr>s_proto := Tcp (fst (snd (snd r)))\<rparr>)"
    if "s_proto s = Tcp t" "0 \<le> s_socket s" "monitor_tcp_session E s t w = r" for t r
    using session_step.tcp [OF that(1) monitor [OF that(2), of E t w "fst r" "fst (snd r)"]] that(3) by (cases r) auto
  then show ?case using Cons by (auto simp: split_beta Let_def split: proto_session.splits)
qed simp

lemma check_session_moves:
  assumes r: "check_session E n m now s w = (del, st, s', w')"
  shows "if del then finished s else moves s s'"
proof (cases del)
  case True
  then show ?thesis using r by (auto simp: finished_def)
next
  case False
  show ?thesis
  proof (cases "s_proto s")
    case (Icmp c)
    then show ?thesis using r False
      by (auto simp: check_session_def check_icmp_session_def split_beta Let_def split: if_split_asm)
  next
    case (Udp u)
    obtain d s1 u1 w1 where d: "check_udp_session E s u n m w = (d, s1, u1, w1)" by (metis prod.exhaust)
    then have "s' = s1\<lparr>s_proto := Udp u1\<rparr>" using r Udp by (simp add: check_session_def)
    then show ?thesis using False session_step.udp [OF Udp udp_check [OF d]] by auto
  next
    case (Tcp t)
    obtain d s1 t1 w1 where d: "check_tcp_session E s t n m w = (d, s1, t1, w1)" by (metis prod.exhaust)
    then have "s' = s1\<lparr>s_proto := Tcp t1\<rparr>" using r Tcp by (simp add: check_session_def)
    then show ?thesis using False session_step.tcp [OF Tcp check [OF d]] by auto
  qed
qed

lemma check_sessions_thins: "thins ss (fst (snd (check_sessions E n m now timeout ss w)))"
proof (induction ss arbitrary: timeout w)
  case (Cons s ss)
  obtain del st s1 w1 where c: "check_session E n m now s w = (del, st, s1, w1)" by (metis prod.exhaust)
  then show ?case using Cons check_session_moves [OF c]
    by (auto simp: split_beta Let_def intro: thins.intros split: if_split_asm)
qed (simp add: thins.none)

section \<open>The loop\<close>

lemma loop_check_thins: "loop_check E maxsessions m w = (n, t, r, m', w') \<Longrightarrow> thins (m_sessions m) (m_sessions m')"
  using moved_thins_only [OF count_sessions_moves] moved_thins [OF count_sessions_moves check_sessions_thins]
  by (auto simp: loop_check_def split_beta Let_def split: if_split_asm)

lemma loop_turn_sessions:
  assumes "poll_ok E" and "loop_turn E maxsessions m w = Some (go, m', w')"
  obtains ss1 where "thins (m_sessions m) ss1" "grows ss1 (m_sessions m')"
proof -
  obtain n t r m1 w1 where c: "loop_check E maxsessions m w = (n, t, r, m1, w1)" by (metis prod.exhaust)
  have "grows (m_sessions m1) (m_sessions m')"
    using assms(2) dispatch_events_grows [OF assms(1), of "m_sessions m1" "m_sessions m1", THEN yieldsD]
    by (auto simp: loop_turn_def c Let_def bind_eq_Some_conv split: prod.splits poll_result.splits if_split_asm)
  then show thesis using that loop_check_thins [OF c] by blast
qed

end
