(* ===== verification/Ng_Session_Inv.thy ===== *)
theory Ng_Session_Inv
  imports Ng_Session_Steps
begin

text \<open>
  What every session of the list keeps through all packets, events and checks. The locale
  \<open>session_law\<close> states it once: a property that new sessions have and that the steps of the session
  machines keep is kept by every list that grows or thins, and so by each turn of the loop. It is
  interpreted on the invariant of the three protocols (\<open>ok\<close>) and on being a state of the session
  machines (\<open>runs\<close>).
\<close>

section \<open>The contract\<close>

locale session_law =
  fixes P :: "ng_session \<Rightarrow> bool"
  assumes created: "session_created s \<Longrightarrow> P s"
    and step: "session_step s s' \<Longrightarrow> P s \<Longrightarrow> P s'"
begin

lemma moves_keep: "moves s s' \<Longrightarrow> P s \<Longrightarrow> P s'"
  by (induction rule: rtranclp_induct) (auto intro: step)

lemma started_keep: "started s \<Longrightarrow> P s"
  by (auto simp: started_def intro: moves_keep created)

lemma list_moves_keep: "list_all2 moves ss ss' \<Longrightarrow> list_all P ss \<Longrightarrow> list_all P ss'"
  by (induction rule: list_all2_induct) (auto intro: moves_keep)

lemma grows_keep: "grows ss ss' \<Longrightarrow> list_all P ss \<Longrightarrow> list_all P ss'"
  using list.pred_mono_strong [of started _ P] by (auto simp: grows_def started_keep dest: list_moves_keep)

lemma thins_keep: "thins ss ss' \<Longrightarrow> list_all P ss \<Longrightarrow> list_all P ss'"
  by (induction rule: thins.induct) (auto intro: moves_keep)

lemma dispatch_event_keeps:
  assumes "poll_ok E" and "list_all P ss"
  shows "yields (dispatch_event E sessions maxsessions target events ss cache w) (\<lambda>(e, ss', cache', w'). list_all P ss')"
  by (rule yieldsI) (auto dest!: dispatch_event_grows [OF assms(1) grows_refl, THEN yieldsD] intro: grows_keep assms(2))

lemma check_allowed_keeps: "list_all P ss \<Longrightarrow> list_all P (fst (check_allowed E ss w))"
  by (rule thins_keep [OF check_allowed_thins])

lemma check_session_keeps: "check_session E n m now s w = (del, st, s', w') \<Longrightarrow> P s \<Longrightarrow> \<not> del \<Longrightarrow> P s'"
  by (auto dest!: check_session_moves intro: moves_keep)

lemma loop_check_keeps:
  "list_all P (m_sessions m) \<Longrightarrow> loop_check E maxsessions m w = (n, t, r, m', w') \<Longrightarrow> list_all P (m_sessions m')"
  by (rule thins_keep [OF loop_check_thins])

lemma loop_turn_keeps:
  assumes "poll_ok E" and "list_all P (m_sessions m)"
  shows "yields (loop_turn E maxsessions m w) (\<lambda>(go, m', w'). list_all P (m_sessions m'))"
  by (rule yieldsI) (auto elim!: loop_turn_sessions [OF assms(1)] intro: grows_keep [OF _ thins_keep [OF _ assms(2)]])

lemma events_loop_keeps:
  assumes "events_loop E maxsessions m w = Some r"
  shows "poll_ok E \<longrightarrow> list_all P (m_sessions m) \<longrightarrow> list_all P (m_sessions (fst r))"
proof (rule events_loop.raw_induct [OF _ assms], intro impI)
  fix f :: "env \<Rightarrow> int \<Rightarrow> loop_state \<Rightarrow> world \<Rightarrow> (loop_state \<times> world) option" and E maxsessions m w r
  assume ih: "\<And>E maxsessions m w r. f E maxsessions m w = Some r \<Longrightarrow> poll_ok E \<longrightarrow> list_all P (m_sessions m) \<longrightarrow>
      list_all P (m_sessions (fst r))"
    and body: "(let (stop, w) = ask (e_stopping E) w in if stop then Some (m, w) else do {
        (go, m, w) \<leftarrow> loop_turn E maxsessions m w;
        if go then f E maxsessions m w else Some (m, w) }) = Some r"
    and e: "poll_ok E" and ok: "list_all P (m_sessions m)"
  have "yields (let (stop, w) = ask (e_stopping E) w in if stop then Some (m, w) else do {
      (go, m, w) \<leftarrow> loop_turn E maxsessions m w;
      if go then f E maxsessions m w else Some (m, w) }) (\<lambda>r. list_all P (m_sessions (fst r)))"
    using ok by (intro yields_intro)
      (auto dest!: loop_turn_keeps [OF e, THEN yieldsD, rotated] intro!: yieldsI dest: ih simp: e)
  then show "list_all P (m_sessions (fst r))" using body by (rule yieldsD)
qed

lemma handle_events_keeps:
  assumes "handle_events E rlim_cur ss cache w = Some (m, w')" and "poll_ok E" and "list_all P ss"
  shows "list_all P (m_sessions m)"
proof -
  obtain ss1 w1 where c: "check_allowed E ss w = (ss1, w1)" by (metis prod.exhaust)
  have "yields (handle_events E rlim_cur ss cache w) (\<lambda>(m, w'). list_all P (m_sessions m))"
    unfolding handle_events_def
    by (intro yields_intro)
      (use check_allowed_keeps [OF assms(3), of E w] c assms(2) in \<open>auto split: if_split_asm dest!: events_loop_keeps\<close>)
  then show ?thesis using assms(1) by (auto dest: yieldsD)
qed

end

section \<open>The invariant of the session list\<close>

definition session_ok :: "ng_session \<Rightarrow> bool" where
  "session_ok s =
     (case s_proto s of
        Icmp c \<Rightarrow> 0 \<le> s_socket s
      | Udp u \<Rightarrow> udp_inv (s_socket s) u
      | Tcp t \<Rightarrow> tcp_inv (s_socket s) t)"

abbreviation all_ok :: "ng_session list \<Rightarrow> bool" where
  "all_ok \<equiv> list_all session_ok"

lemma icmp_created_socket: "icmp_created (s, c) \<Longrightarrow> 0 \<le> s_socket s"
  by (erule icmp_created.cases) (auto simp: icmp_register_def split_beta Let_def split: if_split_asm)

interpretation ok: session_law session_ok
proof unfold_locales
  show "session_ok s" if "session_created s" for s
    using that by (auto simp: session_created_def session_ok_def icmp_created_socket udp_created_inv tcp_created_inv
        split: proto_session.splits)
  show "session_ok s'" if "session_step s s'" "session_ok s" for s s'
    using that by (cases rule: session_step.cases)
      (auto simp: session_ok_def tcp_good_def udp_good_def elim!: icmp_step_cases dest: udp_step_good tcp_step_good)
qed

lemma check_session_ok:
  assumes "check_session E n m now s w = (del, st, s', w')" and "session_ok s"
  shows "\<not> del \<Longrightarrow> session_ok s'" and "del \<Longrightarrow> s_socket s' = -1"
proof -
  show "session_ok s'" if "\<not> del" using assms that by (rule ok.check_session_keeps)
  show "s_socket s' = -1" if "del"
  proof (cases "s_proto s")
    case (Icmp c)
    then show ?thesis using assms that
      by (auto simp: check_session_def check_icmp_session_def session_ok_def split_beta Let_def split: if_split_asm)
  next
    case (Udp u)
    obtain d s1 u1 w1 where d: "check_udp_session E s u n m w = (d, s1, u1, w1)" by (metis prod.exhaust)
    then have c: "check_udp_session E s u n m w = (del, s1, u1, w1)" "s' = s1\<lparr>s_proto := Udp u1\<rparr>"
      using assms(1) Udp by (simp_all add: check_session_def)
    have "udp_inv (s_socket s) u" using assms(2) Udp by (simp add: session_ok_def)
    note g = check_udp_session_good [OF this c(1)]
    show ?thesis using g c(2) that by (auto simp: udp_good_def udp_inv_def)
  next
    case (Tcp t)
    obtain d s1 t1 w1 where d: "check_tcp_session E s t n m w = (d, s1, t1, w1)" by (metis prod.exhaust)
    then have c: "check_tcp_session E s t n m w = (del, s1, t1, w1)" "s' = s1\<lparr>s_proto := Tcp t1\<rparr>"
      using assms(1) Tcp by (simp_all add: check_session_def)
    have "tcp_inv (s_socket s) t" using assms(2) Tcp by (simp add: session_ok_def)
    note g = check_session_good [OF this c(1)]
    show ?thesis using g c(2) that by (auto simp: tcp_good_def tcp_inv_def)
  qed
qed

section \<open>The session machines\<close>

text \<open>The machines carry the union member beside the session, whose own copy they never read.\<close>

lemma tcp_eof_proto:
  "tcp_eof E (s\<lparr>s_proto := x\<rparr>) t w = (case tcp_eof E s t w of (s, t, w) \<Rightarrow> (s\<lparr>s_proto := x\<rparr>, t, w))"
  by (simp add: tcp_eof_def Let_def split_beta)

lemma tcp_read_proto:
  assumes "tcp_read E s t ev w = Some (s', t', w')"
  shows "tcp_read E (s\<lparr>s_proto := x\<rparr>) t ev w = Some (s'\<lparr>s_proto := x\<rparr>, t', w')"
proof (cases "ev AND EPOLLIN \<noteq> 0 \<and> get_send_window t > 0")
  case True
  let ?n = "if get_send_window t > ucast (t_mss t) then ucast (t_mss t) else get_send_window t"
  obtain tm w1 where tm: "sys_time E w = (tm, w1)" by (cases "sys_time E w")
  obtain res w2 where recv: "sys_recv E (s_socket s) (unat ?n) w1 = (res, w2)" by (metis prod.exhaust)
  show ?thesis using assms True tm recv
    by (cases res) (auto simp: tcp_read_def Let_def tcp_eof_proto bind_eq_Some_conv split: if_split_asm prod.splits)
qed (use assms in \<open>auto simp: tcp_read_def\<close>)

lemma check_tcp_socket_proto:
  assumes "check_tcp_socket E s t ev w = Some (s', t', w')"
  shows "check_tcp_socket E (s\<lparr>s_proto := x\<rparr>) t ev w = Some (s'\<lparr>s_proto := x\<rparr>, t', w')"
proof (cases "ev AND EPOLLERR \<noteq> 0 \<or> t_state t = TCP_LISTEN")
  case True
  then show ?thesis using assms by (auto simp: check_tcp_socket_def Let_def split_beta split: if_split_asm)
next
  case False
  then obtain t1 w1 where 1: "tcp_forward E (s_socket s) t ev w = Some (t1, w1)"
    and 2: "(if t_state t1 = TCP_ESTABLISHED \<or> t_state t1 = TCP_CLOSE_WAIT
      then tcp_read E s t1 ev w1 else Some (s, t1, w1)) = Some (s', t', w')"
    using assms by (auto simp: check_tcp_socket_def bind_eq_Some_conv)
  then show ?thesis using False tcp_read_proto [of E s t1 ev w1 s' t' w' x]
    by (auto simp: check_tcp_socket_def split: if_split_asm)
qed

lemma check_tcp_session_proto:
  "check_tcp_session E s t n m w = (del, s', t', w') \<Longrightarrow>
   check_tcp_session E (s\<lparr>s_proto := x\<rparr>) t n m w = (del, s'\<lparr>s_proto := x\<rparr>, t', w')"
  by (auto simp: check_tcp_session_def tcp_close_socket_def Let_def split_beta)

lemma monitor_tcp_session_proto:
  "monitor_tcp_session E s t w = (c, s', t', w') \<Longrightarrow>
   monitor_tcp_session E (s\<lparr>s_proto := x\<rparr>) t w = (c, s'\<lparr>s_proto := x\<rparr>, t', w')"
  by (auto simp: monitor_tcp_session_def Let_def split_beta split: if_split_asm)

lemma check_udp_session_proto:
  "check_udp_session E s u n m w = (del, s', u', w') \<Longrightarrow>
   check_udp_session E (s\<lparr>s_proto := x\<rparr>) u n m w = (del, s'\<lparr>s_proto := x\<rparr>, u', w')"
  by (auto simp: check_udp_session_def Let_def split_beta split: if_split_asm)

lemma tcp_step_proto: "tcp_step (s, t) (s', t') \<Longrightarrow> tcp_step (s\<lparr>s_proto := x\<rparr>, t) (s'\<lparr>s_proto := x\<rparr>, t')"
  by (erule tcp_step_cases)
    (auto intro: tcp_step.intros dest: check_tcp_socket_proto [of _ _ _ _ _ _ _ _ x] check_tcp_session_proto [of _ _ _ _ _ _ _ _ _ _ x]
      monitor_tcp_session_proto [of _ _ _ _ _ _ _ _ x])

lemma udp_step_proto: "udp_step (s, u) (s', u') \<Longrightarrow> udp_step (s\<lparr>s_proto := x\<rparr>, u) (s'\<lparr>s_proto := x\<rparr>, u')"
  by (erule udp_step_cases)
    (auto intro: udp_step.intros simp: check_udp_socket_proto dest: check_udp_session_proto [of _ _ _ _ _ _ _ _ _ _ x])

text \<open>A state of its machine, up to that copy.\<close>

lemma session_proto_same: "s_proto s = x \<Longrightarrow> s\<lparr>s_proto := x\<rparr> = s"
  by simp

definition session_runs :: "ng_session \<Rightarrow> bool" where
  "session_runs s =
     (case s_proto s of
        Icmp c \<Rightarrow> started s
      | Udp u \<Rightarrow> (\<exists>x. reach udp_created udp_step (s\<lparr>s_proto := x\<rparr>, u))
      | Tcp t \<Rightarrow> (\<exists>x. reach tcp_created tcp_step (s\<lparr>s_proto := x\<rparr>, t)))"

interpretation runs: session_law session_runs
proof unfold_locales
  show "session_runs s" if "session_created s" for s
  proof (cases "s_proto s")
    case (Icmp c)
    then show ?thesis using that by (auto simp: session_runs_def started_def)
  next
    case (Udp u)
    have "reach udp_created udp_step (s\<lparr>s_proto := Udp u\<rparr>, u)"
      using that Udp by (subst session_proto_same [OF Udp]) (simp add: reach_init session_created_def)
    then show ?thesis using Udp by (auto simp: session_runs_def)
  next
    case (Tcp t)
    have "reach tcp_created tcp_step (s\<lparr>s_proto := Tcp t\<rparr>, t)"
      using that Tcp by (subst session_proto_same [OF Tcp]) (simp add: reach_init session_created_def)
    then show ?thesis using Tcp by (auto simp: session_runs_def)
  qed
  show "session_runs s'" if s: "session_step s s'" and r: "session_runs s" for s s'
    using s
  proof cases
    case (icmp c s1 c1)
    then show ?thesis using r s by (auto simp: session_runs_def intro: started_moves)
  next
    case (udp u s1 u1)
    then obtain x where x: "reach udp_created udp_step (s\<lparr>s_proto := x\<rparr>, u)" using r by (auto simp: session_runs_def)
    from reach_step [OF x udp_step_proto [OF udp(3)]] show ?thesis using udp(1) by (auto simp: session_runs_def)
  next
    case (tcp t s1 t1)
    then obtain x where x: "reach tcp_created tcp_step (s\<lparr>s_proto := x\<rparr>, t)" using r by (auto simp: session_runs_def)
    from reach_step [OF x tcp_step_proto [OF tcp(3)]] show ?thesis using tcp(1) by (auto simp: session_runs_def)
  qed
qed

end
