(* ===== verification/Ng_World.thy ===== *)
theory Ng_World
  imports Ng_Session
begin

text \<open>
  What no routine of the engine does to the world: a property of worlds that the next call and the
  next event keep is kept by every routine. The locale \<open>world_law\<close> carries such a property through the
  whole program, from the single system calls to a turn of the event loop. Its two instances say
  that calls are only ever added and that events are only ever appended.
\<close>

named_theorems kept \<open>routines that keep a law of the world\<close>

locale world_law =
  fixes P :: "world \<Rightarrow> bool"
  assumes call: "P w \<Longrightarrow> P (called w)"
    and event: "P w \<Longrightarrow> P (emit e w)"
begin

section \<open>System calls and packets\<close>

lemma sys_time_kept [kept]: "sys_time E w = (x, w') \<Longrightarrow> P w \<longrightarrow> P w'"
  by (auto simp: sys_time_def intro: call)

lemma sys_ms_kept [kept]: "sys_ms E w = (x, w') \<Longrightarrow> P w \<longrightarrow> P w'"
  by (auto simp: sys_ms_def intro: call)

lemma ask_kept [kept]: "ask f w = (x, w') \<Longrightarrow> P w \<longrightarrow> P w'"
  by (auto simp: ask_def intro: call)

lemma sys_write_kept [kept]: "sys_write E b w = (x, w') \<Longrightarrow> P w \<longrightarrow> P w'"
  by (auto simp: sys_write_def intro: call event)

lemma sys_send_kept [kept]: "sys_send E s b m w = (x, w') \<Longrightarrow> P w \<longrightarrow> P w'"
  by (auto simp: sys_send_def Let_def intro: call event split: prod.splits if_splits)

lemma sys_recv_kept [kept]: "sys_recv E s n w = (x, w') \<Longrightarrow> P w \<longrightarrow> P w'"
  by (auto simp: sys_recv_def intro: call event split: recv_result.splits)

lemma sys_sendto_kept [kept]: "sys_sendto E s b a w = (x, w') \<Longrightarrow> P w \<longrightarrow> P w'"
  by (auto simp: sys_sendto_def intro: call event)

lemma sys_epoll_kept [kept]: "sys_epoll E e s w = (x, w') \<Longrightarrow> P w \<longrightarrow> P w'"
  by (auto simp: sys_epoll_def intro: call event)

lemma sys_close_kept [intro]: "P w \<Longrightarrow> P (sys_close s w)"
  by (auto simp: sys_close_def intro: call event)

lemma write_pcap_rec_kept [intro]: "P w \<Longrightarrow> P (write_pcap_rec E b w)"
  by (auto simp: write_pcap_rec_def intro: event dest!: kept kept [OF sym] split: prod.splits)

lemma write_tun_kept [kept]: "write_tun E b w = (x, w') \<Longrightarrow> P w \<longrightarrow> P w'"
  by (auto simp: write_tun_def Let_def dest!: kept kept [OF sym] split: prod.splits if_splits)

lemma write_packet_kept [kept]:
  "write_tcp E t data syn ack fin rst w = (x, w') \<Longrightarrow> P w \<longrightarrow> P w'"
  "write_udp E u data w = (x, w') \<Longrightarrow> P w \<longrightarrow> P w'"
  "write_icmp E c data w = (x, w') \<Longrightarrow> P w \<longrightarrow> P w'"
  by (auto simp: write_tcp_def write_udp_def write_icmp_def dest!: kept kept [OF sym])

lemma write_udp_snd [intro]: "P w \<Longrightarrow> P (snd (write_udp E u data w))"
  by (cases "write_udp E u data w") (auto dest!: kept kept [OF sym])

section \<open>TCP\<close>

lemma write_or_close_kept [kept]: "write_or_close E t data syn ack fin w = (r, t', w') \<Longrightarrow> P w \<longrightarrow> P w'"
  by (auto simp: write_or_close_def dest!: kept kept [OF sym] split: prod.splits if_splits)

lemma write_segment_kept [kept]:
  "write_syn_ack E t w = (r, t', w') \<Longrightarrow> P w \<longrightarrow> P w'" "write_ack E t w = (r, t', w') \<Longrightarrow> P w \<longrightarrow> P w'"
  "write_data E t data w = (r, t', w') \<Longrightarrow> P w \<longrightarrow> P w'" "write_fin_ack E t w = (r, t', w') \<Longrightarrow> P w \<longrightarrow> P w'"
  by (auto simp: write_syn_ack_def write_ack_def write_data_def write_fin_ack_def dest!: kept kept [OF sym])

lemma write_rst_kept [kept]: "write_rst E t w = (t', w') \<Longrightarrow> P w \<longrightarrow> P w'"
  by (auto simp: write_rst_def Let_def dest!: kept kept [OF sym] split: prod.splits if_splits)

lemma windows_kept [kept]:
  "get_receive_buffer E s w = (x, w') \<Longrightarrow> P w \<longrightarrow> P w'"
  "get_receive_window E s t w = (x, w') \<Longrightarrow> P w \<longrightarrow> P w'"
  by (auto simp: get_receive_buffer_def get_receive_window_def Let_def dest!: kept kept [OF sym] split: prod.splits if_splits)

lemma tcp_expire_kept [kept]: "tcp_expire E t timeout now w = (t', w') \<Longrightarrow> P w \<longrightarrow> P w'"
  by (auto simp: tcp_expire_def dest!: kept kept [OF sym] split: if_splits)

lemma tcp_close_socket_kept [kept]: "tcp_close_socket E s t w = (s', t', w') \<Longrightarrow> P w \<longrightarrow> P w'"
  by (auto simp: tcp_close_socket_def Let_def dest!: kept kept [OF sym] split: prod.splits if_splits)

lemma tcp_account_kept [kept]: "tcp_account t w = (t', w') \<Longrightarrow> P w \<longrightarrow> P w'"
  by (auto simp: tcp_account_def intro: event split: if_splits)

lemma check_tcp_session_kept [kept]: "check_tcp_session E s t n m w = (d, s', t', w') \<Longrightarrow> P w \<longrightarrow> P w'"
  by (auto simp: check_tcp_session_def Let_def dest!: kept kept [OF sym] split: prod.splits if_splits)

lemma tcp_keep_alive_kept [kept]: "tcp_keep_alive E t w = (t', w') \<Longrightarrow> P w \<longrightarrow> P w'"
  by (auto simp: tcp_keep_alive_def Let_def dest!: kept kept [OF sym] split: prod.splits if_splits)

lemma tcp_poll_events_kept [kept]: "tcp_poll_events E s t w = (ev, c, t', w') \<Longrightarrow> P w \<longrightarrow> P w'"
  by (auto simp: tcp_poll_events_def Let_def dest!: kept kept [OF sym] split: prod.splits if_splits list.splits)

lemma monitor_tcp_session_kept [kept]: "monitor_tcp_session E s t w = (c, s', t', w') \<Longrightarrow> P w \<longrightarrow> P w'"
  by (auto simp: monitor_tcp_session_def Let_def dest!: kept kept [OF sym] split: prod.splits if_splits)

lemma open_tcp_socket_kept [kept]: "open_tcp_socket E t r w = (x, w') \<Longrightarrow> P w \<longrightarrow> P w'"
  by (auto simp: open_tcp_socket_def Let_def intro: event dest!: kept kept [OF sym] split: prod.splits if_splits)

lemma tcp_register_kept [kept]: "tcp_register E ptr t al r ss w = (x, ss', w') \<Longrightarrow> P w \<longrightarrow> P w'"
  by (auto simp: tcp_register_def Let_def dest!: kept kept [OF sym] split: prod.splits if_splits)

lemma tcp_syn_kept [THEN yieldsD, kept]:
  "yields (tcp_syn E buf payload n h data len v sa da uid al r ss w) (\<lambda>(x, ss', w'). P w \<longrightarrow> P w')"
  unfolding tcp_syn_def by (intro yields_intro; (rule yieldsI)?; auto dest!: kept kept [OF sym] split: prod.splits)

lemma tcp_unknown_kept [intro]: "P w \<Longrightarrow> P (tcp_unknown E h len v sa da w)"
proof -
  assume "P w"
  moreover obtain t' w' where "write_rst E (zero_tcp\<lparr>t_version := v, t_local_seq := th_ack_seq h,
      t_remote_seq := th_seq h + ucast len + (if th_syn h \<or> th_fin h then 1 else 0),
      t_saddr := sa, t_daddr := da, t_source := th_source h, t_dest := th_dest h\<rparr>) w = (t', w')"
    by (metis prod.exhaust)
  ultimately show "P (tcp_unknown E h len v sa da w)" by (auto simp: tcp_unknown_def dest!: kept kept [OF sym])
qed

lemma tcp_fin_kept [kept]: "tcp_fin E t w = (r, t', w') \<Longrightarrow> P w \<longrightarrow> P w'"
  by (auto simp: tcp_fin_def Let_def dest!: kept kept [OF sym] split: prod.splits if_splits)

lemma tcp_other_ack_kept [kept]: "tcp_other_ack E s h t w = (r, t', w') \<Longrightarrow> P w \<longrightarrow> P w'"
  by (auto simp: tcp_other_ack_def Let_def intro: event dest!: kept kept [OF sym] split: prod.splits if_splits)

lemma tcp_sequence_kept [kept]: "tcp_sequence E s h t w = (r, t', w') \<Longrightarrow> P w \<longrightarrow> P w'"
  by (auto simp: tcp_sequence_def dest!: kept kept [OF sym] split: prod.splits if_splits)

lemma tcp_known_kept [THEN yieldsD, kept]: "yields (tcp_known E s buf data len h t w) (\<lambda>(r, t', w'). P w \<longrightarrow> P w')"
  unfolding tcp_known_def
  by (intro yields_intro; (rule yieldsI)?; auto dest!: kept kept [OF sym] split: prod.splits if_splits)

lemma handle_tcp_kept [THEN yieldsD, kept]:
  "yields (handle_tcp E buf plen payload uid al r ss w) (\<lambda>(x, ss', w'). P w \<longrightarrow> P w')"
  unfolding handle_tcp_def
  by (intro yields_intro; (rule yieldsI)?; auto dest!: kept kept [OF sym])

text \<open>The socket.\<close>

lemma socks5_kept [kept]:
  "socks5_fail E t w = (t', w') \<Longrightarrow> P w \<longrightarrow> P w'" "socks5_request E s t b w = (t', w') \<Longrightarrow> P w \<longrightarrow> P w'"
  by (auto simp: socks5_fail_def socks5_request_def dest!: kept kept [OF sym] split: prod.splits if_splits)

lemma socks5_recv_kept [kept]: "socks5_recv E s t w = (t', w') \<Longrightarrow> P w \<longrightarrow> P w'"
  by (auto simp: socks5_recv_def dest!: kept kept [OF sym] split: prod.splits if_splits recv_result.splits)

lemma socks5_send_kept [kept]: "socks5_send E s t w = (t', w') \<Longrightarrow> P w \<longrightarrow> P w'"
  by (auto simp: socks5_send_def Let_def dest!: kept kept [OF sym] split: prod.splits if_splits socks5_state.splits)

lemma tcp_connecting_kept [kept]: "tcp_connecting E s t ev w = (t', w') \<Longrightarrow> P w \<longrightarrow> P w'"
  by (auto simp: tcp_connecting_def Let_def dest!: kept kept [OF sym] split: prod.splits if_splits)

lemma forward_loop_kept [THEN yieldsD, kept]: "yields (forward_loop E s q t fwd bs w) (\<lambda>(fwd', t', w'). P w \<longrightarrow> P w')"
proof (induction q arbitrary: t fwd bs w)
  case (Cons g q)
  show ?case
    unfolding forward_loop.simps
    by (intro yields_intro; (rule yieldsI)?; auto dest!: kept kept [OF sym] Cons.IH [THEN yieldsD] split: prod.splits)
qed (simp add: yields_def)

lemma tcp_acknowledge_kept [kept]: "tcp_acknowledge E s fwd t w = (t', w') \<Longrightarrow> P w \<longrightarrow> P w'"
  by (auto simp: tcp_acknowledge_def Let_def dest!: kept kept [OF sym] split: prod.splits if_splits)

lemma tcp_forward_kept [THEN yieldsD, kept]: "yields (tcp_forward E s t ev w) (\<lambda>(t', w'). P w \<longrightarrow> P w')"
  unfolding tcp_forward_def
  by (intro yields_intro; (rule yieldsI)?; auto dest!: kept kept [OF sym] split: prod.splits if_splits)

lemma tcp_eof_kept [kept]: "tcp_eof E s t w = (s', t', w') \<Longrightarrow> P w \<longrightarrow> P w'"
  by (auto simp: tcp_eof_def Let_def dest!: kept kept [OF sym] split: prod.splits if_splits)

lemma dns_answers_kept [THEN yieldsD, kept]: "yields (dns_answers data qname n off name svcb w) (\<lambda>(r, w'). P w \<longrightarrow> P w')"
proof (induction n arbitrary: off name svcb w)
  case (Suc n)
  show ?case
    unfolding dns_answers.simps by (intro yields_intro; (rule yieldsI)?; auto intro: event dest!: Suc.IH [THEN yieldsD])
qed (simp add: yields_def)

lemma parse_dns_response_kept [THEN yieldsD, kept]: "yields (parse_dns_response E data w) (\<lambda>(r, w'). P w \<longrightarrow> P w')"
  unfolding parse_dns_response_def
  by (intro yields_intro; (rule yieldsI)?; auto intro: event dest!: kept kept [OF sym] split: prod.splits if_splits)

lemma tcp_read_data_kept [THEN yieldsD, kept]: "yields (tcp_read_data E t b w) (\<lambda>(t', w'). P w \<longrightarrow> P w')"
  unfolding tcp_read_data_def
  by (intro yields_intro; (rule yieldsI)?; auto simp: bind_eq_Some_conv dest!: kept kept [OF sym] split: prod.splits if_splits)

lemma tcp_read_kept [THEN yieldsD, kept]: "yields (tcp_read E s t ev w) (\<lambda>(s', t', w'). P w \<longrightarrow> P w')"
  unfolding tcp_read_def
  by (intro yields_intro; (rule yieldsI)?; auto dest!: kept kept [OF sym] split: prod.splits if_splits)

lemma check_tcp_socket_kept [THEN yieldsD, kept]: "yields (check_tcp_socket E s t ev w) (\<lambda>(s', t', w'). P w \<longrightarrow> P w')"
  unfolding check_tcp_socket_def
  by (intro yields_intro; (rule yieldsI)?; auto dest!: kept kept [OF sym] split: prod.splits if_splits)

lemma write_or_ask_kept [kept]:
  "ask_allowed E v p sa sp da dp uid w = (x, w') \<Longrightarrow> P w \<longrightarrow> P w'"
  "is_address_allowed E q w = (y, w') \<Longrightarrow> P w \<longrightarrow> P w'" "is_domain_blocked E name w = (x, w') \<Longrightarrow> P w \<longrightarrow> P w'"
  by (auto simp: ask_allowed_def is_address_allowed_def is_domain_blocked_def dest!: kept kept [OF sym]
      split: prod.splits option.splits)

section \<open>UDP and ICMP\<close>

lemma check_dhcp_kept [THEN yieldsD, kept]: "yields (check_dhcp E u data w) (\<lambda>(r, u', w'). P w \<longrightarrow> P w')"
  unfolding check_dhcp_def by (intro yields_intro; auto)

lemma check_udp_session_kept [kept]: "check_udp_session E s u n m w = (d, s', u', w') \<Longrightarrow> P w \<longrightarrow> P w'"
  by (auto simp: check_udp_session_def Let_def intro: event dest!: kept kept [OF sym] split: prod.splits if_splits)

lemma udp_received_kept [THEN yieldsD, kept]: "yields (udp_received E u b w) (\<lambda>(u', w'). P w \<longrightarrow> P w')"
  unfolding udp_received_def
  by (intro yields_intro; (rule yieldsI)?; auto simp: bind_eq_Some_conv dest!: kept kept [OF sym] split: if_splits)

lemma check_udp_socket_kept [THEN yieldsD, kept]: "yields (check_udp_socket E s u ev w) (\<lambda>(u', w'). P w \<longrightarrow> P w')"
  unfolding check_udp_socket_def
  by (rule yieldsI) (auto simp: Let_def dest!: kept kept [OF sym] split: prod.splits if_splits recv_result.splits)

lemma block_udp_kept [THEN yieldsD, kept]: "yields (block_udp E buf payload uid ss w) (\<lambda>(ss', w'). P w \<longrightarrow> P w')"
  unfolding block_udp_def
  by (intro yields_intro; auto simp: yields_def dest!: kept kept [OF sym] split: prod.splits)

lemma open_udp_socket_kept [kept]: "open_udp_socket E u r w = (x, w') \<Longrightarrow> P w \<longrightarrow> P w'"
  by (auto simp: open_udp_socket_def Let_def dest!: kept kept [OF sym] split: prod.splits if_splits)

lemma udp_register_kept [kept]: "udp_register E v sa sp da dp uid r w = (x, w') \<Longrightarrow> P w \<longrightarrow> P w'"
  by (auto simp: udp_register_def Let_def dest!: kept kept [OF sym] split: prod.splits if_splits)

lemma udp_answer_kept [THEN yieldsD, kept]: "yields (udp_answer E u dest data w) (\<lambda>(x, w'). P w \<longrightarrow> P w')"
  unfolding udp_answer_def check_domain_def
  by (intro yields_intro; (rule yieldsI)?; auto dest!: kept kept [OF sym] split: prod.splits if_splits)

lemma udp_forward_kept [kept]: "udp_forward E sock u data r w = (x, u', w') \<Longrightarrow> P w \<longrightarrow> P w'"
  by (auto simp: udp_forward_def Let_def dest!: kept kept [OF sym] split: prod.splits if_splits)

lemma udp_active_kept [THEN yieldsD, kept]: "yields (udp_active E sock u sp dp data r w) (\<lambda>(x, u', w'). P w \<longrightarrow> P w')"
  unfolding udp_active_def
  by (intro yields_intro; (rule yieldsI)?; auto dest!: kept kept [OF sym] split: prod.splits if_splits)

lemma handle_udp_kept [THEN yieldsD, kept]: "yields (handle_udp E buf plen payload uid r ss w) (\<lambda>(x, ss', w'). P w \<longrightarrow> P w')"
  unfolding handle_udp_def
  by (intro yields_intro; (rule yieldsI)?;
      auto dest!: kept kept [OF sym] split: prod.splits if_splits option.splits proto_session.splits)

lemma check_icmp_session_kept [kept]: "check_icmp_session E s c n m w = (d, s', w') \<Longrightarrow> P w \<longrightarrow> P w'"
  by (auto simp: check_icmp_session_def Let_def dest!: kept kept [OF sym] split: prod.splits if_splits)

lemma icmp_received_kept [kept]: "icmp_received E c b w = (c', w') \<Longrightarrow> P w \<longrightarrow> P w'"
  by (auto simp: icmp_received_def Let_def dest!: kept kept [OF sym] split: prod.splits if_splits)

lemma check_icmp_socket_kept [kept]: "check_icmp_socket E s c ev w = (c', w') \<Longrightarrow> P w \<longrightarrow> P w'"
  by (auto simp: check_icmp_socket_def Let_def dest!: kept kept [OF sym] split: prod.splits if_splits recv_result.splits)

lemma open_icmp_socket_kept [kept]: "open_icmp_socket E c w = (x, w') \<Longrightarrow> P w \<longrightarrow> P w'"
  by (auto simp: open_icmp_socket_def Let_def dest!: kept kept [OF sym] split: prod.splits if_splits)

lemma icmp_register_kept [kept]: "icmp_register E v sa da i uid w = (x, w') \<Longrightarrow> P w \<longrightarrow> P w'"
  by (auto simp: icmp_register_def Let_def dest!: kept kept [OF sym] split: prod.splits if_splits)

lemma icmp_forward_kept [kept]: "icmp_forward E sock c v da cs msg w = (x, c', w') \<Longrightarrow> P w \<longrightarrow> P w'"
  by (auto simp: icmp_forward_def Let_def dest!: kept kept [OF sym] split: prod.splits if_splits)

lemma handle_icmp_kept [THEN yieldsD, kept]: "yields (handle_icmp E buf plen payload uid ss w) (\<lambda>(x, ss', w'). P w \<longrightarrow> P w')"
  unfolding handle_icmp_def
  by (intro yields_intro; (rule yieldsI)?;
      auto simp: Let_def dest!: kept kept [OF sym] split: prod.splits if_splits option.splits proto_session.splits)

section \<open>IP packets\<close>

lemma get_uid_kept [kept]:
  "get_uid_sub E v p sa sp da dp n c w = (x, c', w') \<Longrightarrow> P w \<longrightarrow> P w'"
  "get_uid E v p sa sp da dp c w = (x, c', w') \<Longrightarrow> P w \<longrightarrow> P w'"
  by (auto simp: get_uid_sub_def get_uid_def Let_def dest!: kept kept [OF sym] split: prod.splits if_splits option.splits)

lemma ip_uid_kept [kept]: "ip_uid E hdr sp dp sni st c w = (x, c', w') \<Longrightarrow> P w \<longrightarrow> P w'"
  by (cases hdr) (auto simp: ip_uid_def Let_def intro: event dest!: kept kept [OF sym] split: prod.splits if_splits option.splits)

lemma ip_hostname_kept [THEN yieldsD, kept]: "yields (ip_hostname E buf plen p payload name w) (\<lambda>(h, w'). P w \<longrightarrow> P w')"
  unfolding ip_hostname_def by (intro yields_intro; auto dest!: kept kept [OF sym])

lemma ip_allowed_kept [THEN yieldsD, kept]:
  "yields (ip_allowed E buf plen hdr sp dp syn fl data sni uid ss w) (\<lambda>(a, r, w'). P w \<longrightarrow> P w')"
  unfolding ip_allowed_def
  by (intro yields_intro; (rule yieldsI)?; auto dest!: kept kept [OF sym] split: prod.splits if_splits)

lemma ip_dispatch_kept [THEN yieldsD, kept]:
  "yields (ip_dispatch E buf plen p payload uid nm al r ss w) (\<lambda>(ss', w'). P w \<longrightarrow> P w')"
  unfolding ip_dispatch_def by (intro yields_intro; (rule yieldsI)?; auto dest!: kept kept [OF sym])

lemma handle_ip_kept [THEN yieldsD, kept]: "yields (handle_ip E buf plen n m ss c w) (\<lambda>(ss', c', w'). P w \<longrightarrow> P w')"
  unfolding handle_ip_def by (intro yields_intro; (rule yieldsI)?; auto dest!: kept kept [OF sym])

lemma check_tun_kept [THEN yieldsD, kept]: "yields (check_tun E ev n m ss c w) (\<lambda>(ok, ss', c', w'). P w \<longrightarrow> P w')"
  unfolding check_tun_def
  by (rule yieldsI) (auto simp: Let_def bind_eq_Some_conv intro: event dest!: kept kept [OF sym]
      split: prod.splits if_splits recv_result.splits)

section \<open>The loop\<close>

lemma clear_loop_kept [intro]: "P w \<Longrightarrow> P (clear_loop ss w)"
  by (induction ss arbitrary: w) auto

lemma check_allowed_one_kept [kept]: "check_allowed_one E s w = (x, w') \<Longrightarrow> P w \<longrightarrow> P w'"
  by (auto simp: check_allowed_one_def Let_def dest!: kept kept [OF sym] split: prod.splits if_splits proto_session.splits)

lemma check_allowed_kept [kept]: "check_allowed E ss w = (ss', w') \<Longrightarrow> P w \<longrightarrow> P w'"
  by (induction ss arbitrary: w ss' w') (auto simp: Let_def dest!: kept kept [OF sym] split: prod.splits)

lemma count_sessions_kept [kept]: "count_sessions E ss w = (n, r, ss', w') \<Longrightarrow> P w \<longrightarrow> P w'"
proof (induction ss arbitrary: w n r ss' w')
  case (Cons s ss)
  then show ?case
    by (auto simp: Let_def dest!: kept kept [OF sym] Cons.IH split: prod.splits proto_session.splits if_splits)
qed simp

lemma check_session_kept [kept]: "check_session E n m now s w = (d, t, s', w') \<Longrightarrow> P w \<longrightarrow> P w'"
  by (auto simp: check_session_def Let_def dest!: kept kept [OF sym] split: prod.splits proto_session.splits)

lemma check_sessions_kept [kept]: "check_sessions E n m now t ss w = (t', ss', w') \<Longrightarrow> P w \<longrightarrow> P w'"
proof (induction ss arbitrary: t w t' ss' w')
  case (Cons s ss)
  then show ?case by (auto simp: Let_def dest!: kept kept [OF sym] Cons.IH split: prod.splits)
qed simp

lemma tun_loop_kept [THEN yieldsD, kept]: "yields (tun_loop k E ev n m ss c w) (\<lambda>(x, ss', c', w'). P w \<longrightarrow> P w')"
proof (induction k arbitrary: ss c w)
  case (Suc k)
  show ?case
    unfolding tun_loop.simps by (intro yields_intro; (rule yieldsI)?; auto dest!: kept kept [OF sym] Suc.IH [THEN yieldsD])
qed (simp add: yields_def)

lemma udp_loop_kept [THEN yieldsD, kept]: "yields (udp_loop k E ev s u w) (\<lambda>(u', w'). P w \<longrightarrow> P w')"
proof (induction k arbitrary: u w)
  case (Suc k)
  show ?case
    unfolding udp_loop.simps by (intro yields_intro; (rule yieldsI)?; auto dest!: kept kept [OF sym] Suc.IH [THEN yieldsD])
qed (simp add: yields_def)

lemma session_event_kept [THEN yieldsD, kept]: "yields (session_event E ev s w) (\<lambda>(s', w'). P w \<longrightarrow> P w')"
  unfolding session_event_def
  by (rule yieldsI) (auto simp: Let_def bind_eq_Some_conv dest!: kept kept [OF sym] split: prod.splits proto_session.splits)

lemma dispatch_event_kept [THEN yieldsD, kept]:
  "yields (dispatch_event E n m t ev ss c w) (\<lambda>(x, ss', c', w'). P w \<longrightarrow> P w')"
  unfolding dispatch_event_def
  by (rule yieldsI) (auto simp: bind_eq_Some_conv intro: call dest!: kept kept [OF sym]
      split: epoll_target.splits option.splits)

lemma dispatch_events_kept [THEN yieldsD, kept]:
  "yields (dispatch_events E n m evs ss c w) (\<lambda>(x, ss', c', w'). P w \<longrightarrow> P w')"
proof (induction evs arbitrary: ss c w)
  case (Cons ev evs)
  obtain t e where ev: "ev = (t, e)" by (cases ev)
  show ?case
    unfolding ev dispatch_events.simps
    by (intro yields_intro; (rule yieldsI)?; auto dest!: kept kept [OF sym] Cons.IH [THEN yieldsD])
qed (simp add: yields_def)

lemma loop_check_kept [kept]: "loop_check E n m w = (a, b, r, m', w') \<Longrightarrow> P w \<longrightarrow> P w'"
  by (auto simp: loop_check_def Let_def dest!: kept kept [OF sym] split: prod.splits if_splits)

lemma loop_turn_kept [THEN yieldsD, kept]: "yields (loop_turn E n m w) (\<lambda>(go, m', w'). P w \<longrightarrow> P w')"
  unfolding loop_turn_def
  by (rule yieldsI) (auto simp: Let_def bind_eq_Some_conv intro: event dest!: kept kept [OF sym]
      split: prod.splits if_splits poll_result.splits)

end

section \<open>The two laws\<close>

interpretation calls: world_law "\<lambda>w. n \<le> w_calls w" for n
  by unfold_locales (simp_all add: called_def emit_def)

interpretation history: world_law "\<lambda>w. \<exists>es. w_out w = h @ es" for h
  by unfold_locales (auto simp: called_def emit_def)

text \<open>A turn of the loop only adds calls and events.\<close>

lemma loop_turn_grows:
  assumes "loop_turn E n m w = Some (go, m', w')"
  shows "w_calls w \<le> w_calls w'" and "\<exists>es. w_out w' = w_out w @ es"
  using calls.loop_turn_kept [OF assms, of "w_calls w"] history.loop_turn_kept [OF assms, of "w_out w"] by simp_all

end
