(* ===== verification/Ng_Engine.thy ===== *)
theory Ng_Engine
  imports Ng_Session_Inv Ng_Ip_Props Ng_World
begin

text \<open>
  The properties of the event loop of session.c, for all runs: the states a run goes through are
  those a sequence of turns and restarts reaches from an engine without sessions.
\<close>

section \<open>Runs\<close>

inductive engine_init :: "loop_state \<Rightarrow> bool" where
  "m_sessions m = [] \<Longrightarrow> engine_init m"

inductive engine_step :: "loop_state \<Rightarrow> loop_state \<Rightarrow> bool" where
  turn: "poll_ok E \<Longrightarrow> loop_turn E maxsessions m w = Some (go, m', w') \<Longrightarrow> engine_step m m'"
| restart: "check_allowed E (m_sessions m) w = (ss, w') \<Longrightarrow>
    engine_step m (m\<lparr>m_sessions := ss, m_last_check := 0\<rparr>)"

context session_law
begin

lemma engine_step_keeps: "engine_step m m' \<Longrightarrow> list_all P (m_sessions m) \<Longrightarrow> list_all P (m_sessions m')"
proof (induction rule: engine_step.induct)
  case (turn E maxsessions m w go m' w')
  then show ?case using loop_turn_keeps [OF turn(1,3), THEN yieldsD, OF turn(2)] by simp
next
  case (restart E m w ss w')
  then show ?case using check_allowed_keeps [of "m_sessions m" E w] by simp
qed

end

interpretation engine: session_machine engine_init engine_step "\<lambda>m. all_ok (m_sessions m)" "\<lambda>m. 0 :: nat"
  by unfold_locales (auto simp: engine_init.simps intro: ok.engine_step_keeps)

interpretation engine_runs: session_machine engine_init engine_step "\<lambda>m. list_all session_runs (m_sessions m)" "\<lambda>m. 0 :: nat"
  by unfold_locales (auto simp: engine_init.simps intro: runs.engine_step_keeps)

section \<open>Properties\<close>

text \<open>C1: whatever packets, events, errors and permissions a run sees, each session in the list has an
  open socket exactly as long as its protocol state needs one: an ICMP session always, a UDP session
  while it is active or finishing, a TCP session until its connection to the server is closed; and
  the list that \<open>handle_events\<close> leaves is as good.\<close>

theorem engine_invariant:
  assumes "reach engine_init engine_step m" and "s \<in> set (m_sessions m)"
    and "poll_ok E" and "handle_events E rlim_cur (m_sessions m) (m_cache m) w = Some (m', w')"
  shows "(case s_proto s of
       Icmp c \<Rightarrow> 0 \<le> s_socket s
     | Udp u \<Rightarrow> if u_state u \<in> {UDP_ACTIVE, UDP_FINISHING} then 0 \<le> s_socket s else s_socket s = -1
     | Tcp t \<Rightarrow> (t_state t \<in> {TCP_LISTEN, TCP_SYN_RECV, TCP_ESTABLISHED, TCP_CLOSE_WAIT} \<longrightarrow> 0 \<le> s_socket s) \<and>
         (t_state t \<in> {TCP_FIN_WAIT1, TCP_LAST_ACK, TCP_CLOSE} \<longrightarrow> s_socket s = -1)) \<and>
    all_ok (m_sessions m')"
proof -
  have ok: "all_ok (m_sessions m)" by (rule engine.reach_inv [OF assms(1)])
  then have "session_ok s" using assms(2) by (simp add: list_all_iff)
  then show ?thesis using ok.handle_events_keeps [OF assms(4,3) ok]
    by (auto simp: session_ok_def udp_inv_def tcp_inv_def split: proto_session.splits)
qed

text \<open>What a step of the engine does to the list: sessions end, the others go on, new ones start.\<close>

lemma engine_step_sessions: "engine_step m m' \<Longrightarrow> \<exists>ss1. thins (m_sessions m) ss1 \<and> grows ss1 (m_sessions m')"
proof (induction rule: engine_step.induct)
  case (turn E maxsessions m w go m' w')
  then show ?case by (auto elim: loop_turn_sessions)
next
  case (restart E m w ss w')
  then show ?case using check_allowed_thins [of "m_sessions m" E w] by auto
qed


text \<open>\<open>handle_events\<close> frees a session only when it holds no socket any more, for all three
  protocols.\<close>

theorem deleted_sessions_closed:
  assumes "reach engine_init engine_step m" and "s \<in> set (m_sessions m)"
    and "check_session E n maxn now s w = (True, st, s', w')"
  shows "s_socket s' = -1"
proof -
  have "session_ok s" using engine.reach_inv [OF assms(1)] assms(2) by (simp add: list_all_iff)
  then show ?thesis using check_session_ok(2) [OF assms(3)] by simp
qed

section \<open>Idle sessions end\<close>

definition session_time :: "ng_session \<Rightarrow> int" where
  "session_time s = (case s_proto s of Icmp c \<Rightarrow> i_time c | Udp u \<Rightarrow> u_time u | Tcp t \<Rightarrow> t_time t)"

definition session_timeout :: "ng_session \<Rightarrow> int \<Rightarrow> int \<Rightarrow> int" where
  "session_timeout s n m =
     (case s_proto s of Icmp c \<Rightarrow> get_icmp_timeout c n m | Udp u \<Rightarrow> get_udp_timeout u n m | Tcp t \<Rightarrow> get_tcp_timeout t n m)"

lemma udp_idle_closes:
  assumes "udp_inv (s_socket s) u" and "check_udp_session E s u n m w = (del, s', u', w')"
    and "u_time u + get_udp_timeout u n m < e_time E (w_calls w)"
  shows "u_state u' = UDP_CLOSED \<or> u_state u' = UDP_BLOCKED"
  using assms
  by (cases "u_state u") (auto simp: check_udp_session_def sys_time_def split_beta Let_def split: if_split_asm)

lemma udp_closed_deleted:
  assumes "u_state u = UDP_CLOSED \<or> u_state u = UDP_BLOCKED" and "check_udp_session E s u n m w = (del, s', u', w')"
    and "u_time u + 60 < e_time E (w_calls w)"
  shows "del"
  using assms by (auto simp: check_udp_session_def sys_time_def split_beta Let_def split: if_split_asm)

lemma tcp_idle_closes:
  assumes "check_tcp_session E s t n m w = (del, s', t', w')"
    and "t_time t + get_tcp_timeout t n m < e_time E (w_calls w)"
  shows "t_state t' = TCP_CLOSE"
  using assms
  by (auto simp: check_tcp_session_def tcp_expire_def tcp_close_socket_def tcp_account_def sys_time_def split_beta
      Let_def split: if_split_asm dest!: write_rst_result)

lemma tcp_closed_deleted:
  assumes "t_state t = TCP_CLOSE" and "check_tcp_session E s t n m w = (del, s', t', w')"
    and "t_time t + 300 < e_time E (w_calls w)"
  shows "del"
  using assms
  by (auto simp: check_tcp_session_def tcp_expire_def tcp_close_socket_def tcp_account_def sys_time_def split_beta
      Let_def split: if_split_asm)

lemma w_out_tcp_expire: "tcp_expire E t timeout now w = (t', w') \<Longrightarrow> \<exists>es. w_out w' = w_out w @ es"
  using history.tcp_expire_kept [of E t timeout now w t' w' "w_out w"] by simp

text \<open>A check that changes the socket of a session has closed it.\<close>

lemma check_session_closes:
  assumes "check_session E n m now s w = (del, st, s', w')" and "s_socket s' \<noteq> s_socket s"
  shows "\<exists>es. w_out w' = w_out w @ es \<and> Close (s_socket s) \<in> set es"
proof (cases "s_proto s")
  case (Icmp c)
  then show ?thesis using assms
    by (auto simp: check_session_def check_icmp_session_def sys_close_def sys_time_def split_beta Let_def split: if_split_asm)
next
  case (Udp u)
  then show ?thesis using assms
    by (auto simp: check_session_def check_udp_session_def sys_close_def sys_time_def split_beta Let_def split: if_split_asm)
next
  case (Tcp t)
  obtain t1 w1 where x: "tcp_expire E t (get_tcp_timeout t n m) (e_time E (w_calls w)) (called w) = (t1, w1)"
    by (metis prod.exhaust)
  obtain es where "w_out w1 = w_out w @ es" using w_out_tcp_expire [OF x] by auto
  then show ?thesis using assms Tcp x
    by (auto simp: check_session_def check_tcp_session_def tcp_close_socket_def tcp_account_def sys_close_def sys_time_def
        split_beta Let_def split: if_split_asm)
qed

lemma idle_session_closed:
  assumes "session_ok s" and "session_time s + session_timeout s n m < e_time E (w_calls w)"
    and "check_session E n m now s w = (del, st, s', w')"
  shows "s_socket s' = -1 \<and> (case s_proto s' of Icmp c \<Rightarrow> del | Udp u \<Rightarrow> u_state u \<in> {UDP_CLOSED, UDP_BLOCKED} | Tcp t \<Rightarrow> t_state t = TCP_CLOSE)"
proof (cases "s_proto s")
  case (Icmp c)
  then show ?thesis using assms(2,3)
    by (auto simp: session_time_def session_timeout_def check_session_def check_icmp_session_def sys_time_def split_beta Let_def)
next
  case (Udp u)
  obtain d s1 u1 x1 where d: "check_udp_session E s u n m w = (d, s1, u1, x1)" by (metis prod.exhaust)
  have s': "s' = s1\<lparr>s_proto := Udp u1\<rparr>" using assms(3) Udp d by (simp add: check_session_def)
  have i: "udp_inv (s_socket s) u" using assms(1) Udp by (simp add: session_ok_def)
  then have "u_state u1 = UDP_CLOSED \<or> u_state u1 = UDP_BLOCKED"
    using udp_idle_closes [OF _ d] assms(2) Udp by (simp add: session_time_def session_timeout_def)
  then show ?thesis using check_udp_session_good(1) [OF i d] s' by (auto simp: udp_good_def udp_inv_def)
next
  case (Tcp t)
  obtain d s1 t1 x1 where d: "check_tcp_session E s t n m w = (d, s1, t1, x1)" by (metis prod.exhaust)
  have s': "s' = s1\<lparr>s_proto := Tcp t1\<rparr>" using assms(3) Tcp d by (simp add: check_session_def)
  have i: "tcp_inv (s_socket s) t" using assms(1) Tcp by (simp add: session_ok_def)
  have "t_state t1 = TCP_CLOSE"
    using tcp_idle_closes [OF d] assms(2) Tcp by (simp add: session_time_def session_timeout_def)
  then show ?thesis using check_session_good(1) [OF i d] s' by (auto simp: tcp_good_def tcp_inv_def)
qed

lemma closed_session_deleted:
  assumes "session_ok s" and "session_time s + session_timeout s n m < e_time E (w_calls w)"
    and "check_session E n m now s w = (del, st, s', w')"
    and "session_time s' + 300 < e_time E' (w_calls w1)"
    and "check_session E' n' m' now' s' w1 = (del', st', s'', w2)"
  shows "del \<or> del'"
proof (cases "s_proto s'")
  case (Icmp c)
  then show ?thesis using idle_session_closed [OF assms(1-3)] by simp
next
  case (Udp u)
  then have "u_state u = UDP_CLOSED \<or> u_state u = UDP_BLOCKED" using idle_session_closed [OF assms(1-3)] by simp
  moreover obtain d2 s2 u2 x2 where d2: "check_udp_session E' s' u n' m' w1 = (d2, s2, u2, x2)" by (metis prod.exhaust)
  ultimately show ?thesis using udp_closed_deleted [OF _ d2] assms(4,5) Udp by (auto simp: session_time_def check_session_def)
next
  case (Tcp t)
  then have "t_state t = TCP_CLOSE" using idle_session_closed [OF assms(1-3)] by simp
  moreover obtain d2 s2 t2 x2 where d2: "check_tcp_session E' s' t n' m' w1 = (d2, s2, t2, x2)" by (metis prod.exhaust)
  ultimately show ?thesis using tcp_closed_deleted [OF _ d2] assms(4,5) Tcp by (auto simp: session_time_def check_session_def)
qed

text \<open>C20: an idle session does not stay. The first check after its timeout ends it: its socket, if it still
  had one, is closed by this check, an ICMP session is deleted, and a UDP or TCP session is not active
  any more. Any check more than five minutes after the time this check leaves in the session (when it
  closed it, or when it was closed before) deletes it, if the first one has not. The state the session
  was in and the number of sessions do not matter.\<close>

theorem idle_session_deleted:
  assumes "reach engine_init engine_step l" and "s \<in> set (m_sessions l)"
    and "session_time s + session_timeout s n m < e_time E (w_calls w)"
    and "check_session E n m now s w = (del, st, s', w')"
  shows "s_socket s' = -1 \<and> (case s_proto s' of Icmp c \<Rightarrow> del | Udp u \<Rightarrow> u_state u \<in> {UDP_CLOSED, UDP_BLOCKED} | Tcp t \<Rightarrow> t_state t = TCP_CLOSE) \<and>
    (0 \<le> s_socket s \<longrightarrow> (\<exists>es. w_out w' = w_out w @ es \<and> Close (s_socket s) \<in> set es)) \<and>
    (\<forall>E' n' m' now' w1 del' st' s'' w2. session_time s' + 300 < e_time E' (w_calls w1) \<longrightarrow>
      check_session E' n' m' now' s' w1 = (del', st', s'', w2) \<longrightarrow> del \<or> del')"
proof -
  have ok: "session_ok s" using engine.reach_inv [OF assms(1)] assms(2) by (simp add: list_all_iff)
  note c = idle_session_closed [OF ok assms(3,4)]
  then have "0 \<le> s_socket s \<longrightarrow> s_socket s' \<noteq> s_socket s" by auto
  with c show ?thesis using check_session_closes [OF assms(4)] closed_session_deleted [OF ok assms(3,4)] by blast
qed

section \<open>Permissions\<close>

text \<open>The question \<open>check_allowed\<close> asks about a session.\<close>

definition session_question :: "ng_session \<Rightarrow> pkt_info" where
  "session_question s =
     (let q = \<lambda>version protocol saddr sport daddr dport uid.
        \<lparr>p_version = version, p_protocol = protocol, p_flags = [], p_saddr = saddr, p_sport = sport,
         p_daddr = daddr, p_dport = dport, p_data = NoText, p_uid = uid, p_host = [], p_tls = False\<rparr>
      in (case s_proto s of
            Icmp c \<Rightarrow> q (i_version c) IPPROTO_ICMP (i_saddr c) 0 (i_daddr c) 0 (i_uid c)
          | Udp u \<Rightarrow> q (u_version u) IPPROTO_UDP (u_saddr u) (u_source u) (u_daddr u) (u_dest u) (u_uid u)
          | Tcp t \<Rightarrow> q (t_version t) IPPROTO_TCP (t_saddr t) (t_source t) (t_daddr t) (t_dest t) (t_uid t)))"

definition allowed_after :: "(pkt_info \<Rightarrow> 'a option) \<Rightarrow> ng_session \<Rightarrow> ng_session \<Rightarrow> bool" where
  "allowed_after f s s' \<longleftrightarrow>
     (if is_active s \<and> f (session_question s) = None
      then \<not> is_active s' \<and> \<not> is_blocked s' \<and> s_ptr s' = s_ptr s \<and> s_socket s' = s_socket s
      else s' = s)"

lemma ask_allowed_answer:
  assumes "\<forall>k p. e_allowed E k p = f p"
  shows "ask_allowed E version protocol saddr sport daddr dport uid w =
    (f \<lparr>p_version = version, p_protocol = protocol, p_flags = [], p_saddr = saddr, p_sport = sport,
       p_daddr = daddr, p_dport = dport, p_data = NoText, p_uid = uid, p_host = [], p_tls = False\<rparr> \<noteq> None, called w)"
  using assms by (auto simp: ask_allowed_def is_address_allowed_def ask_def split: option.splits prod.splits)

lemma check_allowed_one_spec:
  assumes "\<forall>k p. e_allowed E k p = f p" and "check_allowed_one E s w = (r, w')"
  shows "if is_blocked s then r = None else \<exists>s'. r = Some s' \<and> allowed_after f s s'"
proof (cases "s_proto s")
  case (Icmp c)
  then show ?thesis using assms(2)
    by (auto simp: check_allowed_one_def ask_allowed_answer [OF assms(1)] is_active_def is_blocked_def allowed_after_def
        session_question_def split: if_split_asm)
next
  case (Udp u)
  then show ?thesis using assms(2)
    by (cases "u_state u") (auto simp: check_allowed_one_def ask_allowed_answer [OF assms(1)] is_active_def is_blocked_def
        allowed_after_def session_question_def split: if_split_asm)
next
  case (Tcp t)
  then show ?thesis using assms(2)
    by (auto simp: check_allowed_one_def ask_allowed_answer [OF assms(1)] is_active_def is_blocked_def
        allowed_after_def session_question_def fst_write_rst split_beta split: if_split_asm)
qed

lemma check_allowed_one_out:
  assumes "\<forall>k p. e_allowed E k p = f p" and "check_allowed_one E s w = (r, w')"
    and "is_active s \<longrightarrow> f (session_question s) \<noteq> None"
  shows "w_out w' = w_out w"
  using assms(2,3)
  by (cases "s_proto s")
    (auto simp: check_allowed_one_def ask_allowed_answer [OF assms(1)] is_active_def session_question_def split: if_split_asm)

text \<open>C12: when the rules change, each session is judged by its own question: an active session Java does
  not allow any more becomes inactive in its place, with its socket left for the periodic check; the
  blocked sessions are forgotten, so that the next datagram is judged again; every other session is
  kept as it is; and when no session loses its permission nothing is sent.\<close>

theorem check_allowed_spec:
  assumes "\<forall>k p. e_allowed E k p = f p"
  shows "list_all2 (allowed_after f) (filter (\<lambda>s. \<not> is_blocked s) ss) (fst (check_allowed E ss w)) \<and>
    ((\<forall>s\<in>set ss. is_active s \<longrightarrow> f (session_question s) \<noteq> None) \<longrightarrow> w_out (snd (check_allowed E ss w)) = w_out w)"
proof (induction ss arbitrary: w)
  case (Cons s ss)
  obtain r w1 where r: "check_allowed_one E s w = (r, w1)" by (metis prod.exhaust)
  show ?case
    using Cons.IH [of w1] check_allowed_one_spec [OF assms r] check_allowed_one_out [OF assms r] r
    by (cases "is_blocked s") (auto simp: split_beta Let_def)
qed simp

section \<open>Waiting\<close>

text \<open>The seconds until a session is due, counted from \<open>now\<close>, as \<open>handle_events\<close> counts them.\<close>

definition session_due :: "int \<Rightarrow> int \<Rightarrow> int \<Rightarrow> ng_session \<Rightarrow> int" where
  "session_due n m now s = session_time s + session_timeout s n m - now + 1"

lemma check_session_due:
  assumes "check_session E n m now s w = (False, st, s', w')"
  shows "st = (if is_active s' then Some (session_due n m now s') else None)"
proof (cases "s_proto s")
  case (Icmp c)
  then show ?thesis using assms
    by (auto simp: check_session_def check_icmp_session_def is_active_def session_due_def session_time_def
        session_timeout_def split_beta Let_def split: if_split_asm)
next
  case (Udp u)
  obtain d s1 u1 x1 where "check_udp_session E s u n m w = (d, s1, u1, x1)" by (metis prod.exhaust)
  then show ?thesis using assms Udp
    by (auto simp: check_session_def is_active_def session_due_def session_time_def session_timeout_def)
next
  case (Tcp t)
  obtain d s1 t1 x1 where "check_tcp_session E s t n m w = (d, s1, t1, x1)" by (metis prod.exhaust)
  then show ?thesis using assms Tcp
    by (auto simp: check_session_def is_active_def session_due_def session_time_def session_timeout_def)
qed

text \<open>A session that is active after its check was not overdue by the clock of that check.\<close>

lemma check_session_fresh:
  assumes "check_session E n m now s w = (False, st, s', w')" and "is_active s'"
  shows "e_time E (w_calls w) \<le> session_time s' + session_timeout s' n m"
proof (cases "s_proto s")
  case (Icmp c)
  then show ?thesis using assms
    by (auto simp: check_session_def check_icmp_session_def session_time_def session_timeout_def sys_time_def
        split_beta Let_def split: if_split_asm)
next
  case (Udp u)
  then show ?thesis using assms
    by (auto simp: check_session_def check_udp_session_def is_active_def session_time_def session_timeout_def
        sys_time_def get_udp_timeout_def split_beta Let_def split: if_split_asm)
next
  case (Tcp t)
  obtain t1 w1 where x: "tcp_expire E t (get_tcp_timeout t n m) (e_time E (w_calls w)) (called w) = (t1, w1)"
    by (metis prod.exhaust)
  have "t_state t1 \<in> {TCP_CLOSING, TCP_CLOSE} \<or> t1 = t \<and> \<not> t_time t + get_tcp_timeout t n m < e_time E (w_calls w)"
    using x by (auto simp: tcp_expire_def dest!: write_rst_result split: if_split_asm)
  then show ?thesis using assms Tcp x
    by (auto simp: check_session_def check_tcp_session_def tcp_close_socket_def tcp_account_def is_active_def
        session_time_def session_timeout_def sys_time_def split_beta Let_def split: if_split_asm)
qed

lemma check_session_deleted: "check_session E n m now s w = (True, st, s', w') \<Longrightarrow> st = None"
  by (auto simp: check_session_def split_beta Let_def split: proto_session.splits)

text \<open>The time-out \<open>check_sessions\<close> finds is the smallest of the ones that lie ahead.\<close>

definition next_due :: "(ng_session \<Rightarrow> int) \<Rightarrow> int \<Rightarrow> ng_session list \<Rightarrow> int \<Rightarrow> bool" where
  "next_due due limit ss timeout \<longleftrightarrow>
     0 < timeout \<and> timeout \<le> limit \<and>
     (\<forall>s\<in>set ss. is_active s \<longrightarrow> 0 < due s \<longrightarrow> timeout \<le> due s) \<and>
     (timeout = limit \<or> (\<exists>s\<in>set ss. is_active s \<and> timeout = due s))"

lemma check_sessions_due:
  "check_sessions E n m now timeout ss w = (timeout', ss', w') \<Longrightarrow> 0 < timeout \<Longrightarrow>
   next_due (session_due n m now) timeout ss' timeout'"
proof (induction ss arbitrary: timeout w timeout' ss' w')
  case (Cons s ss)
  obtain del st s1 w1 where c: "check_session E n m now s w = (del, st, s1, w1)" by (metis prod.exhaust)
  let ?t = "case st of None \<Rightarrow> timeout | Some st \<Rightarrow> if st > 0 \<and> st < timeout then st else timeout"
  obtain t2 ss2 w2 where r: "check_sessions E n m now ?t ss w1 = (t2, ss2, w2)" by (metis prod.exhaust)
  have t: "0 < ?t" using Cons.prems(2) by (auto split: option.splits)
  have e: "t2 = timeout'" "ss' = (if del then ss2 else s1 # ss2)"
    using Cons.prems(1) c r by (auto simp: Let_def split: option.splits)
  have ih: "next_due (session_due n m now) ?t ss2 timeout'" using Cons.IH [OF r t] e by simp
  show ?case
  proof (cases del)
    case True
    then have "st = None" using check_session_deleted [of E n m now s w st s1 w1] c by simp
    then show ?thesis using ih e True by simp
  next
    case False
    then have "st = (if is_active s1 then Some (session_due n m now s1) else None)"
      using check_session_due [of E n m now s w st s1 w1] c by simp
    then show ?thesis using ih e False Cons.prems(2) by (auto simp: next_due_def split: if_split_asm)
  qed
qed (simp add: next_due_def)

lemma check_sessions_fresh:
  "check_sessions E n m now timeout ss w = (timeout', ss', w') \<Longrightarrow> s \<in> set ss' \<Longrightarrow> is_active s \<Longrightarrow>
   \<exists>k. w_calls w \<le> k \<and> e_time E k \<le> session_time s + session_timeout s n m"
proof (induction ss arbitrary: timeout w timeout' ss' w')
  case (Cons x ss)
  obtain del st x1 w1 where c: "check_session E n m now x w = (del, st, x1, w1)" by (metis prod.exhaust)
  let ?t = "case st of None \<Rightarrow> timeout | Some st \<Rightarrow> if st > 0 \<and> st < timeout then st else timeout"
  obtain t2 ss2 w2 where r: "check_sessions E n m now ?t ss w1 = (t2, ss2, w2)" by (metis prod.exhaust)
  have "s = x1 \<and> \<not> del \<or> s \<in> set ss2"
    using Cons.prems(1,2) c r by (auto simp: Let_def split: option.splits if_split_asm)
  moreover have "w_calls w \<le> w_calls w1" using calls.check_session_kept [OF c, of "w_calls w"] by simp
  ultimately show ?case
    using Cons.IH [OF r _ Cons.prems(3)] check_session_fresh [of E n m now x w st x1 w1] c Cons.prems(3)
    by (auto intro: order_trans)
qed simp

lemma count_sessions_active: "fst (count_sessions E ss w) = int (length (filter is_active ss))"
  by (induction ss arbitrary: w) (auto simp: split_beta Let_def split: proto_session.splits)

lemma loop_check_due:
  assumes "loop_check E maxsessions m w = (n, timeout, recheck, m', w')"
    and "count_sessions E (m_sessions m) w = (n0, soon, ss0, w0)"
  shows "n = n0 \<and> recheck = (soon \<or> e_ms E (w_calls w0) - m_last_check m \<le> 100) \<and>
    (\<not> recheck \<longrightarrow> next_due (session_due n maxsessions (e_time E (Suc (w_calls w0)))) 3600 (m_sessions m') timeout \<and>
      (\<forall>s\<in>set (m_sessions m'). is_active s \<longrightarrow>
        (\<exists>k. Suc (w_calls w0) \<le> k \<and> e_time E k \<le> session_time s + session_timeout s n maxsessions)))"
proof (cases "e_ms E (w_calls w0) - m_last_check m > 100")
  case True
  let ?now = "e_time E (Suc (w_calls w0))"
  obtain t2 ss2 w2 where k: "check_sessions E n0 maxsessions ?now 3600 ss0 (called (called w0)) = (t2, ss2, w2)"
    by (metis prod.exhaust)
  have "n = n0" "timeout = t2" "m_sessions m' = ss2" "recheck = soon"
    using assms k True
    by (auto simp: loop_check_def sys_ms_def sys_time_def called_def EPOLL_MIN_CHECK_def EPOLL_TIMEOUT_def)
  moreover have "\<exists>k. Suc (w_calls w0) \<le> k \<and> e_time E k \<le> session_time s + session_timeout s n0 maxsessions"
    if "s \<in> set ss2" "is_active s" for s
    using check_sessions_fresh [OF k that] by (auto simp: called_def intro: Suc_leD)
  ultimately show ?thesis using check_sessions_due [OF k] True by simp
next
  case False
  then show ?thesis using assms by (auto simp: loop_check_def sys_ms_def EPOLL_MIN_CHECK_def)
qed

text \<open>C29: how long \<open>epoll_wait\<close> waits. 100 ms, when a session wants a check soon or the last check was at most
  100 ms ago; otherwise, counted from the clock this turn has just read (the call after the one for the
  milliseconds), until the second after the first idle timeout of an active session that lies ahead,
  the second in which the check will find it overdue, and never longer than an hour; the number of
  active sessions the timeouts are scaled with is the one counted at the start of the turn. When the
  clock does not go back during the check, no active session is left that is overdue already.\<close>

theorem loop_waits_for_sessions:
  assumes "loop_check E maxsessions m w = (n, timeout, recheck, m', w')"
    and "count_sessions E (m_sessions m) w = (n0, soon, ss0, w0)"
    and "now = e_time E (Suc (w_calls w0))" and "active = filter is_active (m_sessions m')"
    and "due = (\<lambda>s. session_time s + session_timeout s n maxsessions + 1 - now)"
    and "wait = poll_wait timeout recheck"
  shows "n = int (length (filter is_active (m_sessions m))) \<and>
    recheck = (soon \<or> e_ms E (w_calls w0) - m_last_check m \<le> 100) \<and>
    (if recheck then wait = 100
     else 1000 \<le> wait \<and> wait \<le> 3600000 \<and>
       (\<forall>s\<in>set active. 0 < due s \<longrightarrow> wait \<le> 1000 * due s) \<and>
       (wait = 3600000 \<or> (\<exists>s\<in>set active. wait = 1000 * due s)) \<and>
       ((\<forall>k>w_calls w0. now \<le> e_time E k) \<longrightarrow> (\<forall>s\<in>set active. 0 < due s)))"
proof -
  have d: "session_due n maxsessions now = due"
    unfolding assms(5) session_due_def [abs_def] by (intro ext) simp
  note c = loop_check_due [OF assms(1,2), folded assms(3), unfolded d]
  have "n = int (length (filter is_active (m_sessions m)))"
    using c count_sessions_active [of E "m_sessions m" w] assms(2) by simp
  moreover have "0 < due s"
    if a: "s \<in> set active" "\<not> recheck" and clock: "\<forall>k>w_calls w0. now \<le> e_time E k" for s
  proof -
    obtain k where k: "Suc (w_calls w0) \<le> k" "e_time E k \<le> session_time s + session_timeout s n maxsessions"
      using c a assms(4) by auto
    then have "now \<le> e_time E k" using clock by simp
    then show ?thesis using k(2) unfolding assms(5) by simp
  qed
  ultimately show ?thesis
    using c by (auto simp: next_due_def poll_wait_def EPOLL_MIN_CHECK_def assms(4,6))
qed

section \<open>The end\<close>

lemma clear_loop_out: "w_out (clear_loop ss w) = w_out w @ map Close (filter (\<lambda>k. 0 \<le> k) (map s_socket ss))"
  by (induction ss arbitrary: w) (auto simp: sys_close_def)

text \<open>\<open>clear\<close> empties the list and closes the open sockets, each of them once, and nothing else.\<close>

theorem clear_closes:
  "fst (clear ss w) = [] \<and>
   w_out (snd (clear ss w)) = w_out w @ map Close (filter (\<lambda>k. 0 \<le> k) (map s_socket ss))"
  by (simp add: clear_def clear_loop_out)

section \<open>Instances\<close>

text \<open>A turn in which the tun device has an echo request: it makes an ICMP session.\<close>

definition example_turn_env :: env where
  "example_turn_env = example_env\<lparr>e_poll := \<lambda>k. PollReady [(OnTun, 1)], e_readable := \<lambda>k s. s = 5,
     e_tun_read := \<lambda>k. RecvData example_echo\<rparr>"

definition example_engine :: loop_state where
  "example_engine = \<lparr>m_sessions = [], m_cache = [], m_last_check = 0\<rparr>"

lemma example_echo_ip:
  "ip_header E (example_echo @ rest) 30 = Some (Some (4, IPPROTO_ICMP, [10, 1, 10, 1], [1, 2, 3, 4], 20))" if "\<not> verbose_log E"
  using that by (simp add: ip_header_def example_echo_def rd_def rd16_def pkt_addrs_def slice_def be16_def le16_def)

lemma example_echo_handled:
  "\<exists>w' s c. handle_ip example_turn_env (example_echo @ rest) 30 0 409 [] [] w = Some ([s], [], w') \<and>
     w_calls w' = w_calls w + 9 \<and> s_proto s = Icmp c \<and> s_socket s = 7 \<and> \<not> i_stop c \<and>
     i_time c \<le> 1010 + int (w_calls w)"
proof -
  have v: "\<not> verbose_log example_turn_env" by (simp add: example_turn_env_def example_env_def)
  have p: "ip_ports (example_echo @ rest) 30 IPPROTO_ICMP 20 = Some (Some (5, 5, False, [], IcmpText 8 0))"
    by (simp add: ip_ports_def is_icmp_def too_short_def example_echo_def rd_def rd16_def be16_def)
  have a: "ip_allowed example_turn_env (example_echo @ rest) 30 (4, IPPROTO_ICMP, [10, 1, 10, 1], [1, 2, 3, 4], 20)
      5 5 False [] (IcmpText 8 0) None uid [] w = Some (True, None, called w)" for uid w
    by (simp add: ip_allowed_def ip_hostname_def is_address_allowed_def ask_def example_turn_env_def example_env_def)
  have h: "\<exists>w' s c. handle_icmp example_turn_env (example_echo @ rest) 30 20 uid [] w = Some (True, [s], w') \<and>
      w_calls w' = w_calls w + 7 \<and> s_proto s = Icmp c \<and> s_socket s = 7 \<and> \<not> i_stop c \<and>
      i_time c = 1005 + int (w_calls w)" for uid w
    by (simp add: handle_icmp_def icmp_register_def open_icmp_socket_def icmp_forward_def icmp_request_csum_def
        ask_def sys_time_def sys_epoll_def sys_sendto_def called_def emit_def icmp_match_def ICMP_ECHO_def
        example_turn_env_def example_env_def example_echo_def rd_def rd16_def pkt_addrs_def slice_def be16_def)
  obtain w' s c where "handle_icmp example_turn_env (example_echo @ rest) 30 20 10 [] (called (called w)) = Some (True, [s], w')"
    "w_calls w' = w_calls (called (called w)) + 7" "s_proto s = Icmp c" "s_socket s = 7" "\<not> i_stop c"
    "i_time c = 1005 + int (w_calls (called (called w)))"
    using h by blast
  moreover have "sdk example_turn_env = 33" "e_uid_q example_turn_env = (\<lambda>k v p sa sp da dp. 10)"
    by (simp_all add: example_turn_env_def example_env_def)
  ultimately show ?thesis
    using example_echo_ip [OF v, of rest] p a
    by (simp add: handle_ip_def ip_starts_def is_icmp_def ip_sni_def ip_uid_def ip_dispatch_def ask_def called_def)
qed

lemma example_tun:
  "\<exists>w' s c. check_tun example_turn_env 1 0 409 [] [] w = Some (True, [s], [], w') \<and>
     w_calls w' = w_calls w + 11 \<and> s_proto s = Icmp c \<and> s_socket s = 7 \<and> \<not> i_stop c \<and>
     i_time c \<le> 1012 + int (w_calls w)"
proof -
  have l: "length example_echo = 30" "example_echo \<noteq> []" by (simp_all add: example_echo_def)
  have t: "take 10000 (example_echo @ heap @ replicate 10000 0) = example_echo @ take 9970 (heap @ replicate 10000 0)"
    for heap :: bytes using l(1) by simp
  have m: "unat get_mtu = 10000" by (simp add: get_mtu_def)
  let ?w = "called (called w)"
  obtain w' s c where h: "handle_ip example_turn_env (example_echo @ take 9970 ([] @ replicate 10000 0)) 30 0 409 [] [] ?w =
      Some ([s], [], w')" "w_calls w' = w_calls ?w + 9" "s_proto s = Icmp c" "s_socket s = 7" "\<not> i_stop c"
    "i_time c \<le> 1010 + int (w_calls ?w)"
    using example_echo_handled by blast
  have "e_heap example_turn_env = (\<lambda>k. [])" "e_tun_read example_turn_env = (\<lambda>k. RecvData example_echo)"
    "\<not> pcap_open example_turn_env"
    by (simp_all add: example_turn_env_def example_env_def)
  then have "check_tun example_turn_env 1 0 409 [] [] w = Some (True, [s], [], w')"
    using h(1) l m by (simp add: check_tun_def ask_def Let_def)
  then show ?thesis using h by (auto simp: called_def)
qed

lemma example_turn:
  "\<exists>m' w' s c. loop_turn example_turn_env 409 example_engine example_world = Some (True, m', w') \<and>
     m_sessions m' = [s] \<and> s_proto s = Icmp c \<and> s_socket s = 7 \<and> \<not> i_stop c \<and> i_time c \<le> 1020"
proof -
  let ?w = "emit (EpollWait 3600000) (called (called example_world))"
  let ?m = "example_engine\<lparr>m_last_check := 1000000\<rparr>"
  have c: "loop_check example_turn_env 409 example_engine example_world =
      (0, 3600, False, ?m, called (called example_world))"
    by (simp add: loop_check_def example_engine_def sys_ms_def sys_time_def EPOLL_MIN_CHECK_def EPOLL_TIMEOUT_def
        example_turn_env_def example_env_def example_world_def)
  obtain w' s c where t: "check_tun example_turn_env 1 0 409 [] [] (called (called (called ?w))) = Some (True, [s], [], w')"
    "w_calls w' = w_calls (called (called (called ?w))) + 11" "s_proto s = Icmp c" "s_socket s = 7" "\<not> i_stop c"
    "i_time c \<le> 1012 + int (w_calls (called (called (called ?w))))"
    using example_tun by blast
  have k: "w_calls (called (called (called ?w))) = 5" by (simp add: called_def emit_def example_world_def)
  have e: "e_poll example_turn_env = (\<lambda>k. PollReady [(OnTun, 1)])" "e_stopping example_turn_env = (\<lambda>k. 9 < k)"
    "e_readable example_turn_env = (\<lambda>k s. s = 5)" "tun_fd example_turn_env = 5"
    by (simp_all add: example_turn_env_def example_env_def)
  have "w_calls (called ?w) = 3" "w_calls (called (called ?w)) = 4"
    by (simp_all add: called_def emit_def example_world_def)
  then have "tun_loop 10 example_turn_env 1 0 409 [] [] (called ?w) = Some (False, [s], [], called w')"
    using t(1,2) k by (simp add: numeral_eq_Suc tun_loop.simps e ask_def)
  then show ?thesis
    using t k e c
    by (simp add: loop_turn_def ask_def poll_wait_def dispatch_event_def TUN_YIELD_def example_engine_def)
qed

lemma example_reach:
  "\<exists>m s c. reach engine_init engine_step m \<and> m_sessions m = [s] \<and> s_proto s = Icmp c \<and> s_socket s = 7 \<and>
     \<not> i_stop c \<and> i_time c \<le> 1020"
proof -
  have "poll_ok example_turn_env" by (simp add: poll_ok_def example_turn_env_def)
  moreover have "reach engine_init engine_step example_engine"
    by (rule reach_init) (simp add: engine_init.simps example_engine_def)
  ultimately show ?thesis using example_turn by (metis engine_step.turn reach_step)
qed

theorem engine_invariant_witness:
  "\<exists>m s c m' w'. reach engine_init engine_step m \<and> m_sessions m = [s] \<and> s_proto s = Icmp c \<and> 0 \<le> s_socket s \<and>
     handle_events (example_env\<lparr>e_stopping := \<lambda>k. True\<rparr>) None (m_sessions m) (m_cache m) example_world = Some (m', w') \<and>
     all_ok (m_sessions m')"
proof -
  let ?E = "example_env\<lparr>e_stopping := \<lambda>k. True\<rparr>"
  obtain m s c where m: "reach engine_init engine_step m" "m_sessions m = [s]" "s_proto s = Icmp c"
    using example_reach by blast
  have "poll_ok ?E" by (simp add: poll_ok_def example_env_def)
  moreover have "\<exists>m' w'. handle_events ?E None (m_sessions m) (m_cache m) example_world = Some (m', w')"
    by (simp add: handle_events_def split_beta Let_def) (simp add: events_loop.simps ask_def)
  ultimately show ?thesis
    using engine_invariant [OF m(1)] m by (simp split: proto_session.splits) metis
qed

text \<open>The clock of the checks that follow.\<close>

definition later :: "int \<Rightarrow> env" where
  "later t = example_env\<lparr>e_time := \<lambda>k. t\<rparr>"

lemma example_deleted:
  assumes "s_proto s = Icmp c" and "i_time c \<le> 1020"
  shows "check_session (later 5000) 0 409 5000 s w = (True, None, s\<lparr>s_socket := -1\<rparr>, sys_close (s_socket s) (called w))"
  using assms
  by (simp add: check_session_def check_icmp_session_def later_def sys_time_def get_icmp_timeout_def scale_timeout_def)

theorem deleted_sessions_closed_witness:
  "\<exists>m s s' w'. reach engine_init engine_step m \<and> m_sessions m = [s] \<and> s_socket s = 7 \<and>
     check_session (later 5000) 0 409 5000 s example_world = (True, None, s', w') \<and> s_socket s' = -1"
proof -
  obtain m s c where m: "reach engine_init engine_step m" "m_sessions m = [s]" "s_proto s = Icmp c" "s_socket s = 7"
    "i_time c \<le> 1020"
    using example_reach by blast
  then show ?thesis
    using deleted_sessions_closed [OF m(1) _ example_deleted [OF m(3,5), of example_world]]
      example_deleted [OF m(3,5), of example_world] by auto
qed

theorem idle_session_deleted_witness:
  "\<exists>m s st s' w1. reach engine_init engine_step m \<and> m_sessions m = [s] \<and> s_socket s = 7 \<and>
     check_session (later 5000) 0 409 5000 s example_world = (True, st, s', w1) \<and>
     s_socket s' = -1 \<and> Close 7 \<in> set (w_out w1)"
proof -
  obtain m s c where m: "reach engine_init engine_step m" "m_sessions m = [s]" "s_proto s = Icmp c" "s_socket s = 7"
    "i_time c \<le> 1020"
    using example_reach by blast
  note d = example_deleted [OF m(3,5), of example_world]
  have "session_time s + session_timeout s 0 409 < e_time (later 5000) (w_calls example_world)"
    using m(3,5) by (simp add: session_time_def session_timeout_def later_def get_icmp_timeout_def scale_timeout_def)
  from idle_session_deleted [OF m(1) _ this d] m(2,4)
  have "s_socket (s\<lparr>s_socket := -1\<rparr>) = -1" "Close 7 \<in> set (w_out (sys_close (s_socket s) (called example_world)))" by auto
  then show ?thesis using m(1,2,4) d by blast
qed


theorem check_allowed_spec_witness:
  "filter is_active (fst (check_allowed (example_env\<lparr>e_allowed := \<lambda>k p. None\<rparr>) [example_tcp_session] example_world)) = []"
proof -
  have "is_active example_tcp_session" "\<not> is_blocked example_tcp_session"
    by (simp_all add: is_active_def is_blocked_def example_tcp_session_def example_tcp_def)
  then show ?thesis
    using check_allowed_spec [of "example_env\<lparr>e_allowed := \<lambda>k p. None\<rparr>" "\<lambda>p. None" "[example_tcp_session]" example_world]
    by (auto simp: list_all2_Cons1 allowed_after_def)
qed

text \<open>With one active session whose timeout is five seconds, last used a second ago, the loop waits
  five seconds.\<close>

definition example_waiting :: loop_state where
  "example_waiting = \<lparr>m_sessions = [example_icmp_session\<lparr>s_proto := Icmp (example_icmp\<lparr>i_time := 1000\<rparr>)\<rparr>], m_cache = [],
     m_last_check = 0\<rparr>"

theorem loop_waits_for_sessions_witness:
  "\<exists>timeout m' w'. loop_check example_env 409 example_waiting example_world = (1, timeout, False, m', w') \<and>
     poll_wait timeout False = 5000"
proof -
  let ?s = "example_icmp_session\<lparr>s_proto := Icmp (example_icmp\<lparr>i_time := 1000\<rparr>)\<rparr>"
  have a: "is_active ?s" by (simp add: is_active_def example_icmp_def)
  have c: "count_sessions example_env (m_sessions example_waiting) example_world = (1, False, [?s], example_world)"
    using a by (simp add: example_waiting_def)
  have "\<exists>timeout m' w'. loop_check example_env 409 example_waiting example_world = (1, timeout, False, m', w') \<and>
      m_sessions m' = [?s]"
    using c by (simp add: loop_check_def sys_ms_def sys_time_def EPOLL_MIN_CHECK_def check_session_def
        check_icmp_session_def example_waiting_def example_env_def example_world_def called_def get_icmp_timeout_def
        scale_timeout_def example_icmp_def)
  then obtain timeout m' w' where l: "loop_check example_env 409 example_waiting example_world = (1, timeout, False, m', w')"
    "m_sessions m' = [?s]" by blast
  have t: "session_time ?s + session_timeout ?s 1 409 + 1 - e_time example_env (Suc (w_calls example_world)) = 5"
    by (simp add: session_time_def session_timeout_def get_icmp_timeout_def scale_timeout_def example_icmp_def
        example_env_def example_world_def)
  show ?thesis using loop_waits_for_sessions [OF l(1) c refl refl refl refl] l a t by auto
qed

end
