(* ===== verification/Ng_Tcp_Law.thy ===== *)
theory Ng_Tcp_Law
  imports Ng_Tcp_Machine
begin

text \<open>
  Properties of a TCP session that look only at its connection and at its queue of segments. The locale
  \<open>tcp_law\<close> carries such a property through all routines of tcp.c, up to a step of the session machine. It is
  interpreted on the data of the queue here (\<open>held\<close>: each block holds as many bytes as its segment says) and on
  the connection in \<open>Ng_Keys\<close>.
\<close>

named_theorems tcp_law \<open>routines that keep a law of a TCP session\<close>

locale tcp_law =
  fixes P :: "tcp_session \<Rightarrow> bool"
  assumes fields [simp]:
      "P (t\<lparr>t_time := a\<rparr>) = P t" "P (t\<lparr>t_recv_window := b\<rparr>) = P t" "P (t\<lparr>t_send_window := b\<rparr>) = P t"
      "P (t\<lparr>t_unconfirmed := c\<rparr>) = P t" "P (t\<lparr>t_remote_seq := b\<rparr>) = P t" "P (t\<lparr>t_local_seq := b\<rparr>) = P t"
      "P (t\<lparr>t_acked := b\<rparr>) = P t" "P (t\<lparr>t_last_keep_alive := a\<rparr>) = P t" "P (t\<lparr>t_sent := d\<rparr>) = P t"
      "P (t\<lparr>t_received := d\<rparr>) = P t" "P (t\<lparr>t_state := st\<rparr>) = P t" "P (t\<lparr>t_socks5 := so\<rparr>) = P t"
    and queued: "P t \<Longrightarrow> length data < 65536 \<Longrightarrow> P (t\<lparr>t_forward := queue_insert seq psh data (t_forward t)\<rparr>)"
    and taken: "P (t\<lparr>t_forward := g # gs\<rparr>) \<Longrightarrow> P (t\<lparr>t_forward := gs\<rparr>)"
    and partly: "P (t\<lparr>t_forward := g # gs\<rparr>) \<Longrightarrow> P (t\<lparr>t_forward := g\<lparr>g_sent := n\<rparr> # gs\<rparr>)"
begin

section \<open>Answers\<close>

lemma write_or_close_law [tcp_law]: "write_or_close E t d a b c w = (r, t', w') \<Longrightarrow> P t \<longrightarrow> P t'"
  by (auto dest!: write_or_close_result)

lemma write_law [tcp_law]:
  "write_syn_ack E t w = (r, t', w') \<Longrightarrow> P t \<longrightarrow> P t'" "write_ack E t w = (r, t', w') \<Longrightarrow> P t \<longrightarrow> P t'"
  "write_data E t b w = (r, t', w') \<Longrightarrow> P t \<longrightarrow> P t'" "write_fin_ack E t w = (r, t', w') \<Longrightarrow> P t \<longrightarrow> P t'"
  by (auto dest!: write_result)

lemma write_rst_law [tcp_law]: "write_rst E t w = (t', w') \<Longrightarrow> P t \<longrightarrow> P t'"
  by (auto dest!: write_rst_result)

section \<open>Packets\<close>

lemma queue_tcp_law: "P t \<Longrightarrow> length d < 65536 \<Longrightarrow> P (queue_tcp seq psh t d)"
  by (simp add: queue_tcp_def queued)

lemma tcp_fin_law [tcp_law]: "tcp_fin E t w = (r, t', w') \<Longrightarrow> P t \<longrightarrow> P t'"
  by (auto simp: tcp_fin_def dest!: tcp_law split: prod.splits if_split_asm)

lemma tcp_ack_law [tcp_law]: "tcp_ack h t = (r, t') \<Longrightarrow> P t \<longrightarrow> P t'"
  by (auto simp: tcp_ack_def Let_def split: tcp_state.splits)

lemma tcp_other_ack_law [tcp_law]: "tcp_other_ack E sock h t w = (r, t', w') \<Longrightarrow> P t \<longrightarrow> P t'"
  by (auto simp: tcp_other_ack_def Let_def dest!: tcp_law split: prod.splits if_split_asm)

lemma tcp_sequence_law [tcp_law]: "tcp_sequence E sock h t w = (r, t', w') \<Longrightarrow> P t \<longrightarrow> P t'"
  by (auto simp: tcp_sequence_def dest!: tcp_law split: prod.splits if_split_asm)

lemma tcp_known_law [tcp_law]:
  assumes "tcp_known E sock buf data datalen h t w = Some (r, t', w')"
  shows "P t \<longrightarrow> P t'"
proof -
  have "length d < 65536" if "slice buf data (unat datalen) = Some d" for d
    using length_slice [OF that] unat_u16_lt [of datalen] by simp
  then show ?thesis using assms
    by (auto simp: tcp_known_def bind_eq_Some_conv Let_def intro!: queue_tcp_law dest!: tcp_law
        split: prod.splits if_split_asm)
qed

section \<open>The periodic check and the events to poll for\<close>

lemma check_tcp_session_law [tcp_law]: "check_tcp_session E s t n m w = (del, s', t', w') \<Longrightarrow> P t \<longrightarrow> P t'"
  by (auto simp: check_tcp_session_def tcp_expire_def tcp_close_socket_def tcp_account_def Let_def
      dest!: tcp_law split: prod.splits if_split_asm)

lemma tcp_keep_alive_law [tcp_law]: "tcp_keep_alive E t w = (t', w') \<Longrightarrow> P t \<longrightarrow> P t'"
  by (auto simp: tcp_keep_alive_def Let_def dest!: tcp_law split: prod.splits if_split_asm)

lemma tcp_poll_events_law [tcp_law]: "tcp_poll_events E sock t w = (ev, c, t', w') \<Longrightarrow> P t \<longrightarrow> P t'"
  unfolding tcp_poll_events_def by (auto dest!: tcp_law split: prod.splits if_split_asm list.splits)

lemma monitor_law [tcp_law]: "monitor_tcp_session E s t w = (c, s', t', w') \<Longrightarrow> P t \<longrightarrow> P t'"
  by (auto simp: monitor_tcp_session_def Let_def dest!: tcp_law split: prod.splits if_split_asm)

section \<open>Events of the socket\<close>

lemma socks5_law [tcp_law]:
  "socks5_fail E t w = (t', w') \<Longrightarrow> P t \<longrightarrow> P t'" "socks5_request E sock t b w = (t', w') \<Longrightarrow> P t \<longrightarrow> P t'"
  by (auto simp: socks5_fail_def socks5_request_def dest!: tcp_law split: prod.splits if_split_asm)

lemma socks5_recv_law [tcp_law]: "socks5_recv E sock t w = (t', w') \<Longrightarrow> P t \<longrightarrow> P t'"
  by (auto simp: socks5_recv_def dest!: tcp_law split: prod.splits recv_result.splits if_split_asm)

lemma socks5_send_law [tcp_law]: "socks5_send E sock t w = (t', w') \<Longrightarrow> P t \<longrightarrow> P t'"
  by (auto simp: socks5_send_def Let_def dest!: tcp_law split: prod.splits socks5_state.splits if_split_asm)

lemma tcp_connecting_law [tcp_law]: "tcp_connecting E sock t ev w = (t', w') \<Longrightarrow> P t \<longrightarrow> P t'"
  unfolding tcp_connecting_def by (auto dest!: tcp_law split: prod.splits if_split_asm)

lemma forward_loop_law:
  "forward_loop E sock q t fwd bs w = Some (fwd', t', w') \<Longrightarrow> P (t\<lparr>t_forward := q\<rparr>) \<Longrightarrow> P t'"
proof (induction q arbitrary: t fwd bs w)
  case (Cons g q)
  have eqs: "t\<lparr>t_sent := a, t_forward := qs\<rparr> = t\<lparr>t_forward := qs, t_sent := a\<rparr>"
    "t\<lparr>t_sent := a, t_remote_seq := b, t_forward := qs\<rparr> = t\<lparr>t_forward := qs, t_sent := a, t_remote_seq := b\<rparr>" for a b qs
    by simp_all
  have swap: "P (t\<lparr>t_sent := a, t_forward := qs\<rparr>) = P (t\<lparr>t_forward := qs\<rparr>)"
    "P (t\<lparr>t_sent := a, t_remote_seq := b, t_forward := qs\<rparr>) = P (t\<lparr>t_forward := qs\<rparr>)" for a b qs
    by (simp_all only: eqs fields)
  from Cons.prems(1) show ?case
  proof (cases rule: forward_loop_cases)
    case (reset b err w1)
    then show ?thesis using Cons.prems(2) write_rst_law [OF reset(7)] by simp
  next
    case (part b n err)
    then show ?thesis using partly [OF Cons.prems(2)] by (simp add: swap)
  next
    case (full b n err w1)
    show ?thesis by (rule Cons.IH [OF full(8)]) (simp add: swap taken [OF Cons.prems(2)])
  qed (use Cons.prems(2) in simp_all)
qed simp

lemma tcp_acknowledge_law [tcp_law]: "tcp_acknowledge E sock fwd t w = (t', w') \<Longrightarrow> P t \<longrightarrow> P t'"
  by (auto simp: tcp_acknowledge_def Let_def dest!: tcp_law split: prod.splits if_split_asm)

lemma tcp_forward_law [tcp_law]: "tcp_forward E sock t ev w = Some (t', w') \<Longrightarrow> P t \<longrightarrow> P t'"
  by (auto simp: tcp_forward_def bind_eq_Some_conv dest!: tcp_law forward_loop_law
      split: prod.splits if_split_asm)

lemma tcp_eof_law [tcp_law]: "tcp_eof E s t w = (s', t', w') \<Longrightarrow> P t \<longrightarrow> P t'"
  by (auto simp: tcp_eof_def Let_def dest!: tcp_law split: prod.splits if_split_asm)

lemma tcp_read_data_law [tcp_law]: "tcp_read_data E t b w = Some (t', w') \<Longrightarrow> P t \<longrightarrow> P t'"
  by (erule tcp_read_data_cases) (auto dest!: tcp_law)

lemma check_tcp_socket_law [tcp_law]: "check_tcp_socket E s t ev w = Some (s', t', w') \<Longrightarrow> P t \<longrightarrow> P t'"
  by (auto simp: check_tcp_socket_def tcp_read_def bind_eq_Some_conv Let_def dest!: tcp_law
      split: prod.splits recv_result.splits if_split_asm)

lemma tcp_step_law: "tcp_step (s, t) (s', t') \<Longrightarrow> P t \<Longrightarrow> P t'"
  by (erule tcp_step_cases) (auto dest!: tcp_law)

end

section \<open>The data of the queue\<close>

definition queue_held :: "tcp_session \<Rightarrow> bool" where
  "queue_held t \<longleftrightarrow> (\<forall>g\<in>set (t_forward t). length (g_data g) = unat (g_len g))"

lemma queue_insert_held:
  assumes "\<forall>g\<in>set q. length (g_data g) = unat (g_len g)" and "length data < 65536"
  shows "\<forall>g\<in>set (queue_insert seq psh data q). length (g_data g) = unat (g_len g)"
  using assms by (induction q) (auto simp: unat_of_nat16)

interpretation held: tcp_law queue_held
  by unfold_locales (auto simp: queue_held_def dest: queue_insert_held)

end
