(* ===== verification/Ng_Keys.thy ===== *)
theory Ng_Keys
  imports Ng_Engine Ng_Tcp_Law "HOL-Library.Sublist"
begin

text \<open>
  One session per connection: the version, addresses and ports of a session never change, a session
  is made only when the search found none, and so no two TCP sessions and no two UDP sessions in the
  list have the same connection.
\<close>

section \<open>The connection of a session\<close>

definition tcp_key :: "tcp_session \<Rightarrow> nat \<times> bytes \<times> u16 \<times> bytes \<times> u16" where
  "tcp_key t = (t_version t, t_saddr t, t_source t, t_daddr t, t_dest t)"

definition udp_key_of :: "udp_session \<Rightarrow> nat \<times> bytes \<times> u16 \<times> bytes \<times> u16" where
  "udp_key_of u = (u_version u, u_saddr u, u_source u, u_daddr u, u_dest u)"

definition session_key :: "ng_session \<Rightarrow> (u8 \<times> nat \<times> bytes \<times> u16 \<times> bytes \<times> u16) option" where
  "session_key s =
     (case s_proto s of
        Icmp c \<Rightarrow> None
      | Udp u \<Rightarrow> Some (IPPROTO_UDP, udp_key_of u)
      | Tcp t \<Rightarrow> Some (IPPROTO_TCP, tcp_key t))"

section \<open>No operation changes it\<close>

interpretation same_key: tcp_law "\<lambda>t. tcp_key t = k" for k
  by unfold_locales (simp_all add: tcp_key_def)

lemma write_rst_key: "write_rst E t w = (t', w') \<Longrightarrow> tcp_key t' = tcp_key t"
  using same_key.write_rst_law [where k = "tcp_key t"] by blast

lemma tcp_known_key: "tcp_known E sock buf data datalen h t w = Some (r, t', w') \<Longrightarrow> tcp_key t' = tcp_key t"
  using same_key.tcp_known_law [where k = "tcp_key t"] by blast

lemma check_tcp_session_key: "check_tcp_session E s t n m w = (del, s', t', w') \<Longrightarrow> tcp_key t' = tcp_key t"
  using same_key.check_tcp_session_law [where k = "tcp_key t"] by blast

lemma monitor_key: "monitor_tcp_session E s t w = (c, s', t', w') \<Longrightarrow> tcp_key t' = tcp_key t"
  using same_key.monitor_law [where k = "tcp_key t"] by blast

lemma check_tcp_socket_key: "check_tcp_socket E s t ev w = Some (s', t', w') \<Longrightarrow> tcp_key t' = tcp_key t"
  using same_key.check_tcp_socket_law [where k = "tcp_key t"] by blast

section \<open>UDP\<close>

lemma check_dhcp_key: "check_dhcp E u data w = Some (r, u', w') \<Longrightarrow> u' = u"
proof (cases "240 \<le> length data")
  case True
  then show "check_dhcp E u data w = Some (r, u', w') \<Longrightarrow> u' = u"
    by (simp add: check_dhcp_eq split: if_split_asm)
qed (simp add: check_dhcp_def)

lemma udp_key_of_simps [simp]:
  "udp_key_of (u\<lparr>u_state := st\<rparr>) = udp_key_of u" "udp_key_of (u\<lparr>u_time := tm\<rparr>) = udp_key_of u"
  "udp_key_of (u\<lparr>u_sent := k\<rparr>) = udp_key_of u" "udp_key_of (u\<lparr>u_received := k\<rparr>) = udp_key_of u"
  by (simp_all add: udp_key_of_def)

lemma udp_forward_key: "udp_forward E sock u data redirect w = (r, u', w') \<Longrightarrow> udp_key_of u' = udp_key_of u"
  by (auto simp: udp_forward_def Let_def split: prod.splits if_split_asm)

lemma udp_active_key:
  "yields (udp_active E sock u source dest data redirect w) (\<lambda>(r, u', w'). udp_key_of u' = udp_key_of u)"
  unfolding udp_active_def
  by (intro yields_intro)
    (auto dest!: check_dhcp_key udp_forward_key split: if_split_asm)

lemma check_udp_session_key: "check_udp_session E s u n m w = (del, s', u', w') \<Longrightarrow> udp_key_of u' = udp_key_of u"
  by (auto simp: check_udp_session_def split_beta Let_def split: if_split_asm)

lemma udp_received_key: "yields (udp_received E u b w) (\<lambda>(u', w'). udp_key_of u' = udp_key_of u)"
  unfolding udp_received_def by (intro yields_intro) auto

lemma check_udp_socket_key: "yields (check_udp_socket E s u ev w) (\<lambda>(u', w'). udp_key_of u' = udp_key_of u)"
  unfolding check_udp_socket_def
  by (intro yields_intro) (auto dest!: udp_received_key [THEN yieldsD] intro!: yieldsI)

lemma udp_loop_key: "yields (udp_loop n E ev s u w) (\<lambda>(u', w'). udp_key_of u' = udp_key_of u)"
proof (induction n arbitrary: u w)
  case (Suc n)
  show ?case
    unfolding udp_loop.simps
    by (intro yields_intro) (auto dest!: Suc.IH [THEN yieldsD] check_udp_socket_key [THEN yieldsD] intro!: yieldsI)
qed (auto intro: yields_intro)

section \<open>The keys of the list\<close>

fun keys :: "ng_session list \<Rightarrow> (u8 \<times> nat \<times> bytes \<times> u16 \<times> bytes \<times> u16) list" where
  "keys [] = []"
| "keys (s # ss) = (case session_key s of None \<Rightarrow> keys ss | Some k \<Rightarrow> k # keys ss)"

text \<open>No key twice, and the addresses of each have the length of its version.\<close>

fun key_typed :: "u8 \<times> nat \<times> bytes \<times> u16 \<times> bytes \<times> u16 \<Rightarrow> bool" where
  "key_typed (protocol, version, saddr, source, daddr, dest) \<longleftrightarrow> addr_ok version saddr \<and> addr_ok version daddr"

definition good_keys :: "(u8 \<times> nat \<times> bytes \<times> u16 \<times> bytes \<times> u16) list \<Rightarrow> bool" where
  "good_keys ks \<longleftrightarrow> distinct ks \<and> (\<forall>k\<in>set ks. key_typed k)"

lemma good_keys_simps [simp]:
  "good_keys []" "good_keys (k # ks) \<longleftrightarrow> k \<notin> set ks \<and> key_typed k \<and> good_keys ks"
  by (auto simp: good_keys_def)

lemma pkt_addrs_typed: "pkt_addrs buf version = Some (saddr, daddr) \<Longrightarrow> addr_ok version saddr \<and> addr_ok version daddr"
  by (auto simp: pkt_addrs_def slice_def addr_ok_def bind_eq_Some_conv split: if_split_asm)

lemma udp_key_typed:
  "udp_key buf payload = Some (version, saddr, source, daddr, dest) \<Longrightarrow> addr_ok version saddr \<and> addr_ok version daddr"
  by (auto simp: udp_key_def bind_eq_Some_conv Let_def dest: pkt_addrs_typed)

lemma keys_replace_first:
  "find P ss = Some s \<Longrightarrow> session_key y = session_key s \<Longrightarrow> keys (replace_first P y ss) = keys ss"
  by (induction ss) (auto split: if_split_asm option.splits)

lemma keys_subset: "k \<in> set (keys ss) \<longleftrightarrow> (\<exists>s\<in>set ss. session_key s = Some k)"
  by (induction ss) (auto split: option.splits)

lemma udp_match_key:
  "udp_match v sa so da de s \<longleftrightarrow> session_key s = Some (IPPROTO_UDP, v, sa, so, da, de)"
  by (auto simp: udp_match_def session_key_def udp_key_of_def split: proto_session.splits)

lemma tcp_match_key:
  "tcp_match v sa so da de s \<longleftrightarrow> session_key s = Some (IPPROTO_TCP, v, sa, so, da, de)"
  by (auto simp: tcp_match_def session_key_def tcp_key_def split: proto_session.splits)

lemma find_None_keys:
  "find (udp_match v sa so da de) ss = None \<Longrightarrow> (IPPROTO_UDP, v, sa, so, da, de) \<notin> set (keys ss)"
  "find (tcp_match v sa so da de) ss = None \<Longrightarrow> (IPPROTO_TCP, v, sa, so, da, de) \<notin> set (keys ss)"
  by (auto simp: find_None_iff keys_subset udp_match_key tcp_match_key)

section \<open>Packets\<close>

lemma icmp_match_key: "icmp_match v sa da s \<Longrightarrow> session_key s = None"
  by (auto simp: icmp_match_def session_key_def split: proto_session.splits)

lemma icmp_replace_keys:
  "s_proto y = Icmp c \<Longrightarrow> keys (replace_first (icmp_match v sa da) y ss) = keys ss"
proof (induction ss)
  case (Cons a ss)
  then show ?case by (cases "icmp_match v sa da a") (auto simp: icmp_match_key session_key_def [of y] split: option.splits)
qed simp

lemma icmp_register_key: "icmp_register E v sa da idn uid w = (Some s, w') \<Longrightarrow> session_key s = None"
  by (auto simp: icmp_register_def split_beta Let_def session_key_def split: if_split_asm)

lemma icmp_located_keys:
  assumes "(s, ss1, w1) = (case find key ss of
          Some s \<Rightarrow> (Some s, ss, w)
        | None \<Rightarrow>
            (case icmp_register E version saddr daddr idn uid w of
               (None, w) \<Rightarrow> (None, ss, w)
             | (Some s, w) \<Rightarrow> (Some s, s # ss, w)))"
  shows "keys ss1 = keys ss"
  using assms icmp_register_key [of E version saddr daddr idn uid w]
  by (auto split: option.splits prod.splits)

lemma handle_icmp_keys:
  "yields (handle_icmp E buf plen payload uid ss w) (\<lambda>(r, ss', w'). keys ss' = keys ss)"
  unfolding handle_icmp_def
  by (intro yields_intro) (auto simp: icmp_replace_keys dest!: icmp_located_keys)

lemma udp_register_key:
  "udp_register E v sa so da de uid redirect w = (Some s, w') \<Longrightarrow> session_key s = Some (IPPROTO_UDP, v, sa, so, da, de)"
  by (auto simp: udp_register_def split_beta Let_def session_key_def udp_key_of_def split: if_split_asm)

lemma udp_located_keys:
  assumes "(s, ss1, w1) = (case find (udp_match v sa so da de) ss of
          Some s \<Rightarrow> (Some s, ss, w)
        | None \<Rightarrow>
            (case udp_register E v sa so da de uid redirect w of
               (None, w) \<Rightarrow> (None, ss, w)
             | (Some s, w) \<Rightarrow> (Some s, s # ss, w)))"
    and "good_keys (keys ss)" and "addr_ok v sa \<and> addr_ok v da"
  shows "good_keys (keys ss1)" and "s = Some x \<Longrightarrow> find (udp_match v sa so da de) ss1 = Some x"
  using assms udp_register_key [of E v sa so da de uid redirect w] find_None_keys(1) [of v sa so da de ss]
  by (auto simp: udp_match_key split: option.splits prod.splits)

lemma udp_replace_keys:
  assumes "find (udp_match v sa so da de) ss = Some s" and "s_proto s = Udp u" and "udp_key_of u' = udp_key_of u"
  shows "keys (replace_first (udp_match v sa so da de) (s\<lparr>s_proto := Udp u'\<rparr>) ss) = keys ss"
  using assms by (intro keys_replace_first [OF assms(1)]) (simp add: session_key_def)

lemma tcp_replace_keys:
  assumes "find (tcp_match v sa so da de) ss = Some s" and "s_proto s = Tcp t" and "tcp_key t' = tcp_key t"
  shows "keys (replace_first (tcp_match v sa so da de) (s\<lparr>s_proto := Tcp t'\<rparr>) ss) = keys ss"
  using assms by (intro keys_replace_first [OF assms(1)]) (simp add: session_key_def)

lemma handle_udp_keys:
  assumes "good_keys (keys ss)"
  shows "yields (handle_udp E buf plen payload uid redirect ss w) (\<lambda>(r, ss', w'). good_keys (keys ss'))"
proof -
  have k: "good_keys (keys (replace_first (udp_match v sa so da de) (x\<lparr>s_proto := Udp u'\<rparr>) ss1))"
    if e: "(Some x, ss1, w1) = (case find (udp_match v sa so da de) ss of
          Some s \<Rightarrow> (Some s, ss, w)
        | None \<Rightarrow>
            (case udp_register E v sa so da de uid redirect w of
               (None, w) \<Rightarrow> (None, ss, w)
             | (Some s, w) \<Rightarrow> (Some s, s # ss, w)))"
      and a: "addr_ok v sa \<and> addr_ok v da" and x: "s_proto x = Udp u" and u: "udp_active E sk u a b d rd wa = Some (r, u', w')"
    for v sa so da de x ss1 w1 u u' w w' wa r sk a b d rd
    using udp_located_keys [OF e assms a] udp_replace_keys [OF _ x, of v sa so da de ss1 u'] udp_active_key [THEN yieldsD, OF u] by simp
  show ?thesis
    unfolding handle_udp_def
    by (intro yields_intro) (use assms k udp_located_keys(1) udp_key_typed in \<open>simp_all\<close>)
qed

lemma block_udp_keys:
  assumes "good_keys (keys ss)" and "has_udp_session E buf payload ss = Some False"
  shows "yields (block_udp E buf payload uid ss w) (\<lambda>(ss', w'). good_keys (keys ss'))"
proof -
  obtain v sa so da de where k: "udp_key buf payload = Some (v, sa, so, da, de)"
    "find (udp_match v sa so da de) ss = None"
    using assms(2) by (auto simp: has_udp_session_def bind_eq_Some_conv)
  then show ?thesis using assms(1) find_None_keys(1) [OF k(2)] udp_key_typed [OF k(1)]
    by (auto simp: block_udp_def split_beta Let_def session_key_def udp_key_of_def intro!: yieldsI)
qed

lemma tcp_register_key:
  assumes "tcp_register E ptr t al redirect ss w = (r, ss', w')"
  shows "ss' = ss \<or> (\<exists>s. ss' = s # ss \<and> session_key s = Some (IPPROTO_TCP, tcp_key t))"
  using assms
  by (auto simp: tcp_register_def Let_def split_beta session_key_def fst_write_rst tcp_key_def split: if_split_asm)

lemma tcp_syn_keys:
  assumes "good_keys (keys ss)" and "find (tcp_match v sa (th_source h) da (th_dest h)) ss = None"
    and "addr_ok v sa \<and> addr_ok v da"
  shows "yields (tcp_syn E buf payload tcpoptlen h data datalen v sa da uid al redirect ss w)
    (\<lambda>(r, ss', w'). good_keys (keys ss'))"
  unfolding tcp_syn_def
  by (intro yields_intro)
    (use assms(1,3) find_None_keys(2) [OF assms(2)] in \<open>auto simp: new_tcp_def tcp_key_def dest!: tcp_register_key\<close>)

lemma handle_tcp_keys:
  assumes "good_keys (keys ss)"
  shows "yields (handle_tcp E buf plen payload uid al redirect ss w) (\<lambda>(r, ss', w'). good_keys (keys ss'))"
  unfolding handle_tcp_def
  by (intro yields_intro tcp_syn_keys)
    (use assms in \<open>auto simp: tcp_replace_keys dest!: tcp_known_key pkt_addrs_typed\<close>)

text \<open>A UDP packet is not allowed only when it has no session, so \<open>block_udp\<close> never adds a second.\<close>

lemma ip_allowed_denied_udp:
  assumes "ip_allowed E buf plen (version, protocol, saddr, daddr, payload) sport dport syn flags data sni uid ss w =
      Some (False, redirect, w')"
    and "protocol = IPPROTO_UDP"
  shows "has_udp_session E buf payload ss = Some False"
  using assms by (auto simp: ip_allowed_def Let_def bind_eq_Some_conv split: if_split_asm)

lemma ip_dispatch_keys:
  assumes "good_keys (keys ss)"
    and "\<not> allowed \<Longrightarrow> protocol = IPPROTO_UDP \<Longrightarrow> has_udp_session E buf payload ss = Some False"
  shows "yields (ip_dispatch E buf plen protocol payload uid named allowed redirect ss w) (\<lambda>(ss', w'). good_keys (keys ss'))"
proof -
  note h = handle_icmp_keys [THEN yieldsD] handle_udp_keys [OF assms(1), THEN yieldsD]
    handle_tcp_keys [OF assms(1), THEN yieldsD]
  show ?thesis
    unfolding ip_dispatch_def
    by (intro yields_intro block_udp_keys) (use assms in \<open>auto dest: h\<close>)
qed

lemma handle_ip_keys:
  assumes "good_keys (keys ss)"
  shows "yields (handle_ip E buf plen sessions maxsessions ss cache w) (\<lambda>(ss', cache', w'). good_keys (keys ss'))"
  unfolding handle_ip_def
  by (intro yields_intro)
    (use assms in \<open>auto dest!: ip_dispatch_keys [THEN yieldsD, rotated 2] dest: ip_allowed_denied_udp\<close>)

lemma check_tun_keys:
  assumes "good_keys (keys ss)"
  shows "yields (check_tun E events sessions maxsessions ss cache w) (\<lambda>(ok, ss', cache', w'). good_keys (keys ss'))"
  unfolding check_tun_def
  by (intro yields_intro) (use assms in \<open>auto dest: handle_ip_keys [THEN yieldsD]\<close>)

lemma tun_loop_keys:
  "good_keys (keys ss) \<Longrightarrow>
   yields (tun_loop n E events sessions maxsessions ss cache w) (\<lambda>(e, ss', cache', w'). good_keys (keys ss'))"
proof (induction n arbitrary: ss cache w)
  case (Suc n)
  show ?case
    unfolding tun_loop.simps
    by (intro yields_intro Suc.IH) (use Suc.prems in \<open>auto dest: check_tun_keys [THEN yieldsD]\<close>)
qed (auto intro: yields_intro)

section \<open>Events and checks\<close>

lemma subseq_good: "subseq xs ys \<Longrightarrow> good_keys ys \<Longrightarrow> good_keys xs"
  by (induction rule: list_emb.induct) (auto dest: list_emb_set)

lemma session_event_key: "yields (session_event E events s w) (\<lambda>(s', w'). session_key s' = session_key s)"
  unfolding session_event_def
  by (intro yields_intro)
    (auto simp: session_key_def dest: check_tcp_socket_key udp_loop_key [THEN yieldsD])

lemma dispatch_event_keys:
  assumes "good_keys (keys ss)"
  shows "yields (dispatch_event E sessions maxsessions target events ss cache w) (\<lambda>(e, ss', cache', w'). good_keys (keys ss'))"
proof (cases target)
  case (OnSession ptr)
  show ?thesis
    unfolding dispatch_event_def OnSession epoll_target.case
    by (intro yields_intro)
      (use assms in \<open>auto simp: keys_replace_first dest: session_event_key [THEN yieldsD]\<close>)
qed (use assms in \<open>auto simp: dispatch_event_def intro: yields_intro tun_loop_keys\<close>)

lemma dispatch_events_keys:
  "good_keys (keys ss) \<Longrightarrow>
   yields (dispatch_events E sessions maxsessions evs ss cache w) (\<lambda>(e, ss', cache', w'). good_keys (keys ss'))"
proof (induction evs arbitrary: ss cache w)
  case (Cons ev evs)
  obtain target events where ev: "ev = (target, events)" by (cases ev)
  show ?case
    unfolding ev dispatch_events.simps
    by (intro yields_intro Cons.IH) (use Cons.prems in \<open>auto dest: dispatch_event_keys [THEN yieldsD]\<close>)
qed (auto intro: yields_intro)

lemma check_allowed_one_key: "check_allowed_one E s w = (Some s', w') \<Longrightarrow> session_key s' = session_key s"
  by (auto simp: check_allowed_one_def session_key_def Let_def dest!: write_rst_key
      split: proto_session.splits prod.splits if_split_asm)

lemma check_allowed_keys: "check_allowed E ss w = (ss', w') \<Longrightarrow> subseq (keys ss') (keys ss)"
proof (induction ss arbitrary: w ss' w')
  case (Cons s ss)
  obtain r w1 ss2 w2 where r: "check_allowed_one E s w = (r, w1)" "check_allowed E ss w1 = (ss2, w2)"
    by (metis prod.exhaust)
  show ?case using Cons.prems Cons.IH [OF r(2)] r check_allowed_one_key [of E s w]
    by (cases r) (auto split: option.splits)
qed simp

lemma count_sessions_keys: "count_sessions E ss w = (n, c, ss', w') \<Longrightarrow> keys ss' = keys ss"
proof (induction ss arbitrary: w n c ss' w')
  case (Cons s ss)
  then show ?case
    by (auto simp: Let_def session_key_def dest: monitor_key split: prod.splits proto_session.splits if_split_asm)
qed simp

lemma check_session_key: "check_session E n m now s w = (del, st, s', w') \<Longrightarrow> session_key s' = session_key s"
  by (auto simp: check_session_def check_icmp_session_def session_key_def Let_def
      dest: check_udp_session_key check_tcp_session_key
      split: prod.splits proto_session.splits if_split_asm)

lemma check_sessions_keys: "check_sessions E n m now timeout ss w = (t, ss', w') \<Longrightarrow> subseq (keys ss') (keys ss)"
proof (induction ss arbitrary: timeout w t ss' w')
  case (Cons s ss)
  obtain del st s1 w1 where c: "check_session E n m now s w = (del, st, s1, w1)" by (metis prod.exhaust)
  obtain t2 ss2 w2 where r: "check_sessions E n m now
      (case st of None \<Rightarrow> timeout | Some st \<Rightarrow> if st > 0 \<and> st < timeout then st else timeout) ss w1 = (t2, ss2, w2)"
    by (metis prod.exhaust)
  show ?case using Cons.prems Cons.IH [OF r] c r check_session_key [OF c] by (auto split: option.splits if_split_asm)
qed simp

lemma loop_check_keys:
  assumes "good_keys (keys (m_sessions m))" and "loop_check E maxsessions m w = (n, t, r, m', w')"
  shows "good_keys (keys (m_sessions m'))"
  using assms
  by (auto simp: loop_check_def Let_def dest!: count_sessions_keys check_sessions_keys
      intro: subseq_good split: prod.splits if_split_asm)

lemma loop_turn_keys:
  assumes "good_keys (keys (m_sessions m))"
  shows "yields (loop_turn E maxsessions m w) (\<lambda>(go, m', w'). good_keys (keys (m_sessions m')))"
  unfolding loop_turn_def
  by (intro yields_intro)
    (auto dest!: loop_check_keys [OF assms, OF sym] dest: dispatch_events_keys [THEN yieldsD, rotated])

interpretation keyed: session_machine engine_init engine_step "\<lambda>m. good_keys (keys (m_sessions m))" "\<lambda>m. 0 :: nat"
proof unfold_locales
  fix m m'
  assume k: "good_keys (keys (m_sessions m))" and step: "engine_step m m'"
  from step k show "good_keys (keys (m_sessions m'))"
    by (cases rule: engine_step.cases)
      (auto dest: loop_turn_keys [OF k, THEN yieldsD] check_allowed_keys subseq_good)
qed (auto simp: engine_init.simps)

lemma filter_key_le_1:
  assumes "distinct (keys ss)" and "\<And>s. P s \<longleftrightarrow> session_key s = Some k"
  shows "length (filter P ss) \<le> 1"
  using assms(1)
proof (induction ss)
  case (Cons s ss)
  have "filter P ss = []" if "session_key s = Some k"
    using Cons.prems that by (auto simp: filter_empty_conv keys_subset assms(2))
  moreover have "distinct (keys ss)" using Cons.prems by (auto split: option.splits)
  ultimately show ?case using Cons.IH by (cases "P s") (simp_all add: assms(2) [of s])
qed simp

text \<open>C11: in every state of the engine, whatever packets, events and restarts led to it, the session
  list holds at most one TCP session and at most one UDP session for a version, address and port
  quadruple, so the search of the packet handlers is never ambiguous.\<close>

theorem one_session_per_connection:
  assumes "reach engine_init engine_step m"
  shows "length (filter (tcp_match version saddr source daddr dest) (m_sessions m)) \<le> 1 \<and>
    length (filter (udp_match version saddr source daddr dest) (m_sessions m)) \<le> 1"
proof -
  have d: "distinct (keys (m_sessions m))" using keyed.reach_inv [OF assms] by (simp add: good_keys_def)
  show ?thesis using filter_key_le_1 [OF d tcp_match_key] filter_key_le_1 [OF d udp_match_key] by blast
qed

text \<open>C21: every TCP and UDP session the engine ever holds is well typed: its two addresses are 4 bytes
  long for version 4 and 16 bytes otherwise, as the packet writers and \<open>inet_ntop\<close> take for
  granted.\<close>

theorem session_addresses_typed:
  assumes "reach engine_init engine_step m" and "s \<in> set (m_sessions m)"
  shows "case s_proto s of
      Icmp c \<Rightarrow> True
    | Udp u \<Rightarrow> addr_ok (u_version u) (u_saddr u) \<and> addr_ok (u_version u) (u_daddr u)
    | Tcp t \<Rightarrow> addr_ok (t_version t) (t_saddr t) \<and> addr_ok (t_version t) (t_daddr t)"
proof -
  have g: "\<forall>k\<in>set (keys (m_sessions m)). key_typed k"
    using keyed.reach_inv [OF assms(1)] by (simp add: good_keys_def)
  show ?thesis
  proof (cases "session_key s")
    case None
    then show ?thesis by (auto simp: session_key_def split: proto_session.splits)
  next
    case (Some k)
    then have "key_typed k" using g assms(2) keys_subset by blast
    then show ?thesis using Some
      by (auto simp: session_key_def udp_key_of_def tcp_key_def split: proto_session.splits)
  qed
qed

section \<open>An example run\<close>

text \<open>A datagram that Java does not allow, which leaves a blocked session.\<close>

definition example_datagram4 :: bytes where
  "example_datagram4 = [0x45, 0, 0, 28, 0, 0, 0, 0, 64, 17, 0, 0, 10, 1, 10, 1, 1, 2, 3, 4,
     0x0F, 0xA0, 0x14, 0xE9, 0, 8, 0, 0]"

definition example_deny_env :: env where
  "example_deny_env = example_turn_env\<lparr>e_allowed := \<lambda>k p. None, e_tun_read := \<lambda>k. RecvData example_datagram4\<rparr>"

lemma example_datagram4_handled:
  "\<exists>w' s u. handle_ip example_deny_env (example_datagram4 @ rest) 28 0 409 [] [] w = Some ([s], [], w') \<and>
     w_calls w' = w_calls w + 5 \<and> s_proto s = Udp u \<and> u_saddr u = [10, 1, 10, 1]"
proof -
  have h: "ip_header example_deny_env (example_datagram4 @ rest) 28 = Some (Some (4, IPPROTO_UDP, [10, 1, 10, 1], [1, 2, 3, 4], 20))"
    by (simp add: ip_header_def example_datagram4_def example_deny_env_def example_turn_env_def example_env_def rd_def
        rd16_def pkt_addrs_def slice_def be16_def le16_def)
  have p: "ip_ports (example_datagram4 @ rest) 28 IPPROTO_UDP 20 = Some (Some (4000, 5353, False, [], NoText))"
    by (simp add: ip_ports_def is_icmp_def too_short_def example_datagram4_def rd_def rd16_def be16_def)
  have k: "udp_key (example_datagram4 @ rest) 20 = Some (4, [10, 1, 10, 1], 4000, [1, 2, 3, 4], 5353)"
    by (simp add: udp_key_def example_datagram4_def rd_def rd16_def pkt_addrs_def slice_def be16_def)
  have e: "sdk example_deny_env = 33" "e_allowed example_deny_env = (\<lambda>k p. None)"
    by (simp_all add: example_deny_env_def example_turn_env_def example_env_def)
  show ?thesis
    using h p k
    by (simp add: handle_ip_def ip_starts_def is_icmp_def ip_sni_def ip_uid_def ip_dispatch_def has_udp_session_def
        ip_allowed_def ip_hostname_def is_address_allowed_def block_udp_def ask_def called_def sys_time_def e split_beta)
qed

lemma example_deny_reach:
  "\<exists>m s u. reach engine_init engine_step m \<and> m_sessions m = [s] \<and> s_proto s = Udp u \<and> u_saddr u = [10, 1, 10, 1]"
proof -
  let ?w = "emit (EpollWait 3600000) (called (called example_world))"
  let ?m = "example_engine\<lparr>m_last_check := 1000000\<rparr>"
  have e: "e_poll example_deny_env = (\<lambda>k. PollReady [(OnTun, 1)])" "e_stopping example_deny_env = (\<lambda>k. 9 < k)"
    "e_readable example_deny_env = (\<lambda>k s. s = 5)" "tun_fd example_deny_env = 5" "e_heap example_deny_env = (\<lambda>k. [])"
    "e_tun_read example_deny_env = (\<lambda>k. RecvData example_datagram4)" "\<not> pcap_open example_deny_env"
    "e_ms example_deny_env = e_ms example_env" "e_time example_deny_env = e_time example_env"
    by (simp_all add: example_deny_env_def example_turn_env_def example_env_def)
  have c: "loop_check example_deny_env 409 example_engine example_world = (0, 3600, False, ?m, called (called example_world))"
    by (simp add: loop_check_def example_engine_def sys_ms_def sys_time_def EPOLL_MIN_CHECK_def EPOLL_TIMEOUT_def
        e example_env_def example_world_def)
  let ?w3 = "called (called (called ?w))"
  have l: "length example_datagram4 = 28" "example_datagram4 \<noteq> []" by (simp_all add: example_datagram4_def)
  have t: "take 10000 (example_datagram4 @ replicate 10000 0) = example_datagram4 @ take 9972 (replicate 10000 0)"
    using l(1) by simp
  have m: "unat get_mtu = 10000" by (simp add: get_mtu_def)
  obtain w' s u where h: "handle_ip example_deny_env (example_datagram4 @ take 9972 (replicate 10000 0)) 28 0 409 [] []
      (called (called ?w3)) = Some ([s], [], w')" "w_calls w' = w_calls (called (called ?w3)) + 5"
    "s_proto s = Udp u" "u_saddr u = [10, 1, 10, 1]"
    using example_datagram4_handled by blast
  then have "check_tun example_deny_env 1 0 409 [] [] ?w3 = Some (True, [s], [], w')"
    using l m t by (simp add: check_tun_def ask_def Let_def e)
  moreover have "w_calls (called ?w) = 3" "w_calls (called (called ?w)) = 4" "w_calls w' = 12"
    using h(2) by (simp_all add: called_def emit_def example_world_def)
  ultimately have "tun_loop 10 example_deny_env 1 0 409 [] [] (called ?w) = Some (False, [s], [], called w')"
    by (simp add: numeral_eq_Suc tun_loop.simps e ask_def)
  then have "\<exists>m' w'. loop_turn example_deny_env 409 example_engine example_world = Some (True, m', w') \<and> m_sessions m' = [s]"
    using c by (simp add: loop_turn_def ask_def poll_wait_def dispatch_event_def TUN_YIELD_def example_engine_def e)
  moreover have "poll_ok example_deny_env" by (simp add: poll_ok_def e)
  moreover have "reach engine_init engine_step example_engine"
    by (rule reach_init) (simp add: engine_init.simps example_engine_def)
  ultimately show ?thesis using h(3,4) by (metis engine_step.turn reach_step)
qed

theorem one_session_per_connection_witness:
  "\<exists>m s u. reach engine_init engine_step m \<and> m_sessions m = [s] \<and> s_proto s = Udp u \<and>
     length (filter (udp_match 4 [10, 1, 10, 1] 4000 [1, 2, 3, 4] 5353) (m_sessions m)) \<le> 1"
proof -
  obtain m s u where "reach engine_init engine_step m" "m_sessions m = [s]" "s_proto s = Udp u"
    using example_deny_reach by blast
  then show ?thesis using one_session_per_connection by blast
qed

theorem session_addresses_typed_witness:
  "\<exists>m s u. reach engine_init engine_step m \<and> m_sessions m = [s] \<and> s_proto s = Udp u \<and> u_saddr u = [10, 1, 10, 1] \<and>
     addr_ok (u_version u) (u_saddr u) \<and> addr_ok (u_version u) (u_daddr u)"
proof -
  obtain m s u where m: "reach engine_init engine_step m" "m_sessions m = [s]" "s_proto s = Udp u" "u_saddr u = [10, 1, 10, 1]"
    using example_deny_reach by blast
  then show ?thesis using session_addresses_typed [OF m(1), of s] by auto
qed

end
