(* ===== verification/Ng_Alloc.thy ===== *)
theory Ng_Alloc
  imports Ng_Prelude "HOL-Library.Multiset"
begin

text \<open>
  The memory profile of netguard.c (\<open>PROFILE_MEMORY\<close>): every block and every Java reference the engine
  holds has a record in an array, and \<open>balance\<close> counts them. The null pointer is 0. The lock around
  the array is left out.
\<close>

section \<open>Bags of references\<close>

text \<open>What a table of references promises: adding and deleting, and nothing for the null pointer.\<close>

definition ref_bag :: "nat \<Rightarrow> nat multiset" where
  "ref_bag r = (if r = 0 then {#} else {#r#})"

lemma ref_bag_simps [simp]: "ref_bag 0 = {#}" "r \<noteq> 0 \<Longrightarrow> ref_bag r = {#r#}"
  by (simp_all add: ref_bag_def)

locale ref_table =
  fixes add :: "nat \<Rightarrow> 's \<Rightarrow> 's"
    and del :: "nat \<Rightarrow> 's \<Rightarrow> 's"
    and live :: "'s \<Rightarrow> nat multiset"
  assumes live_add: "live (add r s) = live s + ref_bag r"
    and live_del: "live (del r s) = live s - ref_bag r"
begin

lemma live_fold_add: "live (fold add rs s) = live s + (\<Sum>r\<in>#mset rs. ref_bag r)"
  by (induction rs arbitrary: s) (simp_all add: live_add ac_simps)

lemma live_fold_del: "live (fold del rs s) = live s - (\<Sum>r\<in>#mset rs. ref_bag r)"
  by (induction rs arbitrary: s) (simp_all add: live_del)

text \<open>Whatever the order, deleting what was added restores the table.\<close>

lemma paired: "mset rs' = mset rs \<Longrightarrow> live (fold del rs' (fold add rs s)) = live s"
  by (simp add: live_fold_add live_fold_del)

end

section \<open>The records\<close>

record alloc_record =
  a_tag :: string
  a_time :: int
  a_ptr :: nat

record ledger =
  allocs :: "alloc_record list"
  balance :: int

text \<open>The first free record, or a new one at the end.\<close>

fun store_record :: "alloc_record \<Rightarrow> alloc_record list \<Rightarrow> alloc_record list" where
  "store_record r [] = [r]"
| "store_record r (a # as) = (if a_ptr a = 0 then r # as else a # store_record r as)"

definition ng_add_alloc :: "bool \<Rightarrow> int \<Rightarrow> string \<Rightarrow> nat \<Rightarrow> ledger \<Rightarrow> ledger" where
  "ng_add_alloc profile now tag ptr L =
     (if \<not> profile \<or> ptr = 0 then L
      else L\<lparr>allocs := store_record \<lparr>a_tag = tag, a_time = now, a_ptr = ptr\<rparr> (allocs L), balance := balance L + 1\<rparr>)"

text \<open>The first record of the pointer is freed; \<open>None\<close> when there is none.\<close>

fun free_record :: "nat \<Rightarrow> alloc_record list \<Rightarrow> alloc_record list option" where
  "free_record ptr [] = None"
| "free_record ptr (a # as) =
     (if a_ptr a = ptr then Some (a\<lparr>a_tag := ''[free]'', a_ptr := 0\<rparr> # as)
      else map_option ((#) a) (free_record ptr as))"

definition ng_delete_alloc :: "bool \<Rightarrow> nat \<Rightarrow> ledger \<Rightarrow> ledger" where
  "ng_delete_alloc profile ptr L =
     (if \<not> profile \<or> ptr = 0 then L
      else (case free_record ptr (allocs L) of
              None \<Rightarrow> L
            | Some as \<Rightarrow> L\<lparr>allocs := as, balance := balance L - 1\<rparr>))"

text \<open>The allocation routines; \<open>ptr\<close> is what \<open>malloc\<close>, \<open>calloc\<close> or \<open>realloc\<close> returned.\<close>

definition ng_malloc :: "bool \<Rightarrow> int \<Rightarrow> string \<Rightarrow> nat \<Rightarrow> ledger \<Rightarrow> ledger" where
  "ng_malloc profile now tag ptr L = ng_add_alloc profile now tag ptr L"

definition ng_calloc :: "bool \<Rightarrow> int \<Rightarrow> string \<Rightarrow> nat \<Rightarrow> ledger \<Rightarrow> ledger" where
  "ng_calloc profile now tag ptr L = ng_add_alloc profile now tag ptr L"

definition ng_realloc :: "bool \<Rightarrow> int \<Rightarrow> string \<Rightarrow> nat \<Rightarrow> nat \<Rightarrow> ledger \<Rightarrow> ledger" where
  "ng_realloc profile now tag old ptr L = ng_add_alloc profile now tag ptr (ng_delete_alloc profile old L)"

definition ng_free :: "bool \<Rightarrow> nat \<Rightarrow> ledger \<Rightarrow> ledger" where
  "ng_free profile ptr L = ng_delete_alloc profile ptr L"

text \<open>The blocks that are held, numbered from 1, with their tags and times.\<close>

definition ng_dump :: "ledger \<Rightarrow> (nat \<times> string \<times> int) list" where
  "ng_dump L =
     (let held = filter (\<lambda>a. a_ptr a \<noteq> 0) (allocs L)
      in zip [1 ..< length held + 1] (map (\<lambda>a. (a_tag a, a_time a)) held))"

section \<open>The records as a bag\<close>

definition held :: "alloc_record list \<Rightarrow> nat multiset" where
  "held as = mset (filter (\<lambda>p. p \<noteq> 0) (map a_ptr as))"

definition ledger_live :: "ledger \<Rightarrow> nat multiset" where
  "ledger_live L = held (allocs L)"

lemma held_simps [simp]: "held [] = {#}" "held (a # as) = ref_bag (a_ptr a) + held as"
  by (simp_all add: held_def)

lemma held_store: "held (store_record r as) = held as + ref_bag (a_ptr r)"
  by (induction as) (auto simp: ac_simps)

lemma held_free: "free_record p as = Some as' \<Longrightarrow> p \<noteq> 0 \<Longrightarrow> held as = add_mset p (held as')"
  by (induction as arbitrary: as') (auto split: if_split_asm)

lemma free_record_None: "free_record p as = None \<longleftrightarrow> p \<notin> a_ptr ` set as"
  by (induction as) auto

lemma held_iff: "p \<in># held as \<longleftrightarrow> p \<noteq> 0 \<and> p \<in> a_ptr ` set as"
  by (auto simp: held_def)

interpretation ledger: ref_table "ng_add_alloc True now tag" "ng_delete_alloc True" ledger_live
proof unfold_locales
  fix r s
  show "ledger_live (ng_add_alloc True now tag r s) = ledger_live s + ref_bag r"
    by (simp add: ledger_live_def ng_add_alloc_def held_store)
  show "ledger_live (ng_delete_alloc True r s) = ledger_live s - ref_bag r"
    using held_free [of r "allocs s"] free_record_None [of r "allocs s"] held_iff [of r "allocs s"]
    by (auto simp: ledger_live_def ng_delete_alloc_def diff_single_trivial split: option.splits)
qed

definition balanced :: "ledger \<Rightarrow> bool" where
  "balanced L \<longleftrightarrow> balance L = int (size (ledger_live L))"

lemma balanced_add: "balanced L \<Longrightarrow> balanced (ng_add_alloc True now tag p L)"
  by (auto simp: balanced_def ledger_live_def ng_add_alloc_def held_store)

lemma balanced_delete: "balanced L \<Longrightarrow> balanced (ng_delete_alloc True p L)"
  by (auto simp: balanced_def ledger_live_def ng_delete_alloc_def dest!: held_free split: option.splits)

lemma length_ng_dump: "length (ng_dump L) = size (ledger_live L)"
proof -
  have "length (filter (\<lambda>a. a_ptr a \<noteq> 0) as) = size (held as)" for as
    by (induction as) auto
  then show ?thesis by (simp add: ng_dump_def ledger_live_def Let_def del: upt_Suc)
qed

section \<open>Runs\<close>

datatype alloc_op =
    Malloc string nat
  | Calloc string nat
  | Realloc string nat nat
  | Free nat
  | AddRef string nat
  | DeleteRef nat

fun alloc_step :: "int \<Rightarrow> alloc_op \<Rightarrow> ledger \<Rightarrow> ledger" where
  "alloc_step now (Malloc tag p) L = ng_malloc True now tag p L"
| "alloc_step now (Calloc tag p) L = ng_calloc True now tag p L"
| "alloc_step now (Realloc tag old p) L = ng_realloc True now tag old p L"
| "alloc_step now (Free p) L = ng_free True p L"
| "alloc_step now (AddRef tag p) L = ng_add_alloc True now tag p L"
| "alloc_step now (DeleteRef p) L = ng_delete_alloc True p L"

text \<open>The same on a bag.\<close>

fun bag_step :: "alloc_op \<Rightarrow> nat multiset \<Rightarrow> nat multiset" where
  "bag_step (Malloc tag p) B = B + ref_bag p"
| "bag_step (Calloc tag p) B = B + ref_bag p"
| "bag_step (Realloc tag old p) B = B - ref_bag old + ref_bag p"
| "bag_step (Free p) B = B - ref_bag p"
| "bag_step (AddRef tag p) B = B + ref_bag p"
| "bag_step (DeleteRef p) B = B - ref_bag p"

definition run_allocs :: "(int \<times> alloc_op) list \<Rightarrow> ledger" where
  "run_allocs ops = fold (\<lambda>(now, s). alloc_step now s) ops \<lparr>allocs = [], balance = 0\<rparr>"

definition run_bag :: "(int \<times> alloc_op) list \<Rightarrow> nat multiset" where
  "run_bag ops = fold (\<lambda>(now, s). bag_step s) ops {#}"

lemmas alloc_op_defs = ng_malloc_def ng_calloc_def ng_realloc_def ng_free_def

lemma live_alloc_step: "ledger_live (alloc_step now s L) = bag_step s (ledger_live L)"
  by (cases s) (simp_all add: alloc_op_defs ledger.live_add ledger.live_del)

lemma balanced_alloc_step: "balanced L \<Longrightarrow> balanced (alloc_step now s L)"
  by (cases s) (simp_all add: alloc_op_defs balanced_add balanced_delete)

text \<open>C39: with the profile on, the array of records implements a bag of pointers: after any sequence of
  allocations, releases and references it holds exactly the pointers that were added and not yet
  deleted, with their multiplicity; the balance is their number, and a dump lists as many.\<close>

theorem alloc_profile_exact:
  "ledger_live (run_allocs ops) = run_bag ops \<and> balance (run_allocs ops) = int (size (run_bag ops)) \<and>
   length (ng_dump (run_allocs ops)) = size (run_bag ops)"
proof -
  have "ledger_live (fold (\<lambda>(now, s). alloc_step now s) ops M) = fold (\<lambda>(now, s). bag_step s) ops (ledger_live M) \<and>
      balanced (fold (\<lambda>(now, s). alloc_step now s) ops M)" if "balanced M" for M
    using that by (induction ops arbitrary: M) (auto simp: live_alloc_step balanced_alloc_step)
  from this [of "\<lparr>allocs = [], balance = 0\<rparr>"] show ?thesis
    by (simp add: run_allocs_def run_bag_def balanced_def ledger_live_def length_ng_dump)
qed

end
