(* ===== verification/Ng_Jni.thy ===== *)
theory Ng_Jni
  imports Ng_Alloc Ng_Types
begin

text \<open>
  The JNI glue of netguard.c and sunproxy.c: how the engine calls the Java service. The virtual
  machine is the environment \<open>jvm\<close>; the state has the local references the engine holds, the method
  and field ids it has cached, the memory profile, and the calls made so far. Handing a null id or a
  null object to the virtual machine, and writing outside a buffer, is \<open>None\<close>.
\<close>

section \<open>The virtual machine\<close>

datatype jvalue = JInt int | JLong int | JBool bool | JObj nat

datatype jni_call =
    GetObjectClass nat
  | NewStringUTF bytes nat
  | NewObject string nat
  | GetObjectField nat string nat
  | GetIntField nat string
  | SetField nat string jvalue
  | CallMethod string "jvalue list"
  | ExceptionClear nat
  | DeleteLocalRef nat
  | FindClass string nat
  | NewGlobalRef nat nat
  | DeleteGlobalRef nat
  | GetStringUTFChars nat
  | ReleaseStringUTFChars nat

record jni_state =
  j_calls :: nat
  j_refs :: "nat list"
  j_ids :: "string list"
  j_log :: "jni_call list"
  j_ledger :: ledger

text \<open>What the n-th call answers: a reference (0 is null), the pending exception, whether an id is
  found, a truth value, a number, the characters of a string (a pointer and the text) and the clock.\<close>

record jvm =
  jv_ref :: "nat \<Rightarrow> nat"
  jv_thrown :: "nat \<Rightarrow> nat"
  jv_found :: "nat \<Rightarrow> string \<Rightarrow> bool"
  jv_bool :: "nat \<Rightarrow> bool"
  jv_int :: "nat \<Rightarrow> int"
  jv_chars :: "nat \<Rightarrow> (nat \<times> bytes) option"
  jv_time :: "nat \<Rightarrow> int"
  jv_ms :: "nat \<Rightarrow> int"
  jv_sdk :: int
  jv_profile :: bool

definition jni_answer :: "(nat \<Rightarrow> 'a) \<Rightarrow> jni_state \<Rightarrow> 'a \<times> jni_state" where
  "jni_answer f j = (f (j_calls j), j\<lparr>j_calls := j_calls j + 1\<rparr>)"

definition jni_record :: "jni_call \<Rightarrow> jni_state \<Rightarrow> jni_state" where
  "jni_record c j = j\<lparr>j_log := j_log j @ [c]\<rparr>"

definition new_local :: "nat \<Rightarrow> jni_state \<Rightarrow> jni_state" where
  "new_local r j = (if r = 0 then j else j\<lparr>j_refs := r # j_refs j\<rparr>)"

definition delete_local :: "nat \<Rightarrow> jni_state \<Rightarrow> jni_state" where
  "delete_local r j =
     (let j = jni_record (DeleteLocalRef r) j in if r = 0 then j else j\<lparr>j_refs := remove1 r (j_refs j)\<rparr>)"

text \<open>A call that returns a local reference.\<close>

definition jni_ref :: "jvm \<Rightarrow> (nat \<Rightarrow> jni_call) \<Rightarrow> jni_state \<Rightarrow> nat \<times> jni_state" where
  "jni_ref J c j = (let (r, j) = jni_answer (jv_ref J) j in (r, new_local r (jni_record (c r) j)))"

text \<open>\<open>ng_add_alloc\<close> and \<open>ng_delete_alloc\<close> on the profile.\<close>

definition track :: "jvm \<Rightarrow> string \<Rightarrow> nat \<Rightarrow> jni_state \<Rightarrow> jni_state" where
  "track J tag r j =
     (let (now, j) = jni_answer (jv_time J) j
      in j\<lparr>j_ledger := ng_add_alloc (jv_profile J) now tag r (j_ledger j)\<rparr>)"

definition untrack :: "jvm \<Rightarrow> nat \<Rightarrow> jni_state \<Rightarrow> jni_state" where
  "untrack J r j = j\<lparr>j_ledger := ng_delete_alloc (jv_profile J) r (j_ledger j)\<rparr>"

section \<open>Helpers\<close>

definition jniCheckException :: "jvm \<Rightarrow> jni_state \<Rightarrow> bool \<times> jni_state" where
  "jniCheckException J j =
     (let (ex, j) = jni_answer (jv_thrown J) j
      in if ex \<noteq> 0 then (True, untrack J ex (delete_local ex (jni_record (ExceptionClear ex) (new_local ex j))))
         else (False, j))"

definition jniGetMethodID :: "jvm \<Rightarrow> nat \<Rightarrow> string \<Rightarrow> jni_state \<Rightarrow> (bool \<times> jni_state) option" where
  "jniGetMethodID J cls name j =
     (if cls = 0 then None
      else let (ok, j) = jni_answer (\<lambda>k. jv_found J k name) j
           in Some (if ok then (True, j) else (False, snd (jniCheckException J j))))"

definition jniGetFieldID :: "jvm \<Rightarrow> string \<Rightarrow> jni_state \<Rightarrow> bool \<times> jni_state" where
  "jniGetFieldID J name j = jni_answer (\<lambda>k. jv_found J k name) j"

text \<open>The ids kept in static variables: a method id, and a group of field ids that is looked up while
  the first one is null.\<close>

definition method_id :: "jvm \<Rightarrow> nat \<Rightarrow> string \<Rightarrow> jni_state \<Rightarrow> jni_state option" where
  "method_id J cls name j =
     (if name \<in> set (j_ids j) then Some j
      else do {
        (ok, j) \<leftarrow> jniGetMethodID J cls name j;
        Some (if ok then j\<lparr>j_ids := name # j_ids j\<rparr> else j) })"

fun get_field_ids :: "jvm \<Rightarrow> string list \<Rightarrow> jni_state \<Rightarrow> jni_state" where
  "get_field_ids J [] j = j"
| "get_field_ids J (name # names) j =
     (let (ok, j) = jniGetFieldID J name j
      in get_field_ids J names (if ok then j\<lparr>j_ids := name # j_ids j\<rparr> else j))"

definition field_ids :: "jvm \<Rightarrow> string list \<Rightarrow> jni_state \<Rightarrow> jni_state" where
  "field_ids J names j = (if hd names \<in> set (j_ids j) then j else get_field_ids J names j)"

definition get_class :: "jvm \<Rightarrow> jni_state \<Rightarrow> nat \<times> jni_state" where
  "get_class J j = jni_ref J GetObjectClass j"

definition new_string :: "jvm \<Rightarrow> bytes \<Rightarrow> jni_state \<Rightarrow> nat \<times> jni_state" where
  "new_string J s j = jni_ref J (NewStringUTF s) j"

definition jniNewObject :: "jvm \<Rightarrow> string \<Rightarrow> jni_state \<Rightarrow> (nat \<times> jni_state) option" where
  "jniNewObject J ctor j =
     (if ctor \<notin> set (j_ids j) then None
      else let (r, j) = jni_ref J (NewObject ctor) j
           in Some (r, if r = 0 then j else snd (jniCheckException J j)))"

definition set_field :: "nat \<Rightarrow> string \<Rightarrow> jvalue \<Rightarrow> jni_state \<Rightarrow> jni_state option" where
  "set_field obj name v j =
     (if obj = 0 \<or> name \<notin> set (j_ids j) then None else Some (jni_record (SetField obj name v) j))"

definition call_method :: "string \<Rightarrow> jvalue list \<Rightarrow> jni_state \<Rightarrow> jni_state option" where
  "call_method name args j = (if name \<notin> set (j_ids j) then None else Some (jni_record (CallMethod name args) j))"

section \<open>Reports\<close>

text \<open>\<open>report_exit\<close> formats its message into 1024 bytes; \<open>report_error\<close> is the same with a number.\<close>

definition report :: "jvm \<Rightarrow> string \<Rightarrow> jvalue list \<Rightarrow> bytes \<Rightarrow> jni_state \<Rightarrow> jni_state option" where
  "report J method args line j = do {
     let (cls, j) = get_class J j;
     let j = track J ''cls'' cls j;
     (ok, j) \<leftarrow> jniGetMethodID J cls method j;
     if length line \<ge> 1024 \<or> \<not> ok then None
     else do {
       let (reason, j) = new_string J line j;
       let j = track J ''jreason'' reason j;
       let j = jni_record (CallMethod method (args @ [JObj reason])) j;
       let j = snd (jniCheckException J j);
       let j = (if reason \<noteq> 0 then untrack J reason (delete_local reason j) else j);
       Some (untrack J cls (delete_local cls j)) } }"

definition report_exit :: "jvm \<Rightarrow> bytes \<Rightarrow> jni_state \<Rightarrow> jni_state option" where
  "report_exit J line j = report J ''nativeExit'' [] line j"

definition report_error :: "jvm \<Rightarrow> int \<Rightarrow> bytes \<Rightarrow> jni_state \<Rightarrow> jni_state option" where
  "report_error J error line j = report J ''nativeError'' [JInt error] line j"

definition protect_socket :: "jvm \<Rightarrow> int \<Rightarrow> jni_state \<Rightarrow> (int \<times> jni_state) option" where
  "protect_socket J socket j =
     (if jv_sdk J \<ge> 21 then Some (0, j)
      else let (cls, j) = get_class J j;
               j = track J ''cls'' cls j
           in if cls = 0 then Some (-1, j)
              else do {
                j \<leftarrow> method_id J cls ''protect'' j;
                if ''protect'' \<notin> set (j_ids j) then Some (-1, j)
                else do {
                  j \<leftarrow> call_method ''protect'' [JInt socket] j;
                  let (ok, j) = jni_answer (jv_bool J) j;
                  let j = snd (jniCheckException J j);
                  if \<not> ok then Some (-1, j)
                  else Some (0, untrack J cls (delete_local cls j)) } })"

definition log_packet :: "jvm \<Rightarrow> nat \<Rightarrow> jni_state \<Rightarrow> jni_state option" where
  "log_packet J packet j = do {
     let (cls, j) = get_class J j;
     let j = track J ''clsService'' cls j;
     j \<leftarrow> method_id J cls ''logPacket'' j;
     j \<leftarrow> call_method ''logPacket'' [JObj packet] j;
     let j = snd (jniCheckException J j);
     let j = delete_local packet (delete_local cls j);
     Some (untrack J packet (untrack J cls j)) }"

definition RR_FIELDS :: "string list" where
  "RR_FIELDS = [''RR.Time'', ''RR.QName'', ''RR.AName'', ''RR.Resource'', ''RR.TTL'', ''RR.uid'']"

definition dns_resolved :: "jvm \<Rightarrow> nat \<Rightarrow> bytes \<Rightarrow> bytes \<Rightarrow> bytes \<Rightarrow> int \<Rightarrow> int \<Rightarrow> jni_state \<Rightarrow> jni_state option" where
  "dns_resolved J clsRR qname aname resource ttl uid j = do {
     let (cls, j) = get_class J j;
     let j = track J ''clsService'' cls j;
     j \<leftarrow> method_id J cls ''dnsResolved'' j;
     j \<leftarrow> method_id J clsRR ''RR.<init>'' j;
     (rr, j) \<leftarrow> jniNewObject J ''RR.<init>'' j;
     let j = track J ''jrr'' rr j;
     let j = field_ids J RR_FIELDS j;
     let (now, j) = jni_answer (jv_time J) j;
     let (q, j) = new_string J qname j;
     let (a, j) = new_string J aname j;
     let (r, j) = new_string J resource j;
     let j = track J ''jresource'' r (track J ''janame'' a (track J ''jqname'' q j));
     j \<leftarrow> set_field rr ''RR.Time'' (JLong (now * 1000)) j;
     j \<leftarrow> set_field rr ''RR.QName'' (JObj q) j;
     j \<leftarrow> set_field rr ''RR.AName'' (JObj a) j;
     j \<leftarrow> set_field rr ''RR.Resource'' (JObj r) j;
     j \<leftarrow> set_field rr ''RR.TTL'' (JInt ttl) j;
     j \<leftarrow> set_field rr ''RR.uid'' (JInt uid) j;
     j \<leftarrow> call_method ''dnsResolved'' [JObj rr] j;
     let j = snd (jniCheckException J j);
     let j = delete_local cls (delete_local rr (delete_local q (delete_local a (delete_local r j))));
     Some (untrack J cls (untrack J rr (untrack J q (untrack J a (untrack J r j))))) }"

definition USAGE_FIELDS :: "string list" where
  "USAGE_FIELDS = [''Usage.Time'', ''Usage.Version'', ''Usage.Protocol'', ''Usage.DAddr'', ''Usage.DPort'',
     ''Usage.Uid'', ''Usage.Sent'', ''Usage.Received'']"

definition account_usage :: "jvm \<Rightarrow> nat \<Rightarrow> int \<Rightarrow> int \<Rightarrow> bytes \<Rightarrow> int \<Rightarrow> int \<Rightarrow> int \<Rightarrow> int \<Rightarrow> jni_state \<Rightarrow> jni_state option" where
  "account_usage J clsUsage version protocol daddr dport uid sent received j = do {
     let (cls, j) = get_class J j;
     let j = track J ''clsService'' cls j;
     j \<leftarrow> method_id J cls ''accountUsage'' j;
     j \<leftarrow> method_id J clsUsage ''Usage.<init>'' j;
     (u, j) \<leftarrow> jniNewObject J ''Usage.<init>'' j;
     let j = track J ''jusage'' u j;
     let j = field_ids J USAGE_FIELDS j;
     let (now, j) = jni_answer (jv_time J) j;
     let (d, j) = new_string J daddr j;
     let j = track J ''jdaddr'' d j;
     j \<leftarrow> set_field u ''Usage.Time'' (JLong (now * 1000)) j;
     j \<leftarrow> set_field u ''Usage.Version'' (JInt version) j;
     j \<leftarrow> set_field u ''Usage.Protocol'' (JInt protocol) j;
     j \<leftarrow> set_field u ''Usage.DAddr'' (JObj d) j;
     j \<leftarrow> set_field u ''Usage.DPort'' (JInt dport) j;
     j \<leftarrow> set_field u ''Usage.Uid'' (JInt uid) j;
     j \<leftarrow> set_field u ''Usage.Sent'' (JLong sent) j;
     j \<leftarrow> set_field u ''Usage.Received'' (JLong received) j;
     j \<leftarrow> call_method ''accountUsage'' [JObj u] j;
     let j = snd (jniCheckException J j);
     let j = delete_local cls (delete_local u (delete_local d j));
     Some (untrack J cls (untrack J u (untrack J d j))) }"

section \<open>Questions\<close>

definition java_domain_blocked :: "jvm \<Rightarrow> bytes \<Rightarrow> jni_state \<Rightarrow> (bool \<times> jni_state) option" where
  "java_domain_blocked J name j = do {
     let (cls, j) = get_class J j;
     let j = track J ''clsService'' cls j;
     j \<leftarrow> method_id J cls ''isDomainBlocked'' j;
     let (n, j) = new_string J name j;
     let j = track J ''jname'' n j;
     j \<leftarrow> call_method ''isDomainBlocked'' [JObj n] j;
     let (blocked, j) = jni_answer (jv_bool J) j;
     let j = snd (jniCheckException J j);
     let j = delete_local cls (delete_local n j);
     Some (blocked, untrack J cls (untrack J n j)) }"

definition get_uid_q :: "jvm \<Rightarrow> int \<Rightarrow> int \<Rightarrow> bytes \<Rightarrow> int \<Rightarrow> bytes \<Rightarrow> int \<Rightarrow> jni_state \<Rightarrow> (int \<times> jni_state) option" where
  "get_uid_q J version protocol source sport dest dport j = do {
     let (cls, j) = get_class J j;
     let j = track J ''clsService'' cls j;
     j \<leftarrow> method_id J cls ''getUidQ'' j;
     let (s, j) = new_string J source j;
     let (d, j) = new_string J dest j;
     let j = track J ''jdest'' d (track J ''jsource'' s j);
     j \<leftarrow> call_method ''getUidQ'' [JInt version, JInt protocol, JObj s, JInt sport, JObj d, JInt dport] j;
     let (uid, j) = jni_answer (jv_int J) j;
     let j = snd (jniCheckException J j);
     let j = delete_local cls (delete_local s (delete_local d j));
     Some (uid, untrack J cls (untrack J s (untrack J d j))) }"

definition PACKET_FIELDS :: "string list" where
  "PACKET_FIELDS = [''Packet.time'', ''Packet.version'', ''Packet.protocol'', ''Packet.flags'', ''Packet.saddr'',
     ''Packet.sport'', ''Packet.daddr'', ''Packet.dport'', ''Packet.data'', ''Packet.uid'', ''Packet.allowed'']"

text \<open>The fields of the Java object \<open>Packet\<close>, with the addresses and the data as text.\<close>

record java_packet =
  jp_version :: int
  jp_protocol :: int
  jp_flags :: bytes
  jp_source :: bytes
  jp_sport :: int
  jp_dest :: bytes
  jp_dport :: int
  jp_data :: bytes
  jp_uid :: int

definition create_packet :: "jvm \<Rightarrow> nat \<Rightarrow> java_packet \<Rightarrow> bool \<Rightarrow> jni_state \<Rightarrow> (nat \<times> jni_state) option" where
  "create_packet J clsPacket p allowed j = do {
     j \<leftarrow> method_id J clsPacket ''Packet.<init>'' j;
     (o1, j) \<leftarrow> jniNewObject J ''Packet.<init>'' j;
     let j = track J ''jpacket'' o1 j;
     let j = field_ids J PACKET_FIELDS j;
     let (t, j) = jni_answer (jv_ms J) j;
     let (f, j) = new_string J (jp_flags p) j;
     let (s, j) = new_string J (jp_source p) j;
     let (d, j) = new_string J (jp_dest p) j;
     let (x, j) = new_string J (jp_data p) j;
     let j = track J ''jdata'' x (track J ''jdest'' d (track J ''jsource'' s (track J ''jflags'' f j)));
     j \<leftarrow> set_field o1 ''Packet.time'' (JLong t) j;
     j \<leftarrow> set_field o1 ''Packet.version'' (JInt (jp_version p)) j;
     j \<leftarrow> set_field o1 ''Packet.protocol'' (JInt (jp_protocol p)) j;
     j \<leftarrow> set_field o1 ''Packet.flags'' (JObj f) j;
     j \<leftarrow> set_field o1 ''Packet.saddr'' (JObj s) j;
     j \<leftarrow> set_field o1 ''Packet.sport'' (JInt (jp_sport p)) j;
     j \<leftarrow> set_field o1 ''Packet.daddr'' (JObj d) j;
     j \<leftarrow> set_field o1 ''Packet.dport'' (JInt (jp_dport p)) j;
     j \<leftarrow> set_field o1 ''Packet.data'' (JObj x) j;
     j \<leftarrow> set_field o1 ''Packet.uid'' (JInt (jp_uid p)) j;
     j \<leftarrow> set_field o1 ''Packet.allowed'' (JBool allowed) j;
     let j = delete_local f (delete_local s (delete_local d (delete_local x j)));
     Some (o1, untrack J f (untrack J s (untrack J d (untrack J x j)))) }"

definition create_packet_ulysses :: "jvm \<Rightarrow> nat \<Rightarrow> java_packet \<Rightarrow> bytes \<Rightarrow> bool \<Rightarrow> jni_state \<Rightarrow> (nat \<times> jni_state) option" where
  "create_packet_ulysses J clsPacket p hostname tls j = do {
     (o1, j) \<leftarrow> create_packet J clsPacket p False j;
     let j = field_ids J [''Packet.hostname'', ''Packet.tls''] j;
     let (h, j) = new_string J hostname j;
     let j = track J ''jhostname'' h j;
     j \<leftarrow> set_field o1 ''Packet.hostname'' (JObj h) j;
     j \<leftarrow> set_field o1 ''Packet.tls'' (JBool tls) j;
     Some (o1, untrack J h (delete_local h j)) }"

text \<open>The address of the answer: \<open>strcpy\<close> into the 47 bytes of \<open>raddr\<close>. The characters are tracked as
  well, under their pointer.\<close>

definition java_raddr :: "jvm \<Rightarrow> nat \<Rightarrow> jni_state \<Rightarrow> (bytes \<times> jni_state) option" where
  "java_raddr J r j =
     (if r = 0 then Some ([], j)
      else (case jni_answer (jv_chars J) j of
              (None, j) \<Rightarrow> None
            | (Some (ptr, chars), j) \<Rightarrow>
                if length (cstr chars) \<ge> 47 then None
                else Some (cstr chars, untrack J ptr (track J ''raddr'' ptr j))))"

text \<open>What the object \<open>Allowed\<close> says; a null object is no.\<close>

definition java_allowed :: "jvm \<Rightarrow> nat \<Rightarrow> jni_state \<Rightarrow> (allowed option \<times> jni_state) option" where
  "java_allowed J a j =
     (if a = 0 then Some (None, j)
      else let j = field_ids J [''Allowed.raddr'', ''Allowed.rport''] j
           in if ''Allowed.raddr'' \<notin> set (j_ids j) \<or> ''Allowed.rport'' \<notin> set (j_ids j) then None
              else do {
                let (r, j) = jni_ref J (GetObjectField a ''Allowed.raddr'') j;
                let j = track J ''jraddr'' r j;
                (addr, j) \<leftarrow> java_raddr J r j;
                let (port, j) = jni_answer (jv_int J) (jni_record (GetIntField a ''Allowed.rport'') j);
                Some (Some \<lparr>raddr = addr, rport = of_int port\<rparr>, untrack J r (delete_local r j)) })"

definition java_address_allowed :: "jvm \<Rightarrow> nat \<Rightarrow> jni_state \<Rightarrow> (allowed option \<times> jni_state) option" where
  "java_address_allowed J packet j = do {
     let (cls, j) = get_class J j;
     let j = track J ''clsService'' cls j;
     j \<leftarrow> method_id J cls ''isAddressAllowed'' j;
     j \<leftarrow> call_method ''isAddressAllowed'' [JObj packet] j;
     let (a, j) = jni_answer (jv_ref J) j;
     let j = track J ''jallowed'' a (new_local a j);
     let j = snd (jniCheckException J j);
     (res, j) \<leftarrow> java_allowed J a j;
     let j = delete_local a (delete_local cls (delete_local packet j));
     Some (res, untrack J a (untrack J cls (untrack J packet j))) }"

text \<open>The hosts file: the answer is the address as text, which \<open>inet_pton\<close> turns into bytes. The class
  is tracked, the strings are not.\<close>

definition hosts_address :: "jvm \<Rightarrow> (bytes \<Rightarrow> bytes) \<Rightarrow> nat \<Rightarrow> jni_state \<Rightarrow> (bytes option \<times> jni_state) option" where
  "hosts_address J inet_pton a j =
     (if a = 0 then Some (None, j)
      else (case jni_answer (jv_chars J) j of
              (None, j) \<Rightarrow> None
            | (Some (_, chars), j) \<Rightarrow> Some (Some (inet_pton chars), delete_local a j)))"

definition address_from_hosts :: "jvm \<Rightarrow> (bytes \<Rightarrow> bytes) \<Rightarrow> bytes \<Rightarrow> u16 \<Rightarrow> jni_state \<Rightarrow> (bytes option \<times> jni_state) option" where
  "address_from_hosts J inet_pton name qtype j = do {
     let (cls, j) = get_class J j;
     let j = track J ''clsService'' cls j;
     j \<leftarrow> method_id J cls ''addressFromHosts'' j;
     let (n, j) = new_string J name j;
     j \<leftarrow> call_method ''addressFromHosts'' [JObj n, JInt (if qtype = 1 then 4 else 6)] j;
     let (a, j) = jni_answer (jv_ref J) j;
     let j = snd (jniCheckException J (new_local a j));
     let j = delete_local n j;
     (res, j) \<leftarrow> hosts_address J inet_pton a j;
     Some (res, untrack J cls (delete_local cls j)) }"

end
