(* ===== verification/Ng_Jni_Props.thy ===== *)
theory Ng_Jni_Props
  imports Ng_Jni
begin

text \<open>
  The JNI glue gives back what it takes: every local reference of a report or a question is deleted
  again, and with the memory profile on its records are too.
\<close>

section \<open>The two tables\<close>

definition refs :: "jni_state \<Rightarrow> nat multiset" where
  "refs j = mset (j_refs j)"

definition recs :: "jni_state \<Rightarrow> nat multiset" where
  "recs j = ledger_live (j_ledger j)"

interpretation locals: ref_table new_local delete_local refs
  by unfold_locales (simp_all add: refs_def new_local_def delete_local_def jni_record_def ref_bag_def Let_def)

interpretation records: ref_table "track (J\<lparr>jv_profile := True\<rparr>) tag" "untrack (J\<lparr>jv_profile := True\<rparr>)" recs
  by unfold_locales
    (simp_all add: recs_def track_def untrack_def jni_answer_def ledger.live_add ledger.live_del)

lemma profile_on: "jv_profile J \<Longrightarrow> J\<lparr>jv_profile := True\<rparr> = J"
  by simp

text \<open>What the single operations do to the tables.\<close>

lemma refs_simps [simp]:
  "refs (j\<lparr>j_calls := n\<rparr>) = refs j" "refs (j\<lparr>j_ids := i\<rparr>) = refs j" "refs (j\<lparr>j_log := l\<rparr>) = refs j"
  "refs (j\<lparr>j_ledger := m\<rparr>) = refs j" "refs (jni_record c j) = refs j" "refs (track J tag r j) = refs j"
  "refs (untrack J r j) = refs j"
  "refs (new_local r j) = refs j + ref_bag r" "refs (delete_local r j) = refs j - ref_bag r"
  by (simp_all add: locals.live_add locals.live_del)
    (simp_all add: refs_def jni_record_def track_def untrack_def jni_answer_def)

lemma recs_simps [simp]:
  "recs (j\<lparr>j_calls := n\<rparr>) = recs j" "recs (j\<lparr>j_ids := i\<rparr>) = recs j" "recs (j\<lparr>j_log := l\<rparr>) = recs j"
  "recs (j\<lparr>j_refs := m\<rparr>) = recs j" "recs (jni_record c j) = recs j"
  "recs (new_local r j) = recs j" "recs (delete_local r j) = recs j"
  by (simp_all add: recs_def jni_record_def new_local_def delete_local_def Let_def)

lemma recs_profile:
  assumes "jv_profile J"
  shows "recs (track J tag r j) = recs j + ref_bag r" "recs (untrack J r j) = recs j - ref_bag r"
  using records.live_add [of J tag r j] records.live_del [of J r j] profile_on [OF assms] by simp_all

lemma jni_answer_tables: "jni_answer f j = (x, j') \<Longrightarrow> refs j' = refs j \<and> recs j' = recs j"
  by (auto simp: jni_answer_def)

lemma jni_ref_tables: "jni_ref J c j = (r, j') \<Longrightarrow> refs j' = refs j + ref_bag r \<and> recs j' = recs j"
  by (auto simp: jni_ref_def jni_answer_def)

lemma refs_exception [simp]: "refs (snd (jniCheckException J j)) = refs j"
  by (simp add: jniCheckException_def jni_answer_def)

definition no_exception :: "jvm \<Rightarrow> bool" where
  "no_exception J \<longleftrightarrow> (\<forall>k. jv_thrown J k = 0)"

lemma recs_exception: "no_exception J \<Longrightarrow> recs (snd (jniCheckException J j)) = recs j"
  by (simp add: jniCheckException_def jni_answer_def no_exception_def)

lemma jniGetMethodID_refs: "jniGetMethodID J cls name j = Some (ok, j') \<Longrightarrow> refs j' = refs j"
  by (auto simp: jniGetMethodID_def jni_answer_def Let_def split: if_split_asm)

lemma method_id_refs: "method_id J cls name j = Some j' \<Longrightarrow> refs j' = refs j"
  by (auto simp: method_id_def bind_eq_Some_conv dest: jniGetMethodID_refs split: if_split_asm)

lemma get_field_ids_refs: "refs (get_field_ids J names j) = refs j"
  by (induction names arbitrary: j) (auto simp: jniGetFieldID_def jni_answer_def Let_def)

lemma field_ids_refs [simp]: "refs (field_ids J names j) = refs j"
  by (simp add: field_ids_def get_field_ids_refs)

lemma new_object_refs: "jniNewObject J ctor j = Some (r, j') \<Longrightarrow> refs j' = refs j + ref_bag r"
  by (auto simp: jniNewObject_def Let_def dest: jni_ref_tables split: if_split_asm prod.splits)

lemma set_field_tables: "set_field obj name v j = Some j' \<Longrightarrow> refs j' = refs j \<and> recs j' = recs j"
  by (auto simp: set_field_def split: if_split_asm)

lemma call_method_tables: "call_method name args j = Some j' \<Longrightarrow> refs j' = refs j \<and> recs j' = recs j"
  by (auto simp: call_method_def split: if_split_asm)

lemmas jni_refs_rules =
  jni_answer_tables [THEN conjunct1] jni_answer_tables [OF sym, THEN conjunct1]
  jni_ref_tables [THEN conjunct1] jni_ref_tables [OF sym, THEN conjunct1]
  method_id_refs jniGetMethodID_refs new_object_refs set_field_tables [THEN conjunct1] call_method_tables [THEN conjunct1]

section \<open>References are released\<close>

lemma account_usage_refs:
  "yields (account_usage J cls version protocol daddr dport uid sent received j) (\<lambda>j'. refs j' = refs j)"
  unfolding account_usage_def get_class_def new_string_def
  by (intro yields_intro) (auto dest!: jni_refs_rules)

lemma dns_resolved_refs:
  "yields (dns_resolved J cls qname aname resource ttl uid j) (\<lambda>j'. refs j' = refs j)"
  unfolding dns_resolved_def get_class_def new_string_def
  by (intro yields_intro) (auto dest!: jni_refs_rules)

lemma report_refs: "yields (report J method args line j) (\<lambda>j'. refs j' = refs j)"
  unfolding report_def get_class_def new_string_def
  by (intro yields_intro) (auto dest!: jni_refs_rules)

lemma log_packet_refs: "yields (log_packet J packet j) (\<lambda>j'. refs j' = refs j - ref_bag packet)"
  unfolding log_packet_def get_class_def
  by (intro yields_intro) (auto dest!: jni_refs_rules)

lemma java_domain_blocked_refs: "yields (java_domain_blocked J name j) (\<lambda>(b, j'). refs j' = refs j)"
  unfolding java_domain_blocked_def get_class_def new_string_def
  by (intro yields_intro) (auto dest!: jni_refs_rules)

lemma get_uid_q_refs: "yields (get_uid_q J version protocol source sport dest dport j) (\<lambda>(u, j'). refs j' = refs j)"
  unfolding get_uid_q_def get_class_def new_string_def
  by (intro yields_intro) (auto dest!: jni_refs_rules)

lemma create_packet_refs: "yields (create_packet J cls p allowed j) (\<lambda>(r, j'). refs j' = refs j + ref_bag r)"
  unfolding create_packet_def new_string_def
  by (intro yields_intro) (auto dest!: jni_refs_rules)

lemma create_packet_ulysses_refs:
  "yields (create_packet_ulysses J cls p hostname tls j) (\<lambda>(r, j'). refs j' = refs j + ref_bag r)"
  unfolding create_packet_ulysses_def new_string_def
  by (intro yields_intro) (auto dest!: jni_refs_rules create_packet_refs [THEN yieldsD])

lemma java_raddr_refs: "java_raddr J r j = Some (a, j') \<Longrightarrow> refs j' = refs j"
  by (auto simp: java_raddr_def jni_answer_def split: if_split_asm option.splits)

lemma java_allowed_refs: "yields (java_allowed J a j) (\<lambda>(r, j'). refs j' = refs j)"
  unfolding java_allowed_def
  by (intro yields_intro) (auto dest!: jni_refs_rules java_raddr_refs)

lemma hosts_address_refs: "hosts_address J pton a j = Some (r, j') \<Longrightarrow> refs j' = refs j - ref_bag a"
  by (auto simp: hosts_address_def jni_answer_def split: if_split_asm option.splits)

lemma java_address_allowed_refs: "yields (java_address_allowed J packet j) (\<lambda>(a, j'). refs j' = refs j - ref_bag packet)"
  unfolding java_address_allowed_def get_class_def
  by (intro yields_intro) (auto dest!: jni_refs_rules java_allowed_refs [THEN yieldsD])

lemma address_from_hosts_refs: "yields (address_from_hosts J pton name qtype j) (\<lambda>(a, j'). refs j' = refs j)"
  unfolding address_from_hosts_def get_class_def new_string_def
  by (intro yields_intro) (auto dest!: jni_refs_rules hosts_address_refs)

section \<open>Records are released\<close>

text \<open>An exception object is deleted from the profile without having been added to it, so the following
  needs that Java throws nothing.\<close>

lemma recs_method_id: "no_exception J \<Longrightarrow> method_id J cls name j = Some j' \<Longrightarrow> recs j' = recs j"
  by (auto simp: method_id_def jniGetMethodID_def bind_eq_Some_conv Let_def recs_exception
      dest!: jni_answer_tables split: if_split_asm prod.splits)

lemma recs_field_ids [simp]: "recs (field_ids J names j) = recs j"
proof -
  have "recs (get_field_ids J names j) = recs j"
    by (induction names arbitrary: j) (auto simp: jniGetFieldID_def jni_answer_def Let_def)
  then show ?thesis by (simp add: field_ids_def)
qed

lemma recs_new_object: "no_exception J \<Longrightarrow> jniNewObject J ctor j = Some (r, j') \<Longrightarrow> recs j' = recs j"
  by (auto simp: jniNewObject_def Let_def recs_exception dest: jni_ref_tables split: if_split_asm prod.splits)

lemmas jni_recs_rules =
  jni_answer_tables [THEN conjunct2] jni_answer_tables [OF sym, THEN conjunct2]
  jni_ref_tables [THEN conjunct2] jni_ref_tables [OF sym, THEN conjunct2]
  set_field_tables [THEN conjunct2] call_method_tables [THEN conjunct2]

lemma account_usage_recs:
  assumes "jv_profile J" and "no_exception J"
  shows "yields (account_usage J cls version protocol daddr dport uid sent received j) (\<lambda>j'. recs j' = recs j)"
  unfolding account_usage_def get_class_def new_string_def
  by (intro yields_intro)
    (auto simp: recs_profile [OF assms(1)] recs_exception [OF assms(2)]
      dest!: jni_recs_rules recs_method_id [OF assms(2)] recs_new_object [OF assms(2)])

lemma create_packet_recs:
  assumes "jv_profile J" and "no_exception J"
  shows "yields (create_packet J cls p allowed j) (\<lambda>(r, j'). recs j' = recs j + ref_bag r)"
  unfolding create_packet_def new_string_def
  by (intro yields_intro)
    (auto simp: recs_profile [OF assms(1)] recs_exception [OF assms(2)]
      dest!: jni_recs_rules recs_method_id [OF assms(2)] recs_new_object [OF assms(2)])

lemma create_packet_ulysses_recs:
  assumes "jv_profile J" and "no_exception J"
  shows "yields (create_packet_ulysses J cls p hostname tls j) (\<lambda>(r, j'). recs j' = recs j + ref_bag r)"
  unfolding create_packet_ulysses_def new_string_def
  by (intro yields_intro)
    (auto simp: recs_profile [OF assms(1)] dest!: jni_recs_rules create_packet_recs [OF assms, THEN yieldsD])

lemma java_raddr_recs: "jv_profile J \<Longrightarrow> java_raddr J r j = Some (a, j') \<Longrightarrow> recs j' = recs j"
  by (auto simp: java_raddr_def jni_answer_def recs_profile split: if_split_asm option.splits)

lemma java_allowed_recs:
  assumes "jv_profile J"
  shows "yields (java_allowed J a j) (\<lambda>(r, j'). recs j' = recs j)"
  unfolding java_allowed_def
  by (intro yields_intro)
    (auto simp: recs_profile [OF assms] dest!: jni_recs_rules java_raddr_recs [OF assms])

lemma java_address_allowed_recs:
  assumes "jv_profile J" and "no_exception J"
  shows "yields (java_address_allowed J packet j) (\<lambda>(a, j'). recs j' = recs j - ref_bag packet)"
  unfolding java_address_allowed_def get_class_def
  by (intro yields_intro)
    (auto simp: recs_profile [OF assms(1)] recs_exception [OF assms(2)]
      dest!: jni_recs_rules recs_method_id [OF assms(2)] java_allowed_recs [OF assms(1), THEN yieldsD])

section \<open>What Java is told\<close>

text \<open>The objects and strings made, the fields set and the methods called, in their order.\<close>

definition told :: "jni_state \<Rightarrow> jni_call list" where
  "told j = filter (\<lambda>c. case c of
       NewObject _ _ \<Rightarrow> True | NewStringUTF _ _ \<Rightarrow> True | SetField _ _ _ \<Rightarrow> True | CallMethod _ _ \<Rightarrow> True | _ \<Rightarrow> False)
     (j_log j)"

lemma told_simps [simp]:
  "told (j\<lparr>j_calls := n\<rparr>) = told j" "told (j\<lparr>j_ids := i\<rparr>) = told j" "told (j\<lparr>j_refs := l\<rparr>) = told j"
  "told (j\<lparr>j_ledger := m\<rparr>) = told j" "told (track J tag r j) = told j" "told (untrack J r j) = told j"
  "told (new_local r j) = told j" "told (delete_local r j) = told j"
  by (simp_all add: told_def jni_record_def track_def untrack_def jni_answer_def new_local_def delete_local_def Let_def)

lemma told_record:
  "told (jni_record (SetField a b c) j) = told j @ [SetField a b c]"
  "told (jni_record (CallMethod n as) j) = told j @ [CallMethod n as]"
  "told (jni_record (ExceptionClear r) j) = told j"
  by (simp_all add: told_def jni_record_def)

lemma told_answer: "jni_answer f j = (x, j') \<Longrightarrow> told j' = told j"
  by (auto simp: jni_answer_def)

lemma told_ref:
  "jni_ref J (NewStringUTF b) j = (r, j') \<Longrightarrow> told j' = told j @ [NewStringUTF b r]"
  "jni_ref J (NewObject n) j = (r, j') \<Longrightarrow> told j' = told j @ [NewObject n r]"
  "jni_ref J GetObjectClass j = (r, j') \<Longrightarrow> told j' = told j"
  "jni_ref J (GetObjectField a n) j = (r, j') \<Longrightarrow> told j' = told j"
  by (auto simp: jni_ref_def jni_answer_def told_def new_local_def jni_record_def)

lemma told_exception [simp]: "told (snd (jniCheckException J j)) = told j"
  by (simp add: jniCheckException_def jni_answer_def told_record)

lemma told_method_id: "method_id J cls name j = Some j' \<Longrightarrow> told j' = told j"
  by (auto simp: method_id_def jniGetMethodID_def bind_eq_Some_conv Let_def
      dest!: told_answer split: if_split_asm prod.splits)

lemma told_field_ids [simp]: "told (field_ids J names j) = told j"
proof -
  have "told (get_field_ids J names j) = told j"
    by (induction names arbitrary: j) (auto simp: jniGetFieldID_def jni_answer_def Let_def)
  then show ?thesis by (simp add: field_ids_def)
qed

lemma told_new_object: "jniNewObject J ctor j = Some (r, j') \<Longrightarrow> told j' = told j @ [NewObject ctor r]"
  by (auto simp: jniNewObject_def Let_def dest: told_ref split: if_split_asm prod.splits)

lemma told_set_field: "set_field obj name v j = Some j' \<Longrightarrow> told j' = told j @ [SetField obj name v]"
  by (auto simp: set_field_def told_record split: if_split_asm)

lemma told_call_method: "call_method name args j = Some j' \<Longrightarrow> told j' = told j @ [CallMethod name args]"
  by (auto simp: call_method_def told_record split: if_split_asm)

lemmas told_rules = told_answer told_answer [OF sym] told_ref told_ref [OF sym] told_method_id told_new_object
  told_set_field told_call_method

lemma account_usage_told:
  "yields (account_usage J cls version protocol daddr dport uid sent received j) (\<lambda>j'.
     \<exists>u d now. told j' = told j @
       [NewObject ''Usage.<init>'' u, NewStringUTF daddr d, SetField u ''Usage.Time'' (JLong (now * 1000)), SetField u ''Usage.Version'' (JInt version),
        SetField u ''Usage.Protocol'' (JInt protocol), SetField u ''Usage.DAddr'' (JObj d),
        SetField u ''Usage.DPort'' (JInt dport), SetField u ''Usage.Uid'' (JInt uid),
        SetField u ''Usage.Sent'' (JLong sent), SetField u ''Usage.Received'' (JLong received),
        CallMethod ''accountUsage'' [JObj u]])"
  unfolding account_usage_def get_class_def new_string_def
  by (intro yields_intro) (auto dest!: told_rules)

text \<open>A packet, as Java is told of it.\<close>

definition packet_told :: "java_packet \<Rightarrow> bytes \<Rightarrow> bool \<Rightarrow> nat \<Rightarrow> jni_call list \<Rightarrow> bool" where
  "packet_told p hostname tls obj cs \<longleftrightarrow>
     (\<exists>f s d x h t. cs =
       [NewObject ''Packet.<init>'' obj, NewStringUTF (jp_flags p) f, NewStringUTF (jp_source p) s,
        NewStringUTF (jp_dest p) d, NewStringUTF (jp_data p) x,
        SetField obj ''Packet.time'' (JLong t), SetField obj ''Packet.version'' (JInt (jp_version p)),
        SetField obj ''Packet.protocol'' (JInt (jp_protocol p)), SetField obj ''Packet.flags'' (JObj f),
        SetField obj ''Packet.saddr'' (JObj s), SetField obj ''Packet.sport'' (JInt (jp_sport p)),
        SetField obj ''Packet.daddr'' (JObj d), SetField obj ''Packet.dport'' (JInt (jp_dport p)),
        SetField obj ''Packet.data'' (JObj x), SetField obj ''Packet.uid'' (JInt (jp_uid p)),
        SetField obj ''Packet.allowed'' (JBool False), NewStringUTF hostname h,
        SetField obj ''Packet.hostname'' (JObj h), SetField obj ''Packet.tls'' (JBool tls)])"

lemma create_packet_told:
  "yields (create_packet J cls p allowed j) (\<lambda>(obj, j'). \<exists>f s d x t. told j' = told j @
       [NewObject ''Packet.<init>'' obj, NewStringUTF (jp_flags p) f, NewStringUTF (jp_source p) s,
        NewStringUTF (jp_dest p) d, NewStringUTF (jp_data p) x,
        SetField obj ''Packet.time'' (JLong t), SetField obj ''Packet.version'' (JInt (jp_version p)),
        SetField obj ''Packet.protocol'' (JInt (jp_protocol p)), SetField obj ''Packet.flags'' (JObj f),
        SetField obj ''Packet.saddr'' (JObj s), SetField obj ''Packet.sport'' (JInt (jp_sport p)),
        SetField obj ''Packet.daddr'' (JObj d), SetField obj ''Packet.dport'' (JInt (jp_dport p)),
        SetField obj ''Packet.data'' (JObj x), SetField obj ''Packet.uid'' (JInt (jp_uid p)),
        SetField obj ''Packet.allowed'' (JBool allowed)])"
  unfolding create_packet_def new_string_def
  by (intro yields_intro) (auto dest!: told_rules)

lemma create_packet_ulysses_told:
  "yields (create_packet_ulysses J cls p hostname tls j) (\<lambda>(obj, j').
     \<exists>cs. told j' = told j @ cs \<and> packet_told p hostname tls obj cs)"
  unfolding create_packet_ulysses_def new_string_def packet_told_def
  by (intro yields_intro) (auto dest!: told_rules create_packet_told [THEN yieldsD])

lemma java_raddr_told: "java_raddr J r j = Some (a, j') \<Longrightarrow> told j' = told j"
  by (auto simp: java_raddr_def jni_answer_def split: if_split_asm option.splits)

lemma told_get_int [simp]: "told (jni_record (GetIntField a n) j) = told j"
  by (simp add: told_def jni_record_def)

lemma java_allowed_told: "yields (java_allowed J a j) (\<lambda>(r, j'). told j' = told j \<and> (r = None \<longleftrightarrow> a = 0))"
  unfolding java_allowed_def
  by (intro yields_intro) (auto dest!: told_rules java_raddr_told)

lemma java_address_allowed_told:
  "yields (java_address_allowed J packet j) (\<lambda>(r, j'). told j' = told j @ [CallMethod ''isAddressAllowed'' [JObj packet]])"
  unfolding java_address_allowed_def get_class_def
  by (intro yields_intro) (auto dest!: told_rules java_allowed_told [THEN yieldsD])

section \<open>Properties\<close>

text \<open>C37: a question to Java gives back all it took: after \<open>create_packet_ulysses\<close> has made the packet
  object and \<open>is_address_allowed\<close> has asked about it, the engine holds exactly the local references
  it held before, whatever Java answered or threw; and with the memory profile on, if nothing was
  thrown, the records too are those it had before.\<close>

theorem question_released:
  assumes "create_packet_ulysses J clsPacket p hostname tls j = Some (packet, j1)"
    and "java_address_allowed J packet j1 = Some (answer, j2)"
  shows "mset (j_refs j2) = mset (j_refs j) \<and>
    (jv_profile J \<and> (\<forall>k. jv_thrown J k = 0) \<longrightarrow> ledger_live (j_ledger j2) = ledger_live (j_ledger j))"
proof -
  have "refs j2 = refs j"
    using create_packet_ulysses_refs [THEN yieldsD, OF assms(1)] java_address_allowed_refs [THEN yieldsD, OF assms(2)]
    by simp
  moreover have "recs j2 = recs j" if "jv_profile J" "no_exception J"
    using create_packet_ulysses_recs [OF that, THEN yieldsD, OF assms(1)]
      java_address_allowed_recs [OF that, THEN yieldsD, OF assms(2)] by simp
  ultimately show ?thesis by (auto simp: refs_def recs_def no_exception_def)
qed

text \<open>C38: the firewall decides on the packet it was given: Java is asked once, about one new object whose
  fields are the version, protocol, flags, addresses, ports, data, uid, host name and TLS mark of the
  packet, each set once; nothing else is told between.\<close>

theorem question_reaches_java:
  assumes "create_packet_ulysses J clsPacket p hostname tls j = Some (packet, j1)"
    and "java_address_allowed J packet j1 = Some (answer, j2)"
  shows "\<exists>cs. packet_told p hostname tls packet cs \<and>
    told j2 = told j @ cs @ [CallMethod ''isAddressAllowed'' [JObj packet]]"
  using create_packet_ulysses_told [THEN yieldsD, OF assms(1)] java_address_allowed_told [THEN yieldsD, OF assms(2)]
  by auto

text \<open>\<open>account_usage\<close> tells Java the numbers it was given: it makes one object, sets its eight fields,
  with the address as a string, and hands it to \<open>accountUsage\<close>; nothing else, and no reference is
  left.\<close>

theorem usage_reaches_java:
  assumes "account_usage J clsUsage version protocol daddr dport uid sent received j = Some j'"
  shows "(\<exists>u d now. told j' = told j @
       [NewObject ''Usage.<init>'' u, NewStringUTF daddr d, SetField u ''Usage.Time'' (JLong (now * 1000)),
        SetField u ''Usage.Version'' (JInt version), SetField u ''Usage.Protocol'' (JInt protocol),
        SetField u ''Usage.DAddr'' (JObj d), SetField u ''Usage.DPort'' (JInt dport),
        SetField u ''Usage.Uid'' (JInt uid), SetField u ''Usage.Sent'' (JLong sent),
        SetField u ''Usage.Received'' (JLong received), CallMethod ''accountUsage'' [JObj u]]) \<and>
    mset (j_refs j') = mset (j_refs j)"
  using account_usage_told [THEN yieldsD, OF assms] account_usage_refs [THEN yieldsD, OF assms]
  by (simp add: refs_def)

lemma ref_bag_ex: "0 < r \<Longrightarrow> \<exists>c. {#r#} = ref_bag c"
  by (rule exI [of _ r]) simp

text \<open>A socket that Java does not protect leaves the class reference behind.\<close>

lemma protect_socket_leaks:
  assumes "protect_socket J socket j = Some (r, j')" and "jv_sdk J < 21"
  shows "if r = 0 then refs j' = refs j else r = -1 \<and> (\<exists>cls. refs j' = refs j + ref_bag cls)"
proof -
  have "yields (protect_socket J socket j) (\<lambda>(r, j'). if r = 0 then refs j' = refs j
      else r = -1 \<and> (\<exists>cls. refs j' = refs j + ref_bag cls))"
    unfolding protect_socket_def get_class_def
    by (intro yields_intro) (use assms(2) in \<open>auto dest!: jni_refs_rules intro: ref_bag_ex\<close>)
  then show ?thesis using assms(1) by (auto dest: yieldsD)
qed

section \<open>Instances\<close>

definition example_jvm :: jvm where
  "example_jvm = \<lparr>jv_ref = \<lambda>k. k + 100, jv_thrown = \<lambda>k. 0, jv_found = \<lambda>k n. True, jv_bool = \<lambda>k. True,
     jv_int = \<lambda>k. 8080, jv_chars = \<lambda>k. Some (7, [49, 48]), jv_time = \<lambda>k. 1000, jv_ms = \<lambda>k. 1000000,
     jv_sdk = 33, jv_profile = True\<rparr>"

definition example_jni :: jni_state where
  "example_jni = \<lparr>j_calls = 0, j_refs = [], j_ids = [], j_log = [], j_ledger = \<lparr>allocs = [], balance = 0\<rparr>\<rparr>"

lemmas jni_eval = get_class_def new_string_def jni_ref_def jni_answer_def jni_record_def new_local_def delete_local_def
  track_def untrack_def method_id_def jniGetMethodID_def jniGetFieldID_def field_ids_def jniNewObject_def
  jniCheckException_def set_field_def call_method_def ng_add_alloc_def ng_delete_alloc_def

theorem usage_reaches_java_witness:
  "\<exists>j'. account_usage example_jvm 9 4 6 [49] 443 10 500 600 example_jni = Some j' \<and> mset (j_refs j') = {#}"
proof -
  obtain j' where "account_usage example_jvm 9 4 6 [49] 443 10 500 600 example_jni = Some j'"
    by (simp add: account_usage_def USAGE_FIELDS_def jni_eval example_jvm_def example_jni_def)
  then show ?thesis using usage_reaches_java by (fastforce simp: example_jni_def)
qed

definition example_java_packet :: java_packet where
  "example_java_packet = \<lparr>jp_version = 4, jp_protocol = 6, jp_flags = [83], jp_source = [49], jp_sport = 4000,
     jp_dest = [50], jp_dport = 80, jp_data = [], jp_uid = 10\<rparr>"

text \<open>A question is answered when the ids are known and the virtual machine has memory.\<close>

lemma ids_simps [simp]:
  "j_ids (jni_record c j) = j_ids j" "j_ids (track J tag r j) = j_ids j" "j_ids (untrack J r j) = j_ids j"
  "j_ids (new_local r j) = j_ids j" "j_ids (delete_local r j) = j_ids j" "j_ids (snd (jniCheckException J j)) = j_ids j"
  by (simp_all add: jni_record_def track_def untrack_def jni_answer_def new_local_def delete_local_def jniCheckException_def
      Let_def)

lemma ids_answer: "jni_answer f j = (x, j') \<Longrightarrow> j_ids j' = j_ids j"
  by (auto simp: jni_answer_def)

lemma ids_ref: "jni_ref J c j = (r, j') \<Longrightarrow> j_ids j' = j_ids j \<and> r \<in> range (jv_ref J)"
  by (auto simp: jni_ref_def jni_answer_def)

lemma ids_new_object:
  assumes "ctor \<in> set (j_ids j)"
  shows "\<exists>r j'. jniNewObject J ctor j = Some (r, j') \<and> j_ids j' = j_ids j \<and> r \<in> range (jv_ref J)"
proof -
  obtain r j' where "jni_ref J (NewObject ctor) j = (r, j')" by (metis prod.exhaust)
  then show ?thesis using assms ids_ref [of J "NewObject ctor" j r j'] by (simp add: jniNewObject_def)
qed

lemma create_packet_answers:
  assumes "set PACKET_FIELDS \<subseteq> set (j_ids j)" and "''Packet.<init>'' \<in> set (j_ids j)" and "0 \<notin> range (jv_ref J)"
  shows "\<exists>r j'. create_packet J cls p allowed j = Some (r, j') \<and> j_ids j' = j_ids j \<and> r \<noteq> 0"
proof -
  obtain o1 j1 where o1: "jniNewObject J ''Packet.<init>'' j = Some (o1, j1)" "j_ids j1 = j_ids j" "o1 \<noteq> 0"
    using ids_new_object [OF assms(2), of J] assms(3) by metis
  let ?j1 = "track J ''jpacket'' o1 j1"
  have f: "field_ids J PACKET_FIELDS ?j1 = ?j1"
    using assms(1) o1(2) by (simp add: field_ids_def PACKET_FIELDS_def)
  obtain t j2 where t: "jni_answer (jv_ms J) ?j1 = (t, j2)" by (metis prod.exhaust)
  obtain f j3 where f3: "new_string J (jp_flags p) j2 = (f, j3)" by (metis prod.exhaust)
  obtain s j4 where f4: "new_string J (jp_source p) j3 = (s, j4)" by (metis prod.exhaust)
  obtain d j5 where f5: "new_string J (jp_dest p) j4 = (d, j5)" by (metis prod.exhaust)
  obtain x j6 where f6: "new_string J (jp_data p) j5 = (x, j6)" by (metis prod.exhaust)
  have ids: "j_ids j6 = j_ids j"
    using ids_answer [OF t] ids_ref [OF f3 [unfolded new_string_def]] ids_ref [OF f4 [unfolded new_string_def]]
      ids_ref [OF f5 [unfolded new_string_def]] ids_ref [OF f6 [unfolded new_string_def]] o1(2) by simp
  show ?thesis
    using assms(1,2) o1 ids
    by (simp add: create_packet_def method_id_def f t f3 f4 f5 f6 set_field_def) (simp add: PACKET_FIELDS_def)
qed

lemma java_address_allowed_answers:
  assumes "''isAddressAllowed'' \<in> set (j_ids j)" and "{''Allowed.raddr'', ''Allowed.rport''} \<subseteq> set (j_ids j)"
    and "0 \<notin> range (jv_ref J)" and "\<forall>k. jv_chars J k = Some (ptr, chars)" and "length (cstr chars) < 47"
  shows "\<exists>port j'. java_address_allowed J packet j = Some (Some \<lparr>raddr = cstr chars, rport = port\<rparr>, j')"
proof -
  obtain cls j1 where c: "get_class J j = (cls, j1)" by (metis prod.exhaust)
  have i1: "j_ids j1 = j_ids j" using ids_ref [OF c [unfolded get_class_def]] by simp
  let ?j2 = "jni_record (CallMethod ''isAddressAllowed'' [JObj packet]) (track J ''clsService'' cls j1)"
  obtain a j3 where a: "jni_answer (jv_ref J) ?j2 = (a, j3)" by (metis prod.exhaust)
  have i3: "j_ids j3 = j_ids j" using ids_answer [OF a] i1 by simp
  have a0: "a \<noteq> 0" using a assms(3) by (auto simp: jni_answer_def)
  let ?j4 = "snd (jniCheckException J (track J ''jallowed'' a (new_local a j3)))"
  have f: "field_ids J [''Allowed.raddr'', ''Allowed.rport''] ?j4 = ?j4"
    using assms(2) i3 by (simp add: field_ids_def)
  obtain s j5 where s: "jni_ref J (GetObjectField a ''Allowed.raddr'') ?j4 = (s, j5)" by (metis prod.exhaust)
  have s0: "s \<noteq> 0" using ids_ref [OF s] assms(3) by auto
  have "\<exists>port j'. java_allowed J a ?j4 = Some (Some \<lparr>raddr = cstr chars, rport = port\<rparr>, j')"
    using a0 s0 assms(2,4,5) i3
    by (simp add: java_allowed_def f s java_raddr_def) (simp add: jni_answer_def)
  then show ?thesis
    using assms(1) i1 by (auto simp: java_address_allowed_def method_id_def call_method_def c a)
qed

lemma create_packet_ulysses_answers:
  assumes "set PACKET_FIELDS \<subseteq> set (j_ids j)" and "''Packet.<init>'' \<in> set (j_ids j)" and "0 \<notin> range (jv_ref J)"
    and "{''Packet.hostname'', ''Packet.tls''} \<subseteq> set (j_ids j)"
  shows "\<exists>r j'. create_packet_ulysses J cls p hostname tls j = Some (r, j') \<and> j_ids j' = j_ids j"
proof -
  obtain o1 j1 where o1: "create_packet J cls p False j = Some (o1, j1)" "j_ids j1 = j_ids j" "o1 \<noteq> 0"
    using create_packet_answers [OF assms(1,2,3)] by metis
  obtain h j2 where h: "new_string J hostname j1 = (h, j2)" by (metis prod.exhaust)
  show ?thesis
    using assms(4) o1 h ids_ref [OF h [unfolded new_string_def]]
    by (simp add: create_packet_ulysses_def field_ids_def set_field_def)
qed

text \<open>The state of an engine that has looked up its ids.\<close>

definition example_known :: jni_state where
  "example_known = example_jni\<lparr>j_ids := [''Packet.<init>'', ''Packet.hostname'', ''Packet.tls'', ''isAddressAllowed'',
     ''Allowed.raddr'', ''Allowed.rport''] @ PACKET_FIELDS\<rparr>"

lemma example_question:
  "\<exists>packet j1 answer j2. create_packet_ulysses example_jvm 9 example_java_packet [51] False example_known = Some (packet, j1) \<and>
     java_address_allowed example_jvm packet j1 = Some (Some answer, j2)"
proof -
  have "0 \<notin> range (jv_ref example_jvm)" "\<forall>k. jv_chars example_jvm k = Some (7, [49, 48])"
    "length (cstr [49, 48]) < 47"
    by (auto simp: example_jvm_def cstr_def)
  moreover have "set PACKET_FIELDS \<subseteq> set (j_ids example_known)" "''Packet.<init>'' \<in> set (j_ids example_known)"
    "{''Packet.hostname'', ''Packet.tls''} \<subseteq> set (j_ids example_known)"
    "''isAddressAllowed'' \<in> set (j_ids example_known)" "{''Allowed.raddr'', ''Allowed.rport''} \<subseteq> set (j_ids example_known)"
    by (auto simp: example_known_def)
  ultimately obtain packet j1 port j2 where
    q: "create_packet_ulysses example_jvm 9 example_java_packet [51] False example_known = Some (packet, j1)"
      "java_address_allowed example_jvm packet j1 = Some (Some \<lparr>raddr = cstr [49, 48], rport = port\<rparr>, j2)"
    using create_packet_ulysses_answers java_address_allowed_answers by metis
  then show ?thesis by blast
qed

theorem question_released_witness:
  "\<exists>packet j1 answer j2. create_packet_ulysses example_jvm 9 example_java_packet [51] False example_known = Some (packet, j1) \<and>
     java_address_allowed example_jvm packet j1 = Some (Some answer, j2) \<and>
     mset (j_refs j2) = {#} \<and> ledger_live (j_ledger j2) = {#}"
proof -
  obtain packet j1 answer j2 where
    q: "create_packet_ulysses example_jvm 9 example_java_packet [51] False example_known = Some (packet, j1)"
      "java_address_allowed example_jvm packet j1 = Some (Some answer, j2)"
    using example_question by blast
  then show ?thesis
    using question_released [OF q]
    by (auto simp: example_jvm_def example_known_def example_jni_def ledger_live_def)
qed

theorem question_reaches_java_witness:
  "\<exists>packet j1 answer j2 cs. create_packet_ulysses example_jvm 9 example_java_packet [51] False example_known = Some (packet, j1) \<and>
     java_address_allowed example_jvm packet j1 = Some (Some answer, j2) \<and> packet_told example_java_packet [51] False packet cs \<and>
     told j2 = cs @ [CallMethod ''isAddressAllowed'' [JObj packet]]"
proof -
  obtain packet j1 answer j2 where
    q: "create_packet_ulysses example_jvm 9 example_java_packet [51] False example_known = Some (packet, j1)"
      "java_address_allowed example_jvm packet j1 = Some (Some answer, j2)"
    using example_question by blast
  have "told example_known = []" by (simp add: told_def example_known_def example_jni_def)
  then show ?thesis using question_reaches_java [OF q] q by auto
qed

end
