(* ===== verification/Ng_Load.thy ===== *)
theory Ng_Load
  imports Ng_Jni_Props
begin

text \<open>
  The library's own entry points of netguard.c (loading, unloading, the utilities of the Java class
  \<open>Util\<close>) and the rest of util.c: the poll wrappers, the names of the states and the log line.
\<close>

section \<open>Global references\<close>

text \<open>The four classes and the global references the library holds.\<close>

record jni_library =
  cls_packet :: nat
  cls_allowed :: nat
  cls_rr :: nat
  cls_usage :: nat
  lib_globals :: "nat list"

definition new_global :: "nat \<Rightarrow> nat list \<Rightarrow> nat list" where
  "new_global r gs = (if r = 0 then gs else r # gs)"

definition delete_global :: "nat \<Rightarrow> nat list \<Rightarrow> nat list" where
  "delete_global r gs = (if r = 0 then gs else remove1 r gs)"

interpretation global_refs: ref_table new_global delete_global mset
  by unfold_locales (simp_all add: new_global_def delete_global_def ref_bag_def)

text \<open>A class that is not found leaves its exception pending; only for one that is found the
  exception is looked at.\<close>

definition jniFindClass :: "jvm \<Rightarrow> string \<Rightarrow> jni_state \<Rightarrow> nat \<times> jni_state" where
  "jniFindClass J name j =
     (let (cls, j) = jni_ref J (FindClass name) j
      in (cls, if cls = 0 then j else snd (jniCheckException J j)))"

definition jniGlobalRef :: "jvm \<Rightarrow> nat \<Rightarrow> nat list \<Rightarrow> jni_state \<Rightarrow> nat \<times> nat list \<times> jni_state" where
  "jniGlobalRef J cls gs j =
     (let (r, j) = jni_answer (jv_ref J) j;
          r = (if cls = 0 then 0 else r)
      in (r, new_global r gs, jni_record (NewGlobalRef cls r) j))"

definition load_class :: "jvm \<Rightarrow> string \<Rightarrow> string \<Rightarrow> nat list \<Rightarrow> jni_state \<Rightarrow> nat \<times> nat list \<times> jni_state" where
  "load_class J name tag gs j =
     (let (cls, j) = jniFindClass J name j;
          (r, gs, j) = jniGlobalRef J cls gs j
      in (r, gs, track J tag r j))"

definition unload_class :: "jvm \<Rightarrow> nat \<Rightarrow> nat list \<times> jni_state \<Rightarrow> nat list \<times> jni_state" where
  "unload_class J r gj = (delete_global r (fst gj), jni_record (DeleteGlobalRef r) (snd gj))"

section \<open>Loading and unloading\<close>

text \<open>The soft limit of open files is raised to the hard one; \<open>None\<close> when \<open>getrlimit\<close> fails.\<close>

definition raise_limit :: "bool \<Rightarrow> (u64 \<times> u64) option \<Rightarrow> (u64 \<times> u64) option" where
  "raise_limit set_ok limits = map_option (\<lambda>(soft, hard). (if set_ok then hard else soft, hard)) limits"

definition JNI_VERSION_1_6 :: int where "JNI_VERSION_1_6 = 65542"

definition JNI_OnLoad :: "jvm \<Rightarrow> bool \<Rightarrow> bool \<Rightarrow> (u64 \<times> u64) option \<Rightarrow> jni_library \<Rightarrow> jni_state \<Rightarrow>
    int \<times> (u64 \<times> u64) option \<times> jni_library \<times> jni_state" where
  "JNI_OnLoad J env_ok set_ok limits L j =
     (if \<not> env_ok then (-1, limits, L, j)
      else
        let (p, gs, j) = load_class J ''eu/faircode/netguard/Packet'' ''clsPacket'' (lib_globals L) j;
            (a, gs, j) = load_class J ''eu/faircode/netguard/Allowed'' ''clsAllowed'' gs j;
            (r, gs, j) = load_class J ''eu/faircode/netguard/ResourceRecord'' ''clsRR'' gs j;
            (u, gs, j) = load_class J ''eu/faircode/netguard/Usage'' ''clsUsage'' gs j
        in (JNI_VERSION_1_6, raise_limit set_ok limits,
            \<lparr>cls_packet = p, cls_allowed = a, cls_rr = r, cls_usage = u, lib_globals = gs\<rparr>, j))"

text \<open>The pointers to the classes are kept, dangling.\<close>

definition JNI_OnUnload :: "jvm \<Rightarrow> bool \<Rightarrow> jni_library \<Rightarrow> jni_state \<Rightarrow> jni_library \<times> jni_state" where
  "JNI_OnUnload J env_ok L j =
     (if \<not> env_ok then (L, j)
      else let (gs, j) = unload_class J (cls_usage L) (unload_class J (cls_rr L)
                           (unload_class J (cls_allowed L) (unload_class J (cls_packet L) (lib_globals L, j))))
           in (L\<lparr>lib_globals := gs\<rparr>,
               untrack J (cls_usage L) (untrack J (cls_rr L) (untrack J (cls_allowed L) (untrack J (cls_packet L) j)))))"

section \<open>The class Util\<close>

text \<open>\<open>name\<close> is the Java string; \<open>prop\<close> is the system property of that name.\<close>

definition jni_getprop :: "jvm \<Rightarrow> (bytes \<Rightarrow> bytes) \<Rightarrow> nat \<Rightarrow> jni_state \<Rightarrow> (nat \<times> jni_state) option" where
  "jni_getprop J prop name j =
     (case jni_answer (jv_chars J) (jni_record (GetStringUTFChars name) j) of
        (None, j) \<Rightarrow> None
      | (Some (ptr, chars), j) \<Rightarrow>
          let j = track J ''name'' ptr j; v = prop (cstr chars)
          in if length v > 92 then None
             else Some (new_string J v (untrack J ptr (jni_record (ReleaseStringUTFChars name) j))))"

text \<open>\<open>getaddrinfo\<close> answers with an error or not and with what it has stored in \<open>result\<close>, which has no
  value before; \<open>None\<close> when it stores nothing. A null string is no address.\<close>

definition is_numeric_address :: "jvm \<Rightarrow> (bytes option \<Rightarrow> bool \<times> nat option) \<Rightarrow> nat \<Rightarrow> jni_state \<Rightarrow> (bool \<times> jni_state) option" where
  "is_numeric_address J gai ip j =
     (let (answer, j) = jni_answer (jv_chars J) (jni_record (GetStringUTFChars ip) j);
          ptr = (case answer of None \<Rightarrow> 0 | Some (ptr, chars) \<Rightarrow> ptr);
          j = track J ''ip'' ptr j
      in case gai (map_option (\<lambda>(ptr, chars). cstr chars) answer) of
           (err, None) \<Rightarrow> None
         | (err, Some result) \<Rightarrow>
             Some (\<not> err \<and> result \<noteq> 0, untrack J ptr (jni_record (ReleaseStringUTFChars ip) j)))"

definition dump_memory_profile :: "jvm \<Rightarrow> jni_state \<Rightarrow> (nat \<times> string \<times> int) list" where
  "dump_memory_profile J j = (if jv_profile J then ng_dump (j_ledger j) else [])"

section \<open>The rest of util.c\<close>

definition sdk_int :: "jvm \<Rightarrow> jni_state \<Rightarrow> (int \<times> jni_state) option" where
  "sdk_int J j =
     (let (cls, j) = jniFindClass J ''android/os/Build$VERSION'' j
      in if cls = 0 then None
         else let (ok, j) = jniGetFieldID J ''SDK_INT'' j
              in if \<not> ok then None else Some (jni_answer (jv_int J) j))"

text \<open>A line that is not shorter than the buffer overflows it.\<close>

definition log_android :: "int \<Rightarrow> int \<Rightarrow> bytes \<Rightarrow> (int \<times> bytes) list option" where
  "log_android loglevel prio line =
     (if prio \<ge> loglevel then (if length line < 1024 then Some [(prio, line)] else None) else Some [])"

fun strstate :: "tcp_state \<Rightarrow> string" where
  "strstate TCP_ESTABLISHED = ''ESTABLISHED''"
| "strstate TCP_SYN_SENT = ''SYN_SENT''"
| "strstate TCP_SYN_RECV = ''SYN_RECV''"
| "strstate TCP_FIN_WAIT1 = ''FIN_WAIT1''"
| "strstate TCP_FIN_WAIT2 = ''FIN_WAIT2''"
| "strstate TCP_TIME_WAIT = ''TIME_WAIT''"
| "strstate TCP_CLOSE = ''CLOSE''"
| "strstate TCP_CLOSE_WAIT = ''CLOSE_WAIT''"
| "strstate TCP_LAST_ACK = ''LAST_ACK''"
| "strstate TCP_LISTEN = ''LISTEN''"
| "strstate TCP_CLOSING = ''CLOSING''"
| "strstate TCP_ZERO = ''UNKNOWN''"

text \<open>\<open>getsockname\<close> gives the port, or \<open>None\<close> when it fails.\<close>

definition get_local_port :: "u16 option \<Rightarrow> int" where
  "get_local_port name = (case name of None \<Rightarrow> -1 | Some port \<Rightarrow> uint port)"

text \<open>\<open>answer\<close> is what \<open>poll\<close> returns and leaves in \<open>revents\<close> for a descriptor and the wanted events.\<close>

definition POLLIN :: u16 where "POLLIN = 1"
definition POLLOUT :: u16 where "POLLOUT = 4"

definition is_event :: "(int \<Rightarrow> u16 \<Rightarrow> int \<times> u16) \<Rightarrow> int \<Rightarrow> u16 \<Rightarrow> u16" where
  "is_event answer fd event =
     (let (r, revents) = answer fd event
      in if r < 0 then 0 else if r = 0 then 0 else revents AND event)"

definition is_readable :: "(int \<Rightarrow> u16 \<Rightarrow> int \<times> u16) \<Rightarrow> int \<Rightarrow> u16" where
  "is_readable answer fd = is_event answer fd POLLIN"

definition is_writable :: "(int \<Rightarrow> u16 \<Rightarrow> int \<times> u16) \<Rightarrow> int \<Rightarrow> u16" where
  "is_writable answer fd = is_event answer fd POLLOUT"

section \<open>Properties\<close>

text \<open>POSIX: \<open>poll\<close> ignores a negative descriptor and clears its \<open>revents\<close>. So the loop never takes a
  closed socket for readable.\<close>

lemma closed_not_readable:
  "(\<And>fd ev. fd < 0 \<Longrightarrow> snd (answer fd ev) = 0) \<Longrightarrow> fd < 0 \<Longrightarrow> is_readable answer fd = 0 \<and> is_writable answer fd = 0"
  by (simp add: is_readable_def is_writable_def is_event_def split_beta)

lemma strstate_inject: "strstate s = strstate t \<longleftrightarrow> s = t"
  by (cases s; cases t) simp_all

lemma load_class_tables:
  assumes "load_class J name tag gs j = (r, gs', j')"
  shows "mset gs' = mset gs + ref_bag r" and "refs j \<subseteq># refs j'"
    and "jv_profile J \<Longrightarrow> no_exception J \<Longrightarrow> recs j' = recs j + ref_bag r"
  using assms
  by (auto simp: load_class_def jniFindClass_def jniGlobalRef_def global_refs.live_add recs_profile recs_exception
      split: prod.splits if_splits dest!: jni_ref_tables jni_answer_tables)

lemma unload_tables:
  "mset (fst (unload_class J r gj)) = mset (fst gj) - ref_bag r"
  "refs (snd (unload_class J r gj)) = refs (snd gj)" "recs (snd (unload_class J r gj)) = recs (snd gj)"
  by (simp_all add: unload_class_def global_refs.live_del)

text \<open>Loading the library takes one global reference and one record of the profile for each class it
  finds, and unloading gives all of them back, whatever is done with the records between as long as
  that gives back its own.\<close>

lemma library_unload_clean:
  assumes p: "jv_profile J" and e: "no_exception J" and "lib_globals L0 = []"
    and l: "JNI_OnLoad J True set_ok limits L0 j0 = (v, limits', L, j1)"
    and "recs j2 = recs j1" and u: "JNI_OnUnload J True L j2 = (L', j3)"
  shows "mset (lib_globals L) = ref_bag (cls_packet L) + ref_bag (cls_allowed L) + ref_bag (cls_rr L) + ref_bag (cls_usage L)"
    and "recs j1 = recs j0 + mset (lib_globals L)"
    and "lib_globals L' = []" and "recs j3 = recs j0"
proof -
  obtain p gs1 k1 a gs2 k2 r gs3 k3 x gs4 k4 where
    1: "load_class J ''eu/faircode/netguard/Packet'' ''clsPacket'' (lib_globals L0) j0 = (p, gs1, k1)" and
    2: "load_class J ''eu/faircode/netguard/Allowed'' ''clsAllowed'' gs1 k1 = (a, gs2, k2)" and
    3: "load_class J ''eu/faircode/netguard/ResourceRecord'' ''clsRR'' gs2 k2 = (r, gs3, k3)" and
    4: "load_class J ''eu/faircode/netguard/Usage'' ''clsUsage'' gs3 k3 = (x, gs4, k4)"
    by (metis prod.exhaust)
  have L: "L = \<lparr>cls_packet = p, cls_allowed = a, cls_rr = r, cls_usage = x, lib_globals = gs4\<rparr>" "j1 = k4"
    using l 1 2 3 4 by (simp_all add: JNI_OnLoad_def)
  note t = load_class_tables [OF 1] load_class_tables [OF 2] load_class_tables [OF 3] load_class_tables [OF 4]
  show g: "mset (lib_globals L) = ref_bag (cls_packet L) + ref_bag (cls_allowed L) + ref_bag (cls_rr L) + ref_bag (cls_usage L)"
    using t(1,4,7,10) assms(3) by (simp add: L)
  show r: "recs j1 = recs j0 + mset (lib_globals L)"
    using t(1,4,7,10) t(3,6,9,12) [OF p e] assms(3) by (simp add: L)
  have "mset (fst (unload_class J (cls_usage L) (unload_class J (cls_rr L)
      (unload_class J (cls_allowed L) (unload_class J (cls_packet L) (lib_globals L, j2)))))) = {#}"
    using g by (simp add: unload_tables)
  then have "mset (lib_globals L') = {#}"
    using u by (auto simp: JNI_OnUnload_def simp del: mset_zero_iff split: prod.splits)
  then show "lib_globals L' = []" by simp
  have "recs (snd (unload_class J (cls_usage L) (unload_class J (cls_rr L)
      (unload_class J (cls_allowed L) (unload_class J (cls_packet L) (lib_globals L, j2)))))) = recs j2"
    by (simp add: unload_tables)
  then have "recs j3 = recs j2 - mset (lib_globals L)"
    using u g by (auto simp: JNI_OnUnload_def recs_profile [OF p] split: prod.splits)
  then show "recs j3 = recs j0" using assms(5) r by simp
qed

lemma getprop_releases:
  assumes "jni_getprop J prop name j = Some (s, j')"
  shows "refs j' = refs j + ref_bag s" and "jv_profile J \<Longrightarrow> recs j' = recs j"
  using assms
  by (auto simp: jni_getprop_def Let_def new_string_def recs_profile split: prod.splits option.splits if_splits
      dest!: jni_ref_tables [OF sym] jni_ref_tables jni_answer_tables)

lemma numeric_address_releases:
  assumes "is_numeric_address J gai ip j = Some (b, j')"
  shows "refs j' = refs j" and "jv_profile J \<Longrightarrow> recs j' = recs j"
  using assms
  by (auto simp: is_numeric_address_def Let_def recs_profile split: prod.splits option.splits dest!: jni_answer_tables)

end
