(* ===== verification/Ng_Native.thy ===== *)
theory Ng_Native
  imports Ng_Engine Ng_World
begin

text \<open>
  The entry points of netguard.c that Java calls on the engine: the life of the context and of the
  global variables from \<open>jni_init\<close> to \<open>jni_done\<close>, the settings and the statistics. Strings from Java are
  byte lists without the terminating zero. \<open>None\<close> is a string that does not fit its buffer.
\<close>

section \<open>State\<close>

text \<open>\<open>pipe\<close> leaves the zeros of \<open>calloc\<close> in \<open>pipefds\<close> when it fails. The flag \<open>stopping\<close> of the context,
  which the threads of Java write while the loop runs, is \<open>e_stopping\<close> of the environment.\<close>

record ng_context =
  x_pipe_read :: int
  x_pipe_write :: int
  x_sdk :: int
  x_sessions :: "ng_session list"

record globals =
  v_socks5_addr :: bytes
  v_socks5_port :: int
  v_socks5_username :: bytes
  v_socks5_password :: bytes
  v_loglevel :: int
  v_max_tun_msg :: int
  v_pcap_file :: bool
  v_pcap_record_size :: int
  v_pcap_file_size :: int
  v_uid_cache :: "uid_cache_entry list"

section \<open>The life of a context\<close>

definition jni_init :: "(int \<times> int) option \<Rightarrow> int \<Rightarrow> globals \<Rightarrow> ng_context \<times> globals" where
  "jni_init pipe api g =
     (let (r, wr) = (case pipe of None \<Rightarrow> (0, 0) | Some fds \<Rightarrow> fds)
      in (\<lparr>x_pipe_read = r, x_pipe_write = wr, x_sdk = api, x_sessions = []\<rparr>,
          g\<lparr>v_loglevel := 5, v_socks5_addr := [], v_socks5_port := 0, v_socks5_username := [],
            v_socks5_password := [], v_pcap_file := False\<rparr>))"

definition jni_start :: "int \<Rightarrow> ng_context \<times> globals \<Rightarrow> ng_context \<times> globals" where
  "jni_start loglevel xg =
     (case xg of (x, g) \<Rightarrow> (x, g\<lparr>v_loglevel := loglevel, v_max_tun_msg := 0\<rparr>))"

text \<open>The environment a run sees: the arguments, the settings and the pipe of the context. The record size
  is a \<open>jint\<close> cast to \<open>size_t\<close>, so a negative one cuts nothing off.\<close>

definition run_env :: "env \<Rightarrow> int \<Rightarrow> bool \<Rightarrow> u16 \<Rightarrow> ng_context \<Rightarrow> globals \<Rightarrow> env" where
  "run_env E tun fwd rc x g =
     E\<lparr>tun_fd := tun, fwd53 := fwd, rcode := rc, sdk := x_sdk x, pipe_fd := x_pipe_read x,
       verbose_log := v_loglevel g < 5, pcap_open := v_pcap_file g, pcap_record_size := nat (v_pcap_record_size g mod 2 ^ 64),
       socks5_addr := v_socks5_addr g, socks5_port := of_int (v_socks5_port g),
       socks5_username := v_socks5_username g, socks5_password := v_socks5_password g\<rparr>"

definition jni_run :: "env \<Rightarrow> u64 option \<Rightarrow> int \<Rightarrow> bool \<Rightarrow> u16 \<Rightarrow> ng_context \<times> globals \<Rightarrow> world \<Rightarrow>
    ((ng_context \<times> globals) \<times> world) option" where
  "jni_run E rlim_cur tun fwd rc xg w =
     (case xg of (x, g) \<Rightarrow> do {
        (m, w) \<leftarrow> handle_events (run_env E tun fwd rc x g) rlim_cur (x_sessions x) (v_uid_cache g) w;
        Some ((x\<lparr>x_sessions := m_sessions m\<rparr>, g\<lparr>v_uid_cache := m_cache m\<rparr>), w) })"

text \<open>From the n-th call of the loop on the flag is set. The byte in the pipe makes \<open>epoll_wait\<close> return, whose
  answers are arbitrary anyway.\<close>

definition jni_stop :: "nat \<Rightarrow> env \<Rightarrow> env" where
  "jni_stop n E = E\<lparr>e_stopping := \<lambda>k. n \<le> k \<or> e_stopping E k\<rparr>"

definition jni_clear :: "ng_context \<times> globals \<Rightarrow> world \<Rightarrow> (ng_context \<times> globals) \<times> world" where
  "jni_clear xg w =
     (case xg of (x, g) \<Rightarrow> let (ss, w) = clear (x_sessions x) w in ((x\<lparr>x_sessions := ss\<rparr>, g), w))"

definition jni_done :: "ng_context \<times> globals \<Rightarrow> world \<Rightarrow> globals \<times> world" where
  "jni_done xg w =
     (case xg of (x, g) \<Rightarrow>
        let (_, w) = clear (x_sessions x) w;
            w = sys_close (x_pipe_write x) (sys_close (x_pipe_read x) w)
        in (g\<lparr>v_uid_cache := []\<rparr>, w))"

section \<open>Settings\<close>

definition jni_socks5 :: "bytes \<Rightarrow> int \<Rightarrow> bytes \<Rightarrow> bytes \<Rightarrow> globals \<Rightarrow> globals option" where
  "jni_socks5 addr port username password g =
     (if length addr \<ge> 47 \<or> length username \<ge> 128 \<or> length password \<ge> 128 then None
      else Some (g\<lparr>v_socks5_addr := addr, v_socks5_port := port, v_socks5_username := username,
                   v_socks5_password := password\<rparr>))"

definition pcap_hdr :: "int \<Rightarrow> bytes" where
  "pcap_hdr record_size =
     u32_le 0xa1b2c3d4 @ u16_le 2 @ u16_le 4 @ u32_le 0 @ u32_le 0 @ u32_le (of_int record_size) @ u32_le 101"

definition write_pcap_hdr :: "globals \<Rightarrow> world \<Rightarrow> world" where
  "write_pcap_hdr g w = emit (PcapRecord (pcap_hdr (v_pcap_record_size g))) w"

text \<open>\<open>opened\<close> is the size of the file of that name, or \<open>None\<close> when it cannot be opened.\<close>

definition jni_pcap :: "bytes option \<Rightarrow> int option \<Rightarrow> int \<Rightarrow> int \<Rightarrow> globals \<Rightarrow> world \<Rightarrow> globals \<times> world" where
  "jni_pcap name opened record_size file_size g w =
     (let g = g\<lparr>v_pcap_record_size := record_size, v_pcap_file_size := file_size\<rparr>
      in (case name of
            None \<Rightarrow> (g\<lparr>v_pcap_file := False\<rparr>, w)
          | Some n \<Rightarrow>
              (case opened of
                 None \<Rightarrow> (g\<lparr>v_pcap_file := False\<rparr>, w)
               | Some n0 \<Rightarrow> (g\<lparr>v_pcap_file := True\<rparr>, if n0 = 0 then write_pcap_hdr g w else w))))"

section \<open>Statistics\<close>

text \<open>The counters of ICMP, UDP and TCP sessions, the open files (the entries of /proc/self/fd that are
  no directories) and the limit.\<close>

fun count_stats :: "ng_session list \<Rightarrow> int \<times> int \<times> int" where
  "count_stats [] = (0, 0, 0)"
| "count_stats (s # ss) =
     (let (i, u, t) = count_stats ss
      in (case s_proto s of
            Icmp c \<Rightarrow> (if \<not> i_stop c then i + 1 else i, u, t)
          | Udp c \<Rightarrow> (i, if u_state c = UDP_ACTIVE then u + 1 else u, t)
          | Tcp c \<Rightarrow> (i, u, if t_state c \<noteq> TCP_CLOSING \<and> t_state c \<noteq> TCP_CLOSE then t + 1 else t)))"

definition jni_get_stats :: "bool list option \<Rightarrow> int \<Rightarrow> ng_session list \<Rightarrow> int list" where
  "jni_get_stats dirents rlim ss =
     (case count_stats ss of (i, u, t) \<Rightarrow>
        [i, u, t, (case dirents of None \<Rightarrow> 0 | Some ds \<Rightarrow> int (length (filter Not ds))), rlim])"

section \<open>Properties\<close>

text \<open>A turn that reads or writes outside a buffer, or does not end, comes up before the loop is told to
  stop.\<close>

inductive turn_undefined :: "env \<Rightarrow> int \<Rightarrow> loop_state \<Rightarrow> world \<Rightarrow> bool" where
  here: "\<not> e_stopping E (w_calls w) \<Longrightarrow> loop_turn E maxsessions m (called w) = None \<Longrightarrow> turn_undefined E maxsessions m w"
| later: "\<not> e_stopping E (w_calls w) \<Longrightarrow> loop_turn E maxsessions m (called w) = Some (True, m', w') \<Longrightarrow>
    turn_undefined E maxsessions m' w' \<Longrightarrow> turn_undefined E maxsessions m w"

text \<open>The next turn decides.\<close>

lemma turn_undefined_iff:
  "turn_undefined E maxsessions m w \<longleftrightarrow> \<not> e_stopping E (w_calls w) \<and>
     (case loop_turn E maxsessions m (called w) of
        None \<Rightarrow> True | Some (go, m', w') \<Rightarrow> go \<and> turn_undefined E maxsessions m' w')"
  by (subst turn_undefined.simps) (auto split: option.splits)

text \<open>After \<open>jni_stop\<close> the loop ends, from whatever state, whatever the packets, events and answers, and
  however many turns were to come: it fails to return exactly if one of the turns before the flag is
  seen is itself undefined. What it did before is kept: the run only adds to the history.\<close>

lemma events_loop_stop:
  "case events_loop (jni_stop n E) maxsessions m w of
     None \<Rightarrow> turn_undefined (jni_stop n E) maxsessions m w
   | Some (m', w') \<Rightarrow> \<not> turn_undefined (jni_stop n E) maxsessions m w \<and>
       w_calls w < w_calls w' \<and> (\<exists>es. w_out w' = w_out w @ es)"
proof (induction "n - w_calls w" arbitrary: m w rule: less_induct)
  case less
  let ?E = "jni_stop n E"
  show ?case
  proof (cases "e_stopping ?E (w_calls w)")
    case True
    then show ?thesis by (simp add: events_loop.simps [of ?E] turn_undefined_iff [of ?E] ask_def called_def)
  next
    case go: False
    then have n: "w_calls w < n" by (simp add: jni_stop_def)
    have loop: "events_loop ?E maxsessions m w = (case loop_turn ?E maxsessions m (called w) of
        None \<Rightarrow> None | Some (go, m', w') \<Rightarrow> if go then events_loop ?E maxsessions m' w' else Some (m', w'))"
      using go by (simp add: events_loop.simps [of ?E maxsessions m w] ask_def split: option.splits)
    show ?thesis
    proof (cases "loop_turn ?E maxsessions m (called w)")
      case None
      then show ?thesis using go by (simp add: loop turn_undefined_iff [of ?E maxsessions m w])
    next
      case (Some x)
      obtain go' m' w' where x: "x = (go', m', w')" by (cases x)
      have grows: "w_calls w < w_calls w'" "\<exists>es. w_out w' = w_out w @ es"
        using loop_turn_grows [OF Some [unfolded x]] by (simp_all add: called_def)
      have "n - w_calls w' < n - w_calls w" using grows(1) n by simp
      from less [OF this, of m'] show ?thesis using grows go Some x
        by (auto simp: loop turn_undefined_iff [of ?E maxsessions m w] split: option.splits)
    qed
  qed
qed

text \<open>The statistics agree with the loop: the three counters are natural numbers, and their sum is
  the number of sessions that \<open>handle_events\<close> compares with the session limit.\<close>

theorem stats_count_sessions:
  "\<exists>i u t. take 3 (jni_get_stats dirents rlim ss) = [int i, int u, int t] \<and>
     int i + int u + int t = fst (count_sessions E ss w)"
proof -
  have "\<exists>i u t. count_stats ss = (int i, int u, int t) \<and> int i + int u + int t = fst (count_sessions E ss w)" for w
  proof (induction ss arbitrary: w)
    case (Cons s ss)
    obtain c s' w1 where m: "(case s_proto s of
               Tcp t \<Rightarrow>
                 if s_socket s \<ge> 0
                 then let (c, s, t, w) = monitor_tcp_session E s t w in (c, s\<lparr>s_proto := Tcp t\<rparr>, w)
                 else (False, s, w)
             | _ \<Rightarrow> (False, s, w)) = (c, s', w1)" by (metis prod.exhaust)
    obtain i u t where ih: "count_stats ss = (int i, int u, int t)" "int i + int u + int t = fst (count_sessions E ss w1)"
      using Cons by blast
    show ?case
    proof (cases "s_proto s")
      case (Icmp c)
      then show ?thesis using ih m
        by (auto simp: split_beta Let_def is_active_def intro: exI [of _ "i + 1"] exI [of _ i])
    next
      case (Udp c)
      then show ?thesis using ih m
        by (auto simp: split_beta Let_def is_active_def intro: exI [of _ "u + 1"] exI [of _ u])
    next
      case (Tcp c)
      then show ?thesis using ih m
        by (auto simp: split_beta Let_def is_active_def intro: exI [of _ "t + 1"] exI [of _ t])
    qed
  qed simp
  then obtain i u t where "count_stats ss = (int i, int u, int t)" "int i + int u + int t = fst (count_sessions E ss w)"
    by blast
  then show ?thesis by (auto simp: jni_get_stats_def)
qed

text \<open>C40: after a run, whatever happened in it, \<open>jni_done\<close> closes the socket of every session that
  still needs one and the two ends of the pipe, each of them once, and forgets the uid cache.\<close>

theorem done_closes:
  assumes "jni_run E rlim_cur tun fwd rc (x, g) w = Some ((x', g'), w')"
    and "all_ok (x_sessions x)" and "poll_ok E"
  shows "\<exists>fds g'' w''. jni_done (x', g') w' = (g'', w'') \<and>
    w_out w'' = w_out w' @ map Close (fds @ [x_pipe_read x, x_pipe_write x]) \<and>
    v_uid_cache g'' = [] \<and> fds = filter (\<lambda>k. 0 \<le> k) (map s_socket (x_sessions x')) \<and> all_ok (x_sessions x')"
proof -
  have p: "poll_ok (run_env E tun fwd rc x g)" using assms(3) by (simp add: poll_ok_def run_env_def)
  obtain m w1 where h: "handle_events (run_env E tun fwd rc x g) rlim_cur (x_sessions x) (v_uid_cache g) w = Some (m, w1)"
    "x' = x\<lparr>x_sessions := m_sessions m\<rparr>" "w' = w1"
    using assms(1) by (auto simp: jni_run_def bind_eq_Some_conv)
  show ?thesis using ok.handle_events_keeps [OF h(1) p assms(2)] h(2)
    by (simp add: jni_done_def clear_def sys_close_def clear_loop_out)
qed

definition example_globals :: globals where
  "example_globals = \<lparr>v_socks5_addr = [49], v_socks5_port = 1080, v_socks5_username = [], v_socks5_password = [],
     v_loglevel = 5, v_max_tun_msg = 0, v_pcap_file = False, v_pcap_record_size = 64, v_pcap_file_size = 2097152,
     v_uid_cache = []\<rparr>"

theorem done_closes_witness:
  "\<exists>x' g' w' g'' w''. jni_run (example_env\<lparr>e_stopping := \<lambda>k. True\<rparr>) None 5 True 3
     (jni_init (Some (3, 4)) 33 example_globals) example_world = Some ((x', g'), w') \<and>
     jni_done (x', g') w' = (g'', w'') \<and> w_out w'' = w_out w' @ [Close 3, Close 4] \<and> v_uid_cache g'' = []"
proof -
  let ?E = "example_env\<lparr>e_stopping := \<lambda>k. True\<rparr>"
  obtain x g where x: "jni_init (Some (3, 4)) 33 example_globals = (x, g)" "x_sessions x = []" "x_pipe_read x = 3" "x_pipe_write x = 4"
    by (simp add: jni_init_def)
  have "\<exists>m w'. handle_events (run_env ?E 5 True 3 x g) None [] (v_uid_cache g) example_world = Some (m, w') \<and> m_sessions m = []"
    by (simp add: handle_events_def split_beta Let_def) (simp add: events_loop.simps ask_def run_env_def)
  then obtain x' g' w' where r: "jni_run ?E None 5 True 3 (x, g) example_world = Some ((x', g'), w')" "x_sessions x' = []"
    using x(2) by (auto simp: jni_run_def)
  have "poll_ok ?E" by (simp add: poll_ok_def example_env_def)
  then show ?thesis using done_closes [OF r(1)] r x by auto
qed

end
