(* ===== verification/Ng_Pcap.thy ===== *)
theory Ng_Pcap
  imports Ng_Native
begin

text \<open>
  The pcap file of pcap.c behind the records that the packet path hands to \<open>write_pcap\<close>: the C stream
  with its buffer, the file under it and the truncation at the size limit. What stdio and the kernel
  do with the n-th call is the environment \<open>stdio\<close>. The file is opened with "ab+", so every write goes
  to the end of the file and the \<open>lseek\<close> after a truncation moves nothing.
\<close>

section \<open>The stream\<close>

text \<open>How many bytes \<open>fwrite\<close> takes (\<open>None\<close>: all), how many of the bytes waiting in the buffer go on to the
  kernel, whether \<open>ftell\<close> empties the buffer first, and whether \<open>ftruncate\<close> succeeds.\<close>

record stdio =
  so_taken :: "nat \<Rightarrow> nat option"
  so_handed :: "nat \<Rightarrow> nat"
  so_tell_flushes :: bool
  so_truncated :: "nat \<Rightarrow> bool"

record pcap_stream =
  ps_calls :: nat
  ps_file :: bytes
  ps_buffer :: bytes

definition sys_fwrite :: "stdio \<Rightarrow> bytes \<Rightarrow> pcap_stream \<Rightarrow> bool \<times> pcap_stream" where
  "sys_fwrite S data p =
     (let n = (case so_taken S (ps_calls p) of None \<Rightarrow> length data | Some n \<Rightarrow> n);
          b = ps_buffer p @ take n data;
          h = so_handed S (ps_calls p)
      in (n \<ge> length data,
          p\<lparr>ps_calls := ps_calls p + 1, ps_file := ps_file p @ take h b, ps_buffer := drop h b\<rparr>))"

definition sys_ftell :: "stdio \<Rightarrow> pcap_stream \<Rightarrow> int \<times> pcap_stream" where
  "sys_ftell S p =
     (int (length (ps_file p) + length (ps_buffer p)),
      if so_tell_flushes S then p\<lparr>ps_file := ps_file p @ ps_buffer p, ps_buffer := []\<rparr> else p)"

definition sys_ftruncate :: "stdio \<Rightarrow> nat \<Rightarrow> pcap_stream \<Rightarrow> pcap_stream" where
  "sys_ftruncate S n p =
     (let p' = p\<lparr>ps_calls := ps_calls p + 1\<rparr>
      in if so_truncated S (ps_calls p)
         then p'\<lparr>ps_file := take n (ps_file p) @ replicate (n - length (ps_file p)) 0\<rparr> else p')"

text \<open>The size of \<open>struct pcap_hdr_s\<close>.\<close>

definition PCAP_HDR_SIZE :: nat where "PCAP_HDR_SIZE = 24"

definition write_pcap :: "stdio \<Rightarrow> int \<Rightarrow> bytes \<Rightarrow> pcap_stream \<Rightarrow> pcap_stream" where
  "write_pcap S file_size data p =
     (let (ok, p) = sys_fwrite S data p
      in if \<not> ok then p
         else let (fsize, p) = sys_ftell S p
              in if fsize > file_size then sys_ftruncate S PCAP_HDR_SIZE p else p)"

text \<open>The records that the packet path and \<open>jni_pcap\<close> give to \<open>write_pcap\<close>, in their order, and the
  stream after them, from a file that was empty when it was opened.\<close>

fun pcap_writes :: "event list \<Rightarrow> bytes list" where
  "pcap_writes [] = []"
| "pcap_writes (e # es) = (case e of PcapRecord b \<Rightarrow> b # pcap_writes es | _ \<Rightarrow> pcap_writes es)"

definition pcap_output :: "stdio \<Rightarrow> int \<Rightarrow> event list \<Rightarrow> pcap_stream" where
  "pcap_output S file_size es =
     fold (write_pcap S file_size) (pcap_writes es) \<lparr>ps_calls = 0, ps_file = [], ps_buffer = []\<rparr>"

section \<open>Reading a capture\<close>

text \<open>The file format of libpcap, as a reader that gives each record its header and its data, or
  \<open>None\<close> when the file is not a capture of raw IP packets.\<close>

record pcaprec_hdr_s =
  ts_sec :: u32
  ts_usec :: u32
  incl_len :: u32
  orig_len :: u32

definition get_u32_le :: "bytes \<Rightarrow> u32" where
  "get_u32_le b = of_nat (unat (b ! 0) + 256 * unat (b ! 1) + 65536 * unat (b ! 2) + 16777216 * unat (b ! 3))"

definition get_pcaprec_hdr :: "bytes \<Rightarrow> pcaprec_hdr_s" where
  "get_pcaprec_hdr b = \<lparr>ts_sec = get_u32_le b, ts_usec = get_u32_le (drop 4 b),
     incl_len = get_u32_le (drop 8 b), orig_len = get_u32_le (drop 12 b)\<rparr>"

function pcap_records :: "bytes \<Rightarrow> (pcaprec_hdr_s \<times> bytes) list option" where
  "pcap_records b =
     (if b = [] then Some []
      else if length b < 16 then None
      else let h = get_pcaprec_hdr b; n = unat (incl_len h); rest = drop 16 b
           in if length rest < n then None
              else map_option ((#) (h, take n rest)) (pcap_records (drop n rest)))"
  by pat_completeness auto

termination pcap_records
  by (relation "measure length") auto

declare pcap_records.simps [simp del]

definition read_pcap :: "bytes \<Rightarrow> (pcaprec_hdr_s \<times> bytes) list option" where
  "read_pcap b =
     (if length b \<ge> 24 \<and> take 16 b = take 16 (pcap_hdr 0) \<and> drop 20 (take 24 b) = u32_le 101
      then pcap_records (drop 24 b) else None)"

lemma length_pcap_hdr [simp]: "length (pcap_hdr n) = PCAP_HDR_SIZE"
  by (simp add: pcap_hdr_def PCAP_HDR_SIZE_def)

lemma read_pcap_hdr: "read_pcap (pcap_hdr n @ b) = pcap_records b"
  by (simp add: read_pcap_def pcap_hdr_def u32_le_def u16_le_def)

lemma u32_le_nth:
  "unat (u32_le w ! 0) = unat w mod 256" "unat (u32_le w ! 1) = unat w div 256 mod 256"
  "unat (u32_le w ! 2) = unat w div 65536 mod 256" "unat (u32_le w ! 3) = unat w div 16777216 mod 256"
proof -
  have "unat w div 65536 mod 65536 = unat w div 65536" using unat_u32_lt [of w] by (simp add: less_mult_imp_div_less)
  moreover have m: "n mod 65536 div 256 = n div 256 mod 256" for n :: nat using mod_mult2_eq [of n 256 256] by simp
  ultimately show "unat (u32_le w ! 0) = unat w mod 256" "unat (u32_le w ! 1) = unat w div 256 mod 256"
    "unat (u32_le w ! 2) = unat w div 65536 mod 256" "unat (u32_le w ! 3) = unat w div 16777216 mod 256"
    by (simp_all add: u32_le_def u16_le_def unsigned_ucast_eq unsigned_drop_bit_eq unsigned_take_bit_eq
        drop_bit_eq_div [where ?'a = nat] take_bit_eq_mod [where ?'a = nat] mod_mod_cancel m flip: div_mult2_eq)
qed

lemma get_u32_le_u32_le [simp]: "get_u32_le (u32_le w @ b) = w"
proof -
  have d: "unat w div 16777216 < 256" using unat_u32_lt [of w] by (simp add: less_mult_imp_div_less)
  have a: "unat ((u32_le w @ b) ! i) = unat (u32_le w ! i)" if "i \<in> {0, 1, 2, 3}" for i
    using that by (auto simp: nth_append)
  have s: "n = n mod 256 + 256 * (n div 256)" for n :: nat by simp
  have q: "unat w div 256 div 256 = unat w div 65536" "unat w div 65536 div 256 = unat w div 16777216"
    by (simp_all flip: div_mult2_eq)
  have "unat w = unat w mod 256 + 256 * (unat w div 256 mod 256) + 65536 * (unat w div 65536 mod 256) +
      16777216 * (unat w div 16777216 mod 256)"
    using mod_less [OF d] s [of "unat w"] s [of "unat w div 256", unfolded q] s [of "unat w div 65536", unfolded q]
    by linarith
  then have "get_u32_le (u32_le w @ b) = of_nat (unat w)"
    unfolding get_u32_le_def by (subst (1 2 3 4) a) (simp_all only: u32_le_nth insert_iff simp_thms)
  then show ?thesis by simp
qed

definition rec_of :: "nat \<Rightarrow> u32 \<times> u32 \<Rightarrow> bytes \<Rightarrow> pcaprec_hdr_s \<times> bytes" where
  "rec_of n ts b = (\<lparr>ts_sec = fst ts, ts_usec = snd ts div 1000, incl_len = of_nat (min (length b) n),
     orig_len = of_nat (length b)\<rparr>, take n b)"

lemma pcap_records_Nil [simp]: "pcap_records [] = Some []"
  by (simp add: pcap_records.simps)

lemma pcap_records_rec:
  assumes "length b < 4294967296"
  shows "pcap_records (pcap_rec n ts b @ rest) = map_option ((#) (rec_of n ts b)) (pcap_records rest)"
proof -
  let ?l = "min (length b) n"
  have e: "pcap_rec n ts b = u32_le (fst ts) @ u32_le (snd ts div 1000) @ u32_le (of_nat ?l) @ u32_le (of_nat (length b)) @ take n b"
    by (simp add: pcap_rec_def Let_def min_def)
  have l: "unat (of_nat ?l :: u32) = ?l" using assms by (intro unat_of_nat32) simp
  have h: "get_pcaprec_hdr (pcap_rec n ts b @ rest) = fst (rec_of n ts b)"
    by (simp add: get_pcaprec_hdr_def e rec_of_def)
  have d: "drop 16 (pcap_rec n ts b @ rest) = take n b @ rest" "length (pcap_rec n ts b) \<ge> 16" by (simp_all add: e)
  then show ?thesis
    unfolding pcap_records.simps [of "pcap_rec n ts b @ rest"] h Let_def
    using l by (auto simp: rec_of_def min_def)
qed

section \<open>The file while stdio does its part\<close>

text \<open>Between two calls of \<open>write_pcap\<close> the file is the header and whole records; \<open>recs\<close> is what is
  left of the records written. After the header a step adds a record and, above the limit, drops all.\<close>

definition capture :: "bytes \<Rightarrow> bytes list \<Rightarrow> pcap_stream \<Rightarrow> bool" where
  "capture hdr recs p \<longleftrightarrow> ps_buffer p = [] \<and> ps_file p = hdr @ concat recs"

text \<open>What the stdio of Android does on a file with room: \<open>fwrite\<close> takes everything, and \<open>ftell\<close> of an
  append stream flushes it.\<close>

definition stdio_ok :: "stdio \<Rightarrow> bool" where
  "stdio_ok S \<longleftrightarrow> (\<forall>k. so_taken S k = None) \<and> so_tell_flushes S"

lemma take_min_drop: "take (min n (length xs)) xs @ drop n xs = xs"
  by (simp add: min_def)

lemma write_pcap_capture:
  assumes "stdio_ok S" and "capture hdr recs p" and "length hdr = PCAP_HDR_SIZE"
  shows "capture hdr (recs @ [r]) (write_pcap S file_size r p) \<or> capture hdr [] (write_pcap S file_size r p)"
    and "int (length (hdr @ concat (recs @ [r]))) \<le> file_size \<Longrightarrow> capture hdr (recs @ [r]) (write_pcap S file_size r p)"
    and "(\<forall>k. so_truncated S k) \<Longrightarrow> int (length (ps_file (write_pcap S file_size r p))) \<le> max (int PCAP_HDR_SIZE) file_size"
proof -
  obtain ok p1 where f: "sys_fwrite S r p = (ok, p1)" by (cases "sys_fwrite S r p")
  then have 1: "sys_fwrite S r p = (True, p1)" "ps_file p1 @ ps_buffer p1 = hdr @ concat (recs @ [r])"
    using assms by (auto simp: sys_fwrite_def stdio_ok_def capture_def Let_def take_min_drop)
  then have l: "length (ps_file p1) + length (ps_buffer p1) = length (hdr @ concat (recs @ [r]))"
    by (metis length_append)
  let ?p2 = "p1\<lparr>ps_file := hdr @ concat (recs @ [r]), ps_buffer := []\<rparr>"
  have 2: "sys_ftell S p1 = (int (length (hdr @ concat (recs @ [r]))), ?p2)"
    unfolding sys_ftell_def l using assms(1) 1(2) by (simp add: stdio_ok_def)
  have w: "write_pcap S file_size r p =
      (if int (length (hdr @ concat (recs @ [r]))) > file_size then sys_ftruncate S PCAP_HDR_SIZE ?p2 else ?p2)"
    by (simp add: write_pcap_def 1(1) 2)
  have t: "sys_ftruncate S PCAP_HDR_SIZE ?p2 = ?p2\<lparr>ps_calls := ps_calls p1 + 1, ps_file := hdr\<rparr> \<or>
      \<not> so_truncated S (ps_calls p1) \<and> sys_ftruncate S PCAP_HDR_SIZE ?p2 = ?p2\<lparr>ps_calls := ps_calls p1 + 1\<rparr>"
    using assms(3) by (simp add: sys_ftruncate_def Let_def)
  show "capture hdr (recs @ [r]) (write_pcap S file_size r p) \<or> capture hdr [] (write_pcap S file_size r p)"
    unfolding w using t by (auto simp: capture_def)
  show "capture hdr (recs @ [r]) (write_pcap S file_size r p)"
    if "int (length (hdr @ concat (recs @ [r]))) \<le> file_size"
    unfolding w using that by (simp add: capture_def)
  show "int (length (ps_file (write_pcap S file_size r p))) \<le> max (int PCAP_HDR_SIZE) file_size" if "\<forall>k. so_truncated S k"
    unfolding w using that t assms(3) by auto
qed

lemma writes_capture:
  assumes "stdio_ok S" and "length hdr = PCAP_HDR_SIZE"
    and "capture hdr recs p"
    and "(\<forall>k. so_truncated S k) \<longrightarrow> int (length (ps_file p)) \<le> max (int PCAP_HDR_SIZE) file_size"
  shows "\<exists>k. capture hdr (drop k (recs @ rs)) (fold (write_pcap S file_size) rs p) \<and>
      (int (length (hdr @ concat (recs @ rs))) \<le> file_size \<longrightarrow> k = 0) \<and>
      ((\<forall>k. so_truncated S k) \<longrightarrow>
        int (length (ps_file (fold (write_pcap S file_size) rs p))) \<le> max (int PCAP_HDR_SIZE) file_size)"
  using assms(3,4)
proof (induction rs arbitrary: recs p)
  case (Cons r rs)
  note s = write_pcap_capture [OF assms(1) Cons.prems(1) assms(2), where r = r and file_size = file_size]
  show ?case
  proof (cases "capture hdr (recs @ [r]) (write_pcap S file_size r p)")
    case True
    then show ?thesis using Cons.IH [OF True] s(3) by simp
  next
    case False
    then have c: "capture hdr [] (write_pcap S file_size r p)"
      and n: "\<not> int (length (hdr @ concat (recs @ [r]))) \<le> file_size" using s(1,2) by blast+
    have "int (length (hdr @ concat (recs @ [r]))) \<le> int (length (hdr @ concat (recs @ r # rs)))" by simp
    then have big: "\<not> int (length (hdr @ concat (recs @ r # rs))) \<le> file_size" using n by linarith
    obtain k where "capture hdr (drop k rs) (fold (write_pcap S file_size) (r # rs) p)"
      "(\<forall>k. so_truncated S k) \<longrightarrow>
         int (length (ps_file (fold (write_pcap S file_size) (r # rs) p))) \<le> max (int PCAP_HDR_SIZE) file_size"
      using Cons.IH [OF c] s(3) by auto
    then show ?thesis using big by (intro exI [of _ "length recs + 1 + k"]) (simp del: fold_Cons)
  qed
qed (auto intro: exI [of _ 0])

section \<open>Captures of the engine\<close>

lemma pcap_writes_append [simp]: "pcap_writes (es @ fs) = pcap_writes es @ pcap_writes fs"
  by (induction es) (auto split: event.split)

text \<open>The packets the engine writes one after the other.\<close>

definition write_packets :: "env \<Rightarrow> bytes list \<Rightarrow> world \<Rightarrow> world" where
  "write_packets E bs w = fold (write_pcap_rec E) bs w"

lemma write_packets_out:
  "\<exists>ts. length ts = length bs \<and>
     w_out (write_packets E bs w) = w_out w @ map (\<lambda>(t, b). PcapRecord (pcap_rec (pcap_record_size E) t b)) (zip ts bs)"
proof (induction bs arbitrary: w)
  case (Cons b bs)
  obtain t w1 where t: "write_pcap_rec E b w = w1" "w_out w1 = w_out w @ [PcapRecord (pcap_rec (pcap_record_size E) t b)]"
    by (simp add: write_pcap_rec_def ask_def)
  obtain ts where "length ts = length bs"
    "w_out (write_packets E bs w1) = w_out w1 @ map (\<lambda>(t, b). PcapRecord (pcap_rec (pcap_record_size E) t b)) (zip ts bs)"
    using Cons by blast
  then show ?case using t by (intro exI [of _ "t # ts"]) (simp add: write_packets_def)
qed (simp add: write_packets_def)

lemma pcap_writes_records: "pcap_writes (map (\<lambda>(t, b). PcapRecord (f t b)) xs) = map (\<lambda>(t, b). f t b) xs"
  by (induction xs) auto

lemma pcap_records_concat:
  assumes "\<forall>x\<in>set xs. length (snd x) < 4294967296"
  shows "pcap_records (concat (map (\<lambda>(t, b). pcap_rec n t b) xs)) = Some (map (\<lambda>(t, b). rec_of n t b) xs)"
  using assms by (induction xs) (auto simp: pcap_records_rec)

lemma header_capture:
  assumes "stdio_ok S"
  shows "capture (pcap_hdr n) [] (write_pcap S limit (pcap_hdr n) \<lparr>ps_calls = 0, ps_file = [], ps_buffer = []\<rparr>)"
    and "length (ps_file (write_pcap S limit (pcap_hdr n) \<lparr>ps_calls = 0, ps_file = [], ps_buffer = []\<rparr>)) = PCAP_HDR_SIZE"
  using assms
  by (simp_all add: write_pcap_def sys_fwrite_def sys_ftell_def sys_ftruncate_def stdio_ok_def capture_def Let_def
      take_min_drop [of _ "pcap_hdr n", simplified])

lemma jni_pcap_opened:
  assumes "jni_pcap (Some name) (Some 0) rsize limit g w = (g', w')"
  shows "w_out w' = w_out w @ [PcapRecord (pcap_hdr rsize)]" and "v_pcap_file_size g' = limit"
    and "v_pcap_record_size g' = rsize" and "v_pcap_file g'"
  using assms by (auto simp: jni_pcap_def write_pcap_hdr_def)

lemma length_pcap_rec: "length (pcap_rec n ts b) = 16 + min (length b) n"
  by (simp add: pcap_rec_def Let_def)

text \<open>C18: on a disk with room and a C library that behaves as Android's does (\<open>stdio_ok\<close>: each \<open>fwrite\<close> takes
  everything, and \<open>ftell\<close> flushes an append stream) the capture file is readable at any time: after \<open>jni_pcap\<close>
  has opened an empty file and any packets shorter than \<open>2^32\<close> bytes have been written, through any number
  of truncations, a reader of the libpcap format finds exactly the last of the packets, each with its
  length and its first \<open>record_size\<close> bytes; it finds all of them as long as they fit, and when the
  truncations succeed the file never stays larger than the limit. Without the assumption about \<open>ftell\<close> it is
  false (\<open>pcap_truncation_buffered\<close>).\<close>

theorem pcap_file_readable:
  assumes "stdio_ok S" and "\<forall>b\<in>set bs. length b < 4294967296"
    and "jni_pcap (Some name) (Some 0) rsize limit g w = (g', w0)"
    and "n = nat (rsize mod 2 ^ 64)"
    and "p = pcap_output S limit (drop (length (w_out w)) (w_out (write_packets (run_env E tun fwd rc x g') bs w0)))"
  shows "ps_buffer p = [] \<and>
    (\<exists>k. map_option (map (\<lambda>(h, d). (orig_len h, d))) (read_pcap (ps_file p)) =
          Some (map (\<lambda>b. (of_nat (length b), take n b)) (drop k bs)) \<and>
        (int (24 + sum_list (map (\<lambda>b. 16 + min (length b) n) bs)) \<le> limit \<longrightarrow> k = 0)) \<and>
    ((\<forall>k. so_truncated S k) \<longrightarrow> int (length (ps_file p)) \<le> max 24 limit)"
proof -
  note o = jni_pcap_opened [OF assms(3)]
  let ?E = "run_env E tun fwd rc x g'" and ?h = "pcap_hdr rsize"
  let ?r = "map (\<lambda>(t, b). pcap_rec n t b)" and ?p0 = "write_pcap S limit ?h \<lparr>ps_calls = 0, ps_file = [], ps_buffer = []\<rparr>"
  have n: "pcap_record_size ?E = n" using o(3) assms(4) by (simp add: run_env_def)
  obtain ts where ts: "length ts = length bs"
    "w_out (write_packets ?E bs w0) = w_out w0 @ map (\<lambda>(t, b). PcapRecord (pcap_rec n t b)) (zip ts bs)"
    using write_packets_out [of bs ?E w0] unfolding n by blast
  have p: "p = fold (write_pcap S limit) (?r (zip ts bs)) ?p0"
    using ts(2) o(1) by (simp add: assms(5) pcap_output_def pcap_writes_records)
  obtain k where k: "capture ?h (drop k (?r (zip ts bs))) p"
    "int (length (?h @ concat (?r (zip ts bs)))) \<le> limit \<longrightarrow> k = 0"
    "(\<forall>k. so_truncated S k) \<longrightarrow> int (length (ps_file p)) \<le> max (int PCAP_HDR_SIZE) limit"
    using writes_capture [OF assms(1) length_pcap_hdr header_capture(1) [OF assms(1), where n = rsize and limit = limit],
        where file_size = limit and rs = "?r (zip ts bs)"]
      header_capture(2) [OF assms(1), where n = rsize and limit = limit] unfolding p by auto
  have "map snd (drop k (zip ts bs)) = drop k bs" using ts(1) by (simp add: drop_zip)
  moreover have "\<forall>y\<in>set (drop k (zip ts bs)). length (snd y) < 4294967296"
    using assms(2) by (auto dest!: in_set_dropD set_zip_rightD)
  then have "read_pcap (ps_file p) = Some (map (\<lambda>(t, b). rec_of n t b) (drop k (zip ts bs)))"
    using k(1) by (simp add: capture_def read_pcap_hdr drop_map pcap_records_concat)
  then have "map_option (map (\<lambda>(h, d). (orig_len h, d))) (read_pcap (ps_file p)) =
      Some (map (\<lambda>b. (of_nat (length b), take n b)) (map snd (drop k (zip ts bs))))"
    by (simp add: rec_of_def split_beta)
  moreover have "length (concat (?r (zip ts bs))) = sum_list (map (\<lambda>b. 16 + min (length b) n) (map snd (zip ts bs)))"
    by (simp add: length_concat o_def split_beta length_pcap_rec)
  then have "length (concat (?r (zip ts bs))) = sum_list (map (\<lambda>b. 16 + min (length b) n) bs)" using ts(1) by simp
  ultimately show ?thesis using k by (auto simp: capture_def PCAP_HDR_SIZE_def)
qed

section \<open>Instances\<close>

definition example_stdio :: stdio where
  "example_stdio = \<lparr>so_taken = \<lambda>k. None, so_handed = \<lambda>k. 0, so_tell_flushes = True, so_truncated = \<lambda>k. True\<rparr>"

definition example_context :: ng_context where
  "example_context = \<lparr>x_pipe_read = 3, x_pipe_write = 4, x_sdk = 33, x_sessions = []\<rparr>"

text \<open>Three packets of five bytes into a file of at most 66 bytes: the third does not fit.\<close>

theorem pcap_file_readable_witness:
  "\<exists>g' w0 p k. jni_pcap (Some [99]) (Some 0) 4 66 example_globals example_world = (g', w0) \<and>
     p = pcap_output example_stdio 66 (drop (length (w_out example_world)) (w_out (write_packets
        (run_env example_env 5 True 3 example_context g') (replicate 3 [1, 2, 3, 4, 5]) w0))) \<and>
     map_option (map (\<lambda>(h, d). (orig_len h, d))) (read_pcap (ps_file p)) = Some (replicate k (5, [1, 2, 3, 4])) \<and>
     length (ps_file p) \<le> 66"
proof -
  obtain g' w0 where o: "jni_pcap (Some [99]) (Some 0) 4 66 example_globals example_world = (g', w0)"
    by (metis prod.exhaust)
  show ?thesis
    using pcap_file_readable [of example_stdio "replicate 3 [1, 2, 3, 4, 5]", OF _ _ o refl refl, of example_env 5 True 3 example_context]
    by (auto simp: example_stdio_def stdio_ok_def o)
qed

text \<open>The C standard lets \<open>ftell\<close> leave the buffer alone. Then the truncation removes only what has
  reached the kernel, and the rest of a record follows the header: the file is no capture any more.\<close>

definition buffered_stdio :: stdio where
  "buffered_stdio = \<lparr>so_taken = \<lambda>k. None, so_handed = \<lambda>k. [24, 19, 0, 17] ! k, so_tell_flushes = False,
     so_truncated = \<lambda>k. True\<rparr>"

lemma pcap_truncation_buffered:
  "read_pcap (ps_file (fold (write_pcap buffered_stdio 43) [pcap_hdr 64, pcap_rec 64 (0, 0) [1, 2, 3, 4], pcap_rec 64 (0, 0) []]
     \<lparr>ps_calls = 0, ps_file = [], ps_buffer = []\<rparr>)) = None"
proof -
  have r: "pcap_rec 64 (0, 0) [1, 2, 3, 4] = u32_le 0 @ u32_le 0 @ u32_le 4 @ u32_le 4 @ [1, 2, 3, 4]"
    "pcap_rec 64 (0, 0) [] = replicate 16 0"
    by (simp_all add: pcap_rec_def) (simp add: u32_le_def u16_le_def numeral_eq_Suc)
  let ?p = "\<lambda>k b. \<lparr>ps_calls = k, ps_file = pcap_hdr 64, ps_buffer = b\<rparr>"
  have 1: "write_pcap buffered_stdio 43 (pcap_hdr 64) \<lparr>ps_calls = 0, ps_file = [], ps_buffer = []\<rparr> = ?p 1 []"
    by (simp add: write_pcap_def sys_fwrite_def sys_ftell_def PCAP_HDR_SIZE_def buffered_stdio_def Let_def)
  have 2: "write_pcap buffered_stdio 43 (pcap_rec 64 (0, 0) [1, 2, 3, 4]) (?p 1 []) = ?p 3 [4]"
    by (simp add: write_pcap_def sys_fwrite_def sys_ftell_def sys_ftruncate_def PCAP_HDR_SIZE_def buffered_stdio_def Let_def r)
  have 3: "write_pcap buffered_stdio 43 (pcap_rec 64 (0, 0) []) (?p 3 [4]) =
      \<lparr>ps_calls = 4, ps_file = pcap_hdr 64 @ 4 # replicate 16 0, ps_buffer = []\<rparr>"
    by (simp add: write_pcap_def sys_fwrite_def sys_ftell_def PCAP_HDR_SIZE_def buffered_stdio_def Let_def r)
  have "get_u32_le (replicate 9 0) = 0" by (simp add: get_u32_le_def)
  then have "pcap_records (4 # replicate 16 0) = None"
    by (simp add: pcap_records.simps [of "4 # replicate 16 0"] pcap_records.simps [of "[0]"] get_pcaprec_hdr_def drop_Cons' Let_def)
  then show ?thesis using 1 2 3 by (simp add: read_pcap_hdr)
qed

end
