(* ===== verification/Ng_Defined.thy ===== *)
theory Ng_Defined
  imports Ng_Native Ng_Tcp_Law Ng_Tcp_Syn
begin

text \<open>
  Which runs of the engine are defined, that is, make no read or write outside a buffer and do not hang. The
  parsers and handlers are total on well-formed packets (\<open>packet_ok\<close>), the routines of the sockets on
  sessions whose queue holds its data (\<open>session_held\<close>, an invariant of the engine by a third interpretation of
  \<open>session_law\<close>), a turn of the loop when its events name sessions of the list (\<open>live\<close>), and so the whole
  run, which \<open>jni_stop\<close> ends.
\<close>

section \<open>Rules\<close>

abbreviation defined :: "'a option \<Rightarrow> bool" where
  "defined m \<equiv> good (\<lambda>_. True) m"

lemma defined_iff: "defined m \<longleftrightarrow> (\<exists>r. m = Some r)"
  by (simp add: good_def)

lemma defined_Some [simp]: "defined (Some x)"
  by (simp add: good_def)

lemma good_Let [good_intro]: "(\<And>y. y = x \<Longrightarrow> good P (f y)) \<Longrightarrow> good P (Let x f)"
  by simp

lemma good_prod [good_intro]: "(\<And>a b. x = (a, b) \<Longrightarrow> good P (f a b)) \<Longrightarrow> good P (case x of (a, b) \<Rightarrow> f a b)"
  by (cases x) simp

lemma good_prod_app [good_intro]:
  "(\<And>a b. x = (a, b) \<Longrightarrow> good P (f a b z)) \<Longrightarrow> good P ((case x of (a, b) \<Rightarrow> f a b) z)"
  by (cases x) simp

lemma good_option [good_intro]:
  "(x = None \<Longrightarrow> good P m) \<Longrightarrow> (\<And>y. x = Some y \<Longrightarrow> good P (f y)) \<Longrightarrow>
   good P (case x of None \<Rightarrow> m | Some y \<Rightarrow> f y)"
  by (cases x) simp_all

lemma good_recv [good_intro]:
  "(\<And>e. x = RecvError e \<Longrightarrow> good P (f e)) \<Longrightarrow> (\<And>b. x = RecvData b \<Longrightarrow> good P (g b)) \<Longrightarrow>
   good P (case x of RecvError e \<Rightarrow> f e | RecvData b \<Rightarrow> g b)"
  by (cases x) simp_all

lemma good_prod_bind [good_intro]:
  "(\<And>a b. x = (a, b) \<Longrightarrow> good P (f a b \<bind> g)) \<Longrightarrow> good P ((case x of (a, b) \<Rightarrow> f a b) \<bind> g)"
  by (cases x) simp

lemma good_if_bind [good_intro]:
  "(c \<Longrightarrow> good P (m \<bind> f)) \<Longrightarrow> (\<not> c \<Longrightarrow> good P (n \<bind> f)) \<Longrightarrow> good P ((if c then m else n) \<bind> f)"
  by simp

lemma good_defined: "defined m \<Longrightarrow> (\<And>r. m = Some r \<Longrightarrow> good P (f r)) \<Longrightarrow> good P (m \<bind> f)"
  by (auto simp: good_def)

section \<open>Well-formed packets\<close>

text \<open>The transport header is inside the packet. For TCP the data offset is right and the options of a SYN
  end; a UDP packet is not one of the DHCP ports, where \<open>check_dhcp\<close> writes outside its buffer.\<close>

definition transport_ok :: "bytes \<Rightarrow> nat \<Rightarrow> u8 \<Rightarrow> nat \<Rightarrow> bool" where
  "transport_ok buf plen protocol payload \<longleftrightarrow>
     payload \<le> plen \<and>
     (protocol = IPPROTO_TCP \<and> payload + 20 \<le> plen \<longrightarrow>
        5 \<le> unat (drop_bit 4 (buf ! (payload + 12))) \<and>
        payload + 4 * unat (drop_bit 4 (buf ! (payload + 12))) \<le> plen \<and>
        (bit (buf ! (payload + 13)) 1 \<longrightarrow>
           options_sound buf (payload + 20) (int (4 * unat (drop_bit 4 (buf ! (payload + 12))) - 20)))) \<and>
     (protocol = IPPROTO_UDP \<and> payload + 8 \<le> plen \<longrightarrow>
        be16 (buf ! payload) (buf ! (payload + 1)) \<noteq> 68 \<and> be16 (buf ! (payload + 2)) (buf ! (payload + 3)) \<noteq> 67)"

lemma transport_inside: "transport_ok buf plen protocol payload \<Longrightarrow> payload \<le> plen"
  by (simp add: transport_ok_def)

text \<open>The header is inside the packet too, and an IPv6 packet has no extension headers.\<close>

definition packet_ok :: "bytes \<Rightarrow> nat \<Rightarrow> bool" where
  "packet_ok buf plen \<longleftrightarrow> plen \<le> length buf \<and>
     (let version = unat (drop_bit 4 (buf ! 0)); ihl = unat (buf ! 0 AND 0x0F)
      in (version = 4 \<and> 20 \<le> plen \<longrightarrow> 5 \<le> ihl \<and> transport_ok buf plen (buf ! 9) (4 * ihl)) \<and>
         (version = 6 \<and> 40 \<le> plen \<longrightarrow> is_upper_layer (buf ! 6) \<and> transport_ok buf plen (buf ! 6) 40))"

section \<open>The parsers of the packet path\<close>

lemma pkt_addrs_defined: "40 \<le> length buf \<Longrightarrow> defined (pkt_addrs buf v)"
  unfolding pkt_addrs_def by (intro good_intro; simp)

lemma udp_key_defined:
  assumes "40 \<le> length buf" and "payload + 4 \<le> length buf"
  shows "good (\<lambda>(v, sa, sp, da, dp). sp = be16 (buf ! payload) (buf ! (payload + 1)) \<and>
    dp = be16 (buf ! (payload + 2)) (buf ! (payload + 3))) (udp_key buf payload)"
  unfolding udp_key_def
  by (intro good_intro good_defined [OF pkt_addrs_defined]) (use assms in \<open>auto simp: rd16_Some numeral_3_eq_3\<close>)

lemma get_tcphdr_defined:
  assumes "payload + 16 \<le> length buf"
  shows "good (\<lambda>h. th_doff h = drop_bit 4 (buf ! (payload + 12)) \<and> th_syn h = bit (buf ! (payload + 13)) 1)
    (get_tcphdr buf payload)"
  unfolding get_tcphdr_def by (intro good_intro) (use assms in \<open>auto simp: rd_Some\<close>)

lemma has_udp_session_defined:
  assumes "40 \<le> length buf" and "payload + 4 \<le> length buf"
  shows "defined (has_udp_session E buf payload ss)"
  unfolding has_udp_session_def
  by (rule good_bind [OF udp_key_defined [OF assms]]) (auto intro: good_Some)

section \<open>ICMP\<close>

lemma icmp_request_csum_defined: "7 \<le> length buf \<Longrightarrow> defined (icmp_request_csum buf v sa da)"
  unfolding icmp_request_csum_def by (intro good_intro; simp)

lemma good_icmp [good_intro]:
  "\<exists>c. s_proto s = Icmp c \<Longrightarrow> (\<And>c. s_proto s = Icmp c \<Longrightarrow> good P (f c)) \<Longrightarrow>
   good P (case s_proto s of Icmp c \<Rightarrow> f c | Udp u \<Rightarrow> None | Tcp t \<Rightarrow> None)"
  by auto

lemma good_udp [good_intro]:
  "\<exists>u. s_proto s = Udp u \<Longrightarrow> (\<And>u. s_proto s = Udp u \<Longrightarrow> good P (f u)) \<Longrightarrow>
   good P (case s_proto s of Icmp c \<Rightarrow> None | Udp u \<Rightarrow> f u | Tcp t \<Rightarrow> None)"
  by auto

lemma good_tcp [good_intro]:
  "\<exists>t. s_proto s = Tcp t \<Longrightarrow> (\<And>t. s_proto s = Tcp t \<Longrightarrow> good P (f t)) \<Longrightarrow>
   good P (case s_proto s of Icmp c \<Rightarrow> None | Udp u \<Rightarrow> None | Tcp t \<Rightarrow> f t)"
  by auto

lemma find_holds: "find P xs = Some x \<Longrightarrow> P x"
  by (induction xs) (auto split: if_splits)

lemma find_proto:
  "find (icmp_match v sa da) ss = Some s \<Longrightarrow> \<exists>c. s_proto s = Icmp c"
  "find (udp_match v sa so da de) ss = Some s \<Longrightarrow> \<exists>u. s_proto s = Udp u"
  "find (tcp_match v sa so da de) ss = Some s \<Longrightarrow> \<exists>t. s_proto s = Tcp t"
  by (auto simp: icmp_match_def udp_match_def tcp_match_def dest!: find_holds split: proto_session.splits)

lemma handle_icmp_defined:
  assumes "40 \<le> length buf" and "payload + 8 \<le> plen" and "plen \<le> length buf"
  shows "defined (handle_icmp E buf plen payload uid ss w)"
  unfolding handle_icmp_def
  by (intro good_intro good_defined [OF pkt_addrs_defined] good_defined [OF icmp_request_csum_defined])
    (use assms in \<open>auto dest!: icmp_found find_proto\<close>)

section \<open>UDP\<close>

lemma get_dns_query_defined: "length qname = 256 \<Longrightarrow> defined (get_dns_query data qname)"
  unfolding get_dns_query_def by (intro good_intro good_get_qname) auto

lemma check_domain_defined: "12 \<le> length data \<Longrightarrow> defined (check_domain E u data qclass qtype name w)"
  unfolding check_domain_def by (intro good_intro good_dns_reply) auto

lemma udp_answer_defined: "defined (udp_answer E u dest data w)"
proof -
  have "12 \<le> length data" if "get_dns_query data q = Some (Some x)" for q x
    using that by (auto simp: get_dns_query_def split: if_split_asm)
  then show ?thesis
    unfolding udp_answer_def
    by (intro good_intro good_defined [OF get_dns_query_defined] check_domain_defined) auto
qed

lemma udp_active_defined:
  assumes "source \<noteq> 68" and "dest \<noteq> 67"
  shows "defined (udp_active E sock u source dest data redirect w)"
  unfolding udp_active_def
  using assms by (intro good_intro good_defined [OF udp_answer_defined]) auto

lemma handle_udp_defined:
  assumes "40 \<le> length buf" and "payload + 8 \<le> plen" and "plen \<le> length buf"
    and "be16 (buf ! payload) (buf ! (payload + 1)) \<noteq> 68" and "be16 (buf ! (payload + 2)) (buf ! (payload + 3)) \<noteq> 67"
  shows "defined (handle_udp E buf plen payload uid redirect ss w)"
proof -
  obtain v sa so da de where k: "udp_key buf payload = Some (v, sa, so, da, de)" "so \<noteq> 68" "de \<noteq> 67"
    using udp_key_defined [of buf payload] assms by (auto simp: good_def)
  show ?thesis
    unfolding handle_udp_def k(1) bind.bind_lunit prod.case
    by (intro good_intro good_defined [OF udp_active_defined]) (use assms k in \<open>auto dest!: udp_found find_proto\<close>)
qed

lemma block_udp_defined:
  assumes "40 \<le> length buf" and "payload + 4 \<le> length buf"
  shows "defined (block_udp E buf payload uid ss w)"
  unfolding block_udp_def
  by (rule good_bind [OF udp_key_defined [OF assms]]) (auto simp: split_beta Let_def intro: good_Some)

section \<open>TCP\<close>

text \<open>The data offset in 8-bit arithmetic.\<close>

lemma doff_bytes: "5 \<le> unat d \<Longrightarrow> unat d \<le> 15 \<Longrightarrow> unat ((d - 5) * 4 :: u8) = 4 * unat d - 20"
proof -
  assume d: "5 \<le> unat d" "unat d \<le> 15"
  then have "unat (d - 5) = unat d - 5" by (subst unat_sub) (simp_all add: word_le_nat_alt)
  moreover have "unat ((d - 5) * 4) = unat (d - 5) * unat (4 :: u8) mod 2 ^ LENGTH(8)"
    by (rule unat_word_ariths)
  ultimately show ?thesis using d by simp
qed

lemma tcp_known_defined: "data + unat datalen \<le> length buf \<Longrightarrow> defined (tcp_known E sock buf data datalen h t w)"
  unfolding tcp_known_def by (intro good_intro) (auto simp: slice_Some)

lemma tcp_syn_defined:
  assumes "options_sound buf (payload + 20) (int n)" and "payload + 20 + n + 3 \<le> length buf"
    and "data + unat datalen \<le> length buf"
  shows "defined (tcp_syn E buf payload n h data datalen v sa da uid al redirect ss w)"
proof -
  have "defined (tcp_options_loop buf (payload + 20) (int n) (get_default_mss v) 0)"
    using options_loop_iff [of "int n" "payload + 20" buf] assms(1,2) by (simp add: defined_iff)
  then show ?thesis
    unfolding tcp_syn_def by (intro good_intro good_defined) (use assms(3) in auto)
qed

text \<open>Where the data of a segment is, and how long.\<close>

lemma tcp_offset:
  assumes "plen \<le> length buf" and "plen < 65536" and "payload + 20 \<le> plen" and "transport_ok buf plen IPPROTO_TCP payload"
  obtains h n where "get_tcphdr buf payload = Some h" "unat ((th_doff h - 5) * 4) = n" "n \<le> 40" "payload + 20 + n \<le> plen"
    "unat (of_int (int plen - int (payload + 20 + n)) :: u16) = plen - (payload + 20 + n)"
    "th_syn h \<longrightarrow> options_sound buf (payload + 20) (int n)"
proof -
  let ?d = "drop_bit 4 (buf ! (payload + 12))"
  have ok: "5 \<le> unat ?d" "payload + 4 * unat ?d \<le> plen"
    "bit (buf ! (payload + 13)) 1 \<longrightarrow> options_sound buf (payload + 20) (int (4 * unat ?d - 20))"
    using assms(3,4) unfolding transport_ok_def by blast+
  have le: "unat ?d \<le> 15" using unat_u8_lt [of "buf ! (payload + 12)"] by (simp add: unat_drop_bit_eq drop_bit_nat_def)
  obtain h where h: "get_tcphdr buf payload = Some h" "th_doff h = ?d" "th_syn h = bit (buf ! (payload + 13)) 1"
    using get_tcphdr_defined [of payload buf] assms(1,3) by (auto simp: good_def)
  have n: "unat ((th_doff h - 5) * 4) = 4 * unat ?d - 20" unfolding h(2) by (rule doff_bytes [OF ok(1) le])
  have "payload + 20 + (4 * unat ?d - 20) \<le> plen" using ok(1,2) by simp
  moreover from this have "unat (of_int (int plen - int (payload + 20 + (4 * unat ?d - 20))) :: u16) =
      plen - (payload + 20 + (4 * unat ?d - 20))"
    using assms(2) unat_of_nat16 [of "plen - (payload + 20 + (4 * unat ?d - 20))"] by (simp add: of_nat_diff)
  ultimately show thesis using that [OF h(1) n] le ok(3) h(3) by simp
qed

lemma handle_tcp_defined:
  assumes "124 \<le> length buf" and "payload \<le> 60" and "plen \<le> length buf" and "plen < 65536"
    and "payload + 20 \<le> plen" and "transport_ok buf plen IPPROTO_TCP payload"
  shows "defined (handle_tcp E buf plen payload uid al redirect ss w)"
proof -
  obtain h n where h: "get_tcphdr buf payload = Some h" "unat ((th_doff h - 5) * 4) = n" "n \<le> 40" "payload + 20 + n \<le> plen"
    "unat (of_int (int plen - int (payload + 20 + n)) :: u16) = plen - (payload + 20 + n)"
    "th_syn h \<longrightarrow> options_sound buf (payload + 20) (int n)"
    by (rule tcp_offset [OF assms(3-6)])
  define len where "len = (of_int (int plen - int (payload + 20 + n)) :: u16)"
  show ?thesis
    unfolding handle_tcp_def h(1) bind.bind_lunit Let_def h(2) len_def [symmetric]
    by (intro good_intro good_defined [OF pkt_addrs_defined] good_defined [OF tcp_known_defined] tcp_syn_defined)
      (use assms h len_def in \<open>auto dest!: find_proto\<close>)
qed

section \<open>IP\<close>

text \<open>What \<open>ip_ports\<close> has checked when it lets a packet pass.\<close>

definition room :: "nat \<Rightarrow> u8 \<Rightarrow> nat \<Rightarrow> bool" where
  "room plen protocol payload \<longleftrightarrow>
     (is_icmp protocol \<or> protocol = IPPROTO_UDP \<longrightarrow> payload + 8 \<le> plen) \<and>
     (protocol = IPPROTO_TCP \<longrightarrow> payload + 20 \<le> plen)"

lemma protocols_differ:
  "\<not> is_icmp IPPROTO_UDP" "\<not> is_icmp IPPROTO_TCP" "IPPROTO_UDP \<noteq> IPPROTO_TCP"
  by (simp_all add: is_icmp_def)

lemma ip_header_defined:
  assumes "packet_ok buf plen" and "124 \<le> length buf"
  shows "good (\<lambda>hdr. case hdr of None \<Rightarrow> True | Some (v, protocol, sa, da, payload) \<Rightarrow>
    payload \<le> 60 \<and> transport_ok buf plen protocol payload) (ip_header E buf plen)"
proof -
  let ?i = "unat (buf ! 0 AND 0x0F)"
  have le: "?i \<le> 15" using word_and_le1 [of "buf ! 0" "0x0F"] by (simp add: word_le_nat_alt)
  have ihl: "20 + unat (((buf ! 0 AND 0x0F) - 5) * 4) = 4 * ?i" if "5 \<le> ?i" using doff_bytes [OF that le] that by simp
  have l6: "ip6_payload buf nxt = Some (nxt, 40)" if "is_upper_layer nxt" for nxt using that by (simp add: ip6_payload_def)
  show ?thesis
  proof (cases "unat (drop_bit 4 (buf ! 0)) = 4 \<and> 20 \<le> plen")
    case True
    then have "5 \<le> ?i" "transport_ok buf plen (buf ! 9) (4 * ?i)"
      using assms(1) by (simp_all add: packet_ok_def Let_def)
    then show ?thesis
      unfolding ip_header_def
      by (intro good_intro good_defined [OF pkt_addrs_defined])
        (use assms(2) True le ihl in \<open>auto simp: rd_eq_Some_iff\<close>)
  next
    case False
    then show ?thesis
      unfolding ip_header_def
      by (intro good_intro good_defined [OF pkt_addrs_defined] good_defined [of "ip6_payload _ _"])
        (use assms in \<open>auto simp: rd_eq_Some_iff packet_ok_def Let_def l6\<close>)
  qed
qed

lemma ip_ports_defined:
  assumes "124 \<le> length buf" and "payload \<le> 60" and "plen \<le> length buf" and "payload \<le> plen"
  shows "good (\<lambda>r. r \<noteq> None \<longrightarrow> room plen protocol payload) (ip_ports buf plen protocol payload)"
  unfolding ip_ports_def
  by (intro good_intro good_bind [OF get_tcphdr_defined])
    (use assms in \<open>auto simp: too_short_def room_def protocols_differ\<close>)

lemma tcp_data_defined:
  assumes "plen \<le> length buf" and "plen < 65536" and "payload + 20 \<le> plen" and "transport_ok buf plen IPPROTO_TCP payload"
  shows "good (\<lambda>(data, len). data \<le> plen \<and> unat len = plen - data) (tcp_data buf plen payload)"
  by (rule tcp_offset [OF assms]) (simp only: tcp_data_def bind.bind_lunit Let_def good_def prod.case, blast)

lemma ip_sni_defined:
  assumes "plen \<le> length buf" and "plen < 65536" and "room plen protocol payload" and "transport_ok buf plen protocol payload"
  shows "defined (ip_sni buf plen protocol payload)"
proof -
  have sni: "defined (get_sni (drop data buf) len)" if "data \<le> plen" "unat len = plen - data" for data len
    by (rule good_mono [OF get_sni_good]) (use that assms(1) in auto)
  show ?thesis
  proof (cases "protocol = IPPROTO_TCP")
    case True
    then show ?thesis using assms sni
      by (auto simp: ip_sni_def room_def intro!: good_bind [OF tcp_data_defined])
  qed (simp add: ip_sni_def)
qed

lemma ip_hostname_defined:
  assumes "plen \<le> length buf" and "plen < 65536" and "room plen protocol payload" and "transport_ok buf plen protocol payload"
  shows "defined (ip_hostname E buf plen protocol payload name w)"
proof (cases "name = [] \<and> protocol = IPPROTO_TCP")
  case True
  then show ?thesis
    unfolding ip_hostname_def if_P [OF True]
    by (intro good_bind [OF tcp_data_defined] good_intro; use assms in \<open>auto simp: room_def intro!: good_intro\<close>)
qed (auto simp: ip_hostname_def)

lemma ip_allowed_defined:
  assumes "124 \<le> length buf" and "payload \<le> 60" and "plen \<le> length buf" and "plen < 65536"
    and "room plen protocol payload" and "transport_ok buf plen protocol payload"
  shows "defined (ip_allowed E buf plen (v, protocol, sa, da, payload) sp dp syn flags data sni uid ss w)"
  unfolding ip_allowed_def prod.case
  by (intro good_intro good_defined [OF has_udp_session_defined] good_defined [OF ip_hostname_defined] good_defined)
    (use assms in auto)

lemma ip_dispatch_defined:
  assumes "124 \<le> length buf" and "payload \<le> 60" and "plen \<le> length buf" and "plen < 65536"
    and "room plen protocol payload" and "transport_ok buf plen protocol payload"
  shows "defined (ip_dispatch E buf plen protocol payload uid named allowed redirect ss w)"
  unfolding ip_dispatch_def
  by (intro good_intro good_defined [OF handle_icmp_defined] good_defined [OF handle_udp_defined]
      good_defined [OF handle_tcp_defined] block_udp_defined)
    (use assms in \<open>auto simp: room_def transport_ok_def\<close>)

lemma ip_starts_defined:
  assumes "40 \<le> length buf" and "payload + 4 \<le> length buf"
  shows "defined (ip_starts E buf protocol payload syn ss)"
  unfolding ip_starts_def by (intro good_intro good_defined [OF has_udp_session_defined [OF assms]]) auto

lemma handle_ip_defined:
  assumes "packet_ok buf plen" and "124 \<le> length buf" and "plen < 65536"
  shows "defined (handle_ip E buf plen n m ss cache w)"
proof -
  have plen: "plen \<le> length buf" using assms(1) by (simp add: packet_ok_def)
  obtain hdr where h: "ip_header E buf plen = Some hdr" "case hdr of None \<Rightarrow> True | Some (v, p, sa, da, payload) \<Rightarrow>
      payload \<le> 60 \<and> transport_ok buf plen p payload"
    using ip_header_defined [OF assms(1,2)] by (auto simp: good_def)
  show ?thesis
  proof (cases hdr)
    case (Some y)
    obtain v p sa da payload where y: "y = (v, p, sa, da, payload)" by (cases y)
    then have t: "payload \<le> 60" "transport_ok buf plen p payload" "payload \<le> plen"
      using h(2) Some transport_inside [of buf plen p payload] by auto
    obtain ports where ports: "ip_ports buf plen p payload = Some ports" "ports \<noteq> None \<longrightarrow> room plen p payload"
      using ip_ports_defined [OF assms(2) t(1) plen t(3), of p] unfolding good_def by blast
    show ?thesis
    proof (cases ports)
      case None
      then show ?thesis by (simp add: handle_ip_def h(1) Some y ports(1))
    next
      case (Some z)
      then have r: "room plen p payload" using ports(2) by simp
      obtain sp dp syn fl data where z: "z = (sp, dp, syn, fl, data)" by (cases z)
      note d = ip_starts_defined ip_sni_defined [OF plen assms(3) r t(2)]
        ip_allowed_defined [OF assms(2) t(1) plen assms(3) r t(2)] ip_dispatch_defined [OF assms(2) t(1) plen assms(3) r t(2)]
      show ?thesis
        unfolding handle_ip_def h(1) \<open>hdr = Some y\<close> y bind.bind_lunit option.case prod.case ports(1) \<open>ports = Some z\<close> z Let_def
        by (intro good_intro d [THEN good_defined]) (use assms t in auto)
    qed
  qed (simp add: handle_ip_def h(1))
qed

section \<open>The tun device\<close>

text \<open>The buffer a packet is read into, and packets from the tun device that are well-formed.\<close>

definition tun_buffer :: "bytes \<Rightarrow> bytes \<Rightarrow> bytes" where
  "tun_buffer b heap = take (unat get_mtu) (take (unat get_mtu) b @ heap @ replicate (unat get_mtu) 0)"

definition tun_ok :: "env \<Rightarrow> bool" where
  "tun_ok E \<longleftrightarrow> (\<forall>j k b. e_tun_read E k = RecvData b \<longrightarrow>
     packet_ok (tun_buffer b (e_heap E j)) (length (take (unat get_mtu) b)))"

lemma check_tun_defined:
  assumes "tun_ok E"
  shows "defined (check_tun E events n m ss cache w)"
proof -
  have mtu: "unat get_mtu = 10000" by (simp add: get_mtu_def)
  have ip: "defined (handle_ip E (tun_buffer b (e_heap E j)) (length (take (unat get_mtu) b)) n m ss cache w)"
    if "e_tun_read E k = RecvData b" for k b j w
    using assms that by (intro handle_ip_defined) (auto simp: tun_ok_def tun_buffer_def mtu)
  show ?thesis
    unfolding check_tun_def Let_def ask_def prod.case tun_buffer_def [symmetric]
    by (intro good_intro good_defined [OF ip]) auto
qed

lemma tun_loop_defined: "tun_ok E \<Longrightarrow> defined (tun_loop k E events n m ss cache w)"
proof (induction k arbitrary: ss cache w)
  case (Suc k)
  then show ?case
    unfolding tun_loop.simps by (intro good_intro good_defined [OF check_tun_defined]) auto
qed simp

section \<open>Sockets\<close>

text \<open>The size of a send buffer and what is queued in it are natural numbers of an \<open>int\<close>.\<close>

definition buffers_ok :: "env \<Rightarrow> bool" where
  "buffers_ok E \<longleftrightarrow> (\<forall>k s. e_sndbuf E k s < 2147483648 \<and> 0 \<le> e_outq E k s)"

lemma unat_u16_u32: "unat (ucast (x :: u16) :: u32) = unat x"
  using unat_u16_lt [of x] by (simp add: unsigned_ucast_eq unat_take_id)

lemma seg_left_back:
  assumes "unat (seg_left g) \<le> 2147483648"
  shows "g_sent g \<le> g_len g" and "unat (seg_left g) = unat (g_len g) - unat (g_sent g)"
proof -
  have b: "unat (g_len g) < 65536" "unat (g_sent g) < 65536" by (rule unat_u16_lt)+
  show le: "g_sent g \<le> g_len g"
  proof (rule ccontr)
    assume "\<not> ?thesis"
    then have "unat (seg_left g) = unat (g_len g) + 4294967296 - unat (g_sent g)"
      using unat_sub_if_size [of "ucast (g_len g) :: u32" "ucast (g_sent g)"]
      by (simp add: seg_left_def unat_u16_u32 word_le_nat_alt word_size)
    then show False using assms b by simp
  qed
  then show "unat (seg_left g) = unat (g_len g) - unat (g_sent g)"
    unfolding seg_left_def by (subst unat_sub) (simp_all add: unat_u16_u32 word_le_nat_alt)
qed

lemma sys_send_le: "sys_send E s b m w = ((r, err), w') \<Longrightarrow> r \<le> int (length b)"
  by (auto simp: sys_send_def Let_def split: prod.splits if_split_asm)

lemma forward_loop_defined:
  "\<forall>g\<in>set q. length (g_data g) = unat (g_len g) \<Longrightarrow> unat bs \<le> 2147483648 \<Longrightarrow> defined (forward_loop E sock q t fwd bs w)"
proof (induction q arbitrary: t fwd bs w)
  case (Cons g q)
  show ?case
  proof (cases "g_seq g = t_remote_seq t \<and> seg_left g < bs")
    case True
    then have lt: "unat (seg_left g) < unat bs" by (simp add: word_less_nat_alt)
    then have "unat (seg_left g) \<le> 2147483648" using Cons.prems(2) by simp
    note g = seg_left_back [OF this]
    let ?b = "take (unat (g_len g) - unat (g_sent g)) (drop (unat (g_sent g)) (g_data g))"
    have b: "slice (g_data g) (unat (g_sent g)) (unat (g_len g) - unat (g_sent g)) = Some ?b"
      using g(1) Cons.prems(1) by (intro slice_Some) (simp add: word_le_nat_alt)
    have rest: "defined (forward_loop E sock q t' True (bs - of_int sent) w')"
      if send: "sys_send E sock ?b (\<not> g_psh g) w = ((sent, err), w')" and pos: "\<not> sent < 0" for sent err w' t'
    proof (rule Cons.IH)
      have "sent \<le> int (length ?b)" by (rule sys_send_le [OF send])
      then obtain k where k: "sent = int k" "k \<le> unat (seg_left g)" using pos g(2) by (cases sent) auto
      then have u: "unat (of_nat k :: u32) = k" using lt Cons.prems(2) by (intro unat_of_nat32) simp
      then have "unat (bs - of_nat k) = unat bs - k" using k(2) lt by (subst unat_sub) (simp_all add: word_le_nat_alt)
      then show "unat (bs - of_int sent) \<le> 2147483648" using Cons.prems(2) k(1) by simp
    qed (use Cons.prems(1) in simp)
    obtain sent err w1 where send: "sys_send E sock ?b (\<not> g_psh g) w = ((sent, err), w1)" by (metis prod.exhaust)
    show ?thesis
      unfolding forward_loop.simps(2) if_P [OF True] if_P [OF g(1)] b bind.bind_lunit send prod.case
      by (intro good_intro rest [OF send]) auto
  next
    case False
    then show ?thesis unfolding forward_loop.simps(2) if_not_P [OF False] by simp
  qed
qed simp

lemma parse_dns_defined: "defined (parse_dns_response E data w)"
  using parse_dns_response_ok [of E data w] by (auto simp: good_def)

lemma receive_buffer_bound:
  assumes "buffers_ok E" and "get_receive_buffer E sock w = (bs, w')"
  shows "unat bs \<le> 2147483648"
proof (cases "bs = 0")
  case False
  let ?s = "if e_sndbuf E (w_calls w) sock = 0 then SEND_BUF_DEFAULT else e_sndbuf E (w_calls w) sock"
  let ?u = "e_outq E (w_calls (called w)) sock"
  have "?u < ?s" "bs = of_int (?s - ?u)"
    using assms(2) False by (auto simp: get_receive_buffer_def ask_def Let_def split: if_split_asm)
  moreover have "?s < 2147483648" "0 \<le> ?u" using assms(1) by (simp_all add: buffers_ok_def SEND_BUF_DEFAULT_def)
  ultimately have "bs = of_nat (nat (?s - ?u))" "nat (?s - ?u) < 2147483648" by simp_all
  then show ?thesis using unat_of_nat32 [of "nat (?s - ?u)"] by simp
qed simp

lemma tcp_forward_defined:
  assumes "buffers_ok E" and "queue_held t"
  shows "defined (tcp_forward E sock t events w)"
proof -
  have "defined (forward_loop E sock (t_forward t) t False bs w1)" if "get_receive_buffer E sock w = (bs, w1)" for bs w1
    using assms receive_buffer_bound [OF assms(1) that] by (intro forward_loop_defined) (simp_all add: queue_held_def)
  then show ?thesis
    unfolding tcp_forward_def by (intro good_intro) (auto intro: good_defined)
qed

lemma tcp_read_data_defined: "defined (tcp_read_data E t b w)"
proof -
  obtain d n w1 where "parse_dns_response E (drop 2 b) w = Some ((d, n), w1)"
    using parse_dns_defined [of E "drop 2 b" w] by (auto simp: good_def)
  then show ?thesis by (simp add: tcp_read_data_def Let_def split: prod.split)
qed

lemma check_tcp_socket_defined:
  assumes "buffers_ok E" and "queue_held t"
  shows "defined (check_tcp_socket E s t events w)"
proof -
  have "defined (tcp_read E s t events w)" for t w
    unfolding tcp_read_def Let_def
    by (intro good_intro good_defined [OF tcp_read_data_defined]) (auto split: recv_result.split)
  then show ?thesis
    unfolding check_tcp_socket_def
    by (intro good_intro good_defined [OF tcp_forward_defined [OF assms]]) auto
qed

lemma udp_received_defined: "defined (udp_received E u b w)"
proof -
  obtain d n w1 where "parse_dns_response E b w = Some ((d, n), w1)"
    using parse_dns_defined [of E b w] by (auto simp: good_def)
  then show ?thesis by (simp add: udp_received_def Let_def split: prod.split)
qed

lemma check_udp_socket_defined: "defined (check_udp_socket E s u events w)"
  unfolding check_udp_socket_def Let_def
  by (intro good_intro udp_received_defined) (auto intro: udp_received_defined split: recv_result.split)

lemma udp_loop_defined: "defined (udp_loop k E events s u w)"
proof (induction k arbitrary: u w)
  case (Suc k)
  show ?case unfolding udp_loop.simps
    by (intro good_intro good_defined [OF check_udp_socket_defined] Suc.IH) auto
qed simp

definition session_held :: "ng_session \<Rightarrow> bool" where
  "session_held s = (case s_proto s of Tcp t \<Rightarrow> queue_held t | _ \<Rightarrow> True)"

lemma session_event_defined:
  assumes "buffers_ok E" and "session_held s"
  shows "defined (session_event E events s w)"
  using assms
  by (auto simp: session_event_def session_held_def split: proto_session.splits prod.splits
      intro!: good_defined [OF udp_loop_defined] good_defined [OF check_tcp_socket_defined] good_intro)

section \<open>The sessions of a turn\<close>

lemma created_held: "tcp_created (s, t) \<Longrightarrow> queue_held t"
  by (auto simp: tcp_syn_def tcp_register_def bind_eq_Some_conv Let_def split_beta fst_write_rst new_tcp_def
      queue_held_def dest!: length_slice elim!: tcp_created_cases split: if_split_asm)

interpretation held_sessions: session_law session_held
proof unfold_locales
  show "session_held s" if "session_created s" for s
    using that by (auto simp: session_created_def session_held_def created_held split: proto_session.splits)
  show "session_held s'" if "session_step s s'" "session_held s" for s s'
    using that by (cases rule: session_step.cases) (auto simp: session_held_def dest: held.tcp_step_law)
qed

text \<open>Packets and events only add sessions.\<close>

definition ptrs :: "ng_session list \<Rightarrow> nat set" where
  "ptrs ss = s_ptr ` set ss"

lemma moves_ptrs: "list_all2 moves ss ss' \<Longrightarrow> ptrs ss' = ptrs ss"
  by (induction rule: list_all2_induct) (auto simp: ptrs_def dest: moves_same)

lemma grows_ptrs: "grows ss ss' \<Longrightarrow> ptrs ss \<subseteq> ptrs ss'"
  by (auto simp: grows_def ptrs_def image_Un dest!: moves_ptrs)

definition live :: "ng_session list \<Rightarrow> (epoll_target \<times> u32) list \<Rightarrow> bool" where
  "live ss evs \<longleftrightarrow> (\<forall>p e. (OnSession p, e) \<in> set evs \<longrightarrow> p \<in> ptrs ss)"

lemma dispatch_event_defined:
  assumes "buffers_ok E" and "tun_ok E" and "list_all session_held ss" and "\<forall>p. target = OnSession p \<longrightarrow> p \<in> ptrs ss"
  shows "defined (dispatch_event E n m target events ss cache w)"
proof (cases target)
  case (OnSession p)
  then obtain s where s: "find (\<lambda>s. s_ptr s = p) ss = Some s"
    using assms(4) find_None_iff [of "\<lambda>s. s_ptr s = p" ss] by (auto simp: ptrs_def)
  then show ?thesis
    unfolding dispatch_event_def OnSession epoll_target.case s option.case
    by (intro good_defined [OF session_event_defined] good_intro assms(1) list_all_find [OF assms(3) s]) simp
qed (use assms(2) in \<open>auto simp: dispatch_event_def intro: tun_loop_defined\<close>)

lemma dispatch_events_defined:
  assumes "poll_ok E" and "buffers_ok E" and "tun_ok E"
  shows "list_all session_held ss \<Longrightarrow> live ss evs \<Longrightarrow> defined (dispatch_events E n m evs ss cache w)"
proof (induction evs arbitrary: ss cache w)
  case (Cons ev evs)
  obtain target events where ev: "ev = (target, events)" by (cases ev)
  have "defined (dispatch_event E n m target events ss cache w)"
    by (rule dispatch_event_defined [OF assms(2,3) Cons.prems(1)]) (use Cons.prems(2) ev in \<open>auto simp: live_def\<close>)
  then obtain e ss1 cache1 w1 where d: "dispatch_event E n m target events ss cache w = Some (e, ss1, cache1, w1)"
    by (auto simp: good_def)
  have "list_all session_held ss1"
    using held_sessions.dispatch_event_keeps [OF assms(1) Cons.prems(1), THEN yieldsD, OF d] by simp
  moreover have "live ss1 evs"
    using grows_ptrs dispatch_event_grows [OF assms(1) grows_refl, THEN yieldsD, OF d] Cons.prems(2) ev
    by (fastforce simp: live_def)
  ultimately show ?case using Cons.IH d ev by simp
qed simp

text \<open>An event that names a session which is not in the list after the check of this turn.\<close>

definition stray_turn :: "env \<Rightarrow> int \<Rightarrow> loop_state \<Rightarrow> world \<Rightarrow> bool" where
  "stray_turn E maxsessions m w =
     (case loop_check E maxsessions m w of (n, t, r, m, w) \<Rightarrow>
        (case e_poll E (w_calls w) of PollError e \<Rightarrow> False | PollReady evs \<Rightarrow> \<not> live (m_sessions m) evs))"

lemma loop_turn_defined:
  assumes "poll_ok E" and "buffers_ok E" and "tun_ok E" and "list_all session_held (m_sessions m)"
    and "\<not> stray_turn E maxsessions m w"
  shows "defined (loop_turn E maxsessions m w)"
proof -
  obtain n t r m1 w1 where c: "loop_check E maxsessions m w = (n, t, r, m1, w1)" by (metis prod.exhaust)
  have held: "list_all session_held (m_sessions m1)" by (rule held_sessions.loop_check_keeps [OF assms(4) c])
  have "w_calls (emit e w1) = w_calls w1" for e by (simp add: emit_def)
  then show ?thesis using assms(5) held dispatch_events_defined [OF assms(1-3) held]
    by (auto simp: loop_turn_def c ask_def stray_turn_def Let_def split: poll_result.splits intro!: good_defined)
qed

section \<open>Runs\<close>

inductive stray_event :: "env \<Rightarrow> int \<Rightarrow> loop_state \<Rightarrow> world \<Rightarrow> bool" where
  here: "\<not> e_stopping E (w_calls w) \<Longrightarrow> stray_turn E maxsessions m (called w) \<Longrightarrow> stray_event E maxsessions m w"
| later: "\<not> e_stopping E (w_calls w) \<Longrightarrow> loop_turn E maxsessions m (called w) = Some (True, m', w') \<Longrightarrow>
    stray_event E maxsessions m' w' \<Longrightarrow> stray_event E maxsessions m w"

lemma turn_undefined_stray:
  assumes "turn_undefined E maxsessions m w" and "poll_ok E" and "buffers_ok E" and "tun_ok E"
    and "list_all session_held (m_sessions m)"
  shows "stray_event E maxsessions m w"
  using assms
proof (induction rule: turn_undefined.induct)
  case (here E w maxsessions m)
  then have "\<not> defined (loop_turn E maxsessions m (called w))" by (simp add: good_def)
  then have "stray_turn E maxsessions m (called w)" using loop_turn_defined here.prems by blast
  then show ?case using here.hyps(1) by (rule stray_event.here [rotated])
next
  case (later E w maxsessions m m' w')
  have "list_all session_held (m_sessions m')"
    using held_sessions.loop_turn_keeps [OF later.prems(1,4), THEN yieldsD, OF later.hyps(2)] by simp
  then show ?case using later by (intro stray_event.later [OF later.hyps(1,2)]) simp
qed

interpretation held_engine: session_machine engine_init engine_step "\<lambda>m. list_all session_held (m_sessions m)" "\<lambda>m. 0 :: nat"
  by unfold_locales (auto simp: engine_init.simps intro: held_sessions.engine_step_keeps)

section \<open>Properties\<close>



section \<open>Instances\<close>

text \<open>A SYN with the option MSS, and an environment in which one arrives whenever the tun device is read.\<close>

definition example_syn_packet :: bytes where
  "example_syn_packet =
     [0x45, 0, 0, 44, 0, 0, 0, 0, 64, 6, 0, 0, 10, 1, 10, 1, 1, 2, 3, 4,
      15, 160, 0, 80, 0, 0, 0, 100, 0, 0, 0, 0, 0x60, 2, 1, 0, 0, 0, 0, 0, 2, 4, 5, 180]"

lemma example_syn_packet_ok:
  assumes "buf = example_syn_packet @ rest"
  shows "packet_ok buf 44"
  unfolding assms
  by (simp add: packet_ok_def transport_ok_def example_syn_packet_def nth_append options_sound.simps Let_def
      bit_simps unat_eq_zero)


definition syn_env :: env where
  "syn_env = example_env\<lparr>e_stopping := \<lambda>k. False, e_poll := \<lambda>k. PollReady [(OnTun, EPOLLIN)],
     e_readable := \<lambda>k s. s = 5, e_tun_read := \<lambda>k. RecvData example_syn_packet\<rparr>"


end
