(* ===== verification/Ng_Clock.thy ===== *)
theory Ng_Clock
  imports Ng_Types "HOL-Library.Log_Nat"
begin

text \<open>
  \<open>get_ms\<close> of util.c. The milliseconds of \<open>tv_nsec\<close> are a double, which is added to the milliseconds of
  \<open>tv_sec\<close> as a double before the sum becomes an integer again. A double that is not negative is a multiple
  of \<open>2^-72\<close> here, which is exact: the smallest one that occurs, 1 ns, is above \<open>2^-20\<close> and has 53 bits.
\<close>

text \<open>The nearest integer to \<open>p / q\<close>, ties to even, and the nearest number with 53 bits.\<close>

definition half_even :: "nat \<Rightarrow> nat \<Rightarrow> nat" where
  "half_even p q =
     (let d = p div q; r = p mod q in if 2 * r < q \<or> 2 * r = q \<and> even d then d else d + 1)"

definition double_exp :: "nat \<Rightarrow> nat" where
  "double_exp n = floorlog 2 n - 53"

definition to_double :: "nat \<Rightarrow> nat \<Rightarrow> nat" where
  "to_double p q = (let e = double_exp (p div q) in half_even p (q * 2 ^ e) * 2 ^ e)"

definition get_ms :: "nat \<Rightarrow> nat \<Rightarrow> nat" where
  "get_ms tv_sec tv_nsec =
     (let s = to_double (tv_sec * 1000 * 2 ^ 72) 1;
          n = to_double (tv_nsec * 2 ^ 72) (10 ^ 6)
      in to_double (s + n) 1 div 2 ^ 72)"

section \<open>Rounding\<close>

lemma half_even_ge: "p div q \<le> half_even p q"
  by (simp add: half_even_def Let_def)

lemma half_even_le: "0 < q \<Longrightarrow> 2 * (half_even p q * q) \<le> 2 * p + q"
proof -
  assume "0 < q"
  have p: "2 * p = 2 * (p div q * q) + 2 * (p mod q)" by (metis distrib_left mult_2 div_mult_mod_eq add_mult_distrib2)
  show ?thesis
    unfolding half_even_def Let_def using p by (auto simp: algebra_simps)
qed

lemma half_even_exact: "q dvd p \<Longrightarrow> 0 < q \<Longrightarrow> half_even p q * q = p"
  by (simp add: half_even_def)

lemma double_exp_le: "n < 2 ^ (53 + k) \<Longrightarrow> double_exp n \<le> k"
  by (simp add: double_exp_def floorlog_le_iff le_diff_conv add.commute)

text \<open>A multiple of a power of two that is coarse enough is not passed.\<close>

lemma to_double_ge:
  assumes "N * 2 ^ k * q \<le> p" and "0 < q" and "double_exp (p div q) \<le> k"
  shows "N * 2 ^ k \<le> to_double p q"
proof -
  let ?e = "double_exp (p div q)"
  have k: "(2 :: nat) ^ k = 2 ^ (k - ?e) * 2 ^ ?e" using assms(3) by (simp add: power_add [symmetric])
  have "N * 2 ^ (k - ?e) * (q * 2 ^ ?e) \<le> p" using assms(1) k by (simp add: ac_simps)
  then have "N * 2 ^ (k - ?e) \<le> p div (q * 2 ^ ?e)" using assms(2) by (simp add: less_eq_div_iff_mult_less_eq)
  then have "N * 2 ^ (k - ?e) \<le> half_even p (q * 2 ^ ?e)" using half_even_ge le_trans by blast
  then show ?thesis unfolding k to_double_def Let_def by (simp add: mult.assoc [symmetric])
qed

lemma to_double_le:
  assumes "0 < q" and "double_exp (p div q) \<le> k"
  shows "2 * (to_double p q * q) \<le> 2 * p + q * 2 ^ k"
proof -
  let ?e = "double_exp (p div q)"
  have "2 * (half_even p (q * 2 ^ ?e) * (q * 2 ^ ?e)) \<le> 2 * p + q * 2 ^ ?e"
    using assms(1) by (intro half_even_le) simp
  also have "\<dots> \<le> 2 * p + q * 2 ^ k" using assms(2) by simp
  finally show ?thesis by (simp add: to_double_def Let_def ac_simps)
qed

section \<open>The clock\<close>

text \<open>Up to an uptime of \<open>2^32\<close> seconds the milliseconds are those of the clock, except that the last 489 ns of
  a millisecond may already count as the next.\<close>

theorem get_ms_close:
  assumes "tv_sec < 2 ^ 32" and "tv_nsec < 10 ^ 9"
  shows "(tv_sec * 10 ^ 9 + tv_nsec) div 10 ^ 6 \<le> get_ms tv_sec tv_nsec"
    and "get_ms tv_sec tv_nsec \<le> (tv_sec * 10 ^ 9 + tv_nsec + 489) div 10 ^ 6"
proof -
  let ?u = "2 ^ 72 :: nat"
  let ?n = "to_double (tv_nsec * ?u) (10 ^ 6)" and ?s = "tv_sec * 1000 * ?u"
  have "double_exp ?s \<le> 61" by (rule double_exp_le) (use assms(1) in simp)
  then have "2 ^ double_exp ?s dvd ?u" by (intro le_imp_power_dvd) simp
  then have "2 ^ double_exp ?s dvd ?s" by (rule dvd_mult)
  then have s: "to_double ?s 1 = ?s"
    by (simp only: to_double_def Let_def div_by_1 mult_1 half_even_exact zero_less_power zero_less_numeral)
  have en: "double_exp (tv_nsec * ?u div 10 ^ 6) \<le> 29"
    by (intro double_exp_le less_mult_imp_div_less) (use assms(2) in simp)
  have "tv_nsec div 10 ^ 6 * 10 ^ 6 * ?u \<le> tv_nsec * ?u" by (intro mult_le_mono1 div_times_less_eq_dividend)
  then have n: "tv_nsec div 10 ^ 6 * ?u \<le> ?n" "2 * (?n * 10 ^ 6) \<le> 2 * (tv_nsec * ?u) + 10 ^ 6 * 2 ^ 29"
    using en by (intro to_double_ge to_double_le; simp add: ac_simps)+
  then have "?s + ?n < 2 ^ (53 + 62)" using assms by simp
  then have es: "double_exp ((?s + ?n) div 1) \<le> 62" by (intro double_exp_le) simp
  have ms: "get_ms tv_sec tv_nsec = to_double (?s + ?n) 1 div ?u" by (simp only: get_ms_def Let_def s)
  have N: "(tv_sec * 10 ^ 9 + tv_nsec) div 10 ^ 6 = tv_sec * 1000 + tv_nsec div 10 ^ 6"
    using div_mult_self1 [of "10 ^ 6" tv_nsec "tv_sec * 1000"] by simp
  have "(tv_sec * 1000 + tv_nsec div 10 ^ 6) * ?u \<le> to_double (?s + ?n) 1"
    using n(1) es by (intro to_double_ge) (simp_all add: distrib_right)
  then show "(tv_sec * 10 ^ 9 + tv_nsec) div 10 ^ 6 \<le> get_ms tv_sec tv_nsec"
    unfolding ms N by (simp add: less_eq_div_iff_mult_less_eq)
  have "2 * to_double (?s + ?n) 1 \<le> 2 * (?s + ?n) + 2 ^ 62" using to_double_le [OF _ es] by simp
  then have "10 ^ 6 * to_double (?s + ?n) 1 \<le> (tv_sec * 10 ^ 9 + tv_nsec + 489) * ?u" using n(2) by simp
  moreover have "get_ms tv_sec tv_nsec * ?u \<le> to_double (?s + ?n) 1" unfolding ms by (rule div_times_less_eq_dividend)
  ultimately have "get_ms tv_sec tv_nsec * 10 ^ 6 \<le> tv_sec * 10 ^ 9 + tv_nsec + 489" by simp
  then show "get_ms tv_sec tv_nsec \<le> (tv_sec * 10 ^ 9 + tv_nsec + 489) div 10 ^ 6"
    by (simp add: less_eq_div_iff_mult_less_eq)
qed

text \<open>So a difference of more than \<open>d\<close> milliseconds (100 for the check of the sessions and the keep alives) is
  one of at least \<open>d\<close> milliseconds of the clock, up to 489 ns.\<close>

theorem get_ms_elapsed:
  assumes "s1 < 2 ^ 32" and "n1 < 10 ^ 9" and "s2 < 2 ^ 32" and "n2 < 10 ^ 9" and "get_ms s1 n1 + d < get_ms s2 n2"
  shows "s1 * 10 ^ 9 + n1 + d * 10 ^ 6 < s2 * 10 ^ 9 + n2 + 489"
proof -
  have "(s1 * 10 ^ 9 + n1) div 10 ^ 6 + d + 1 \<le> (s2 * 10 ^ 9 + n2 + 489) div 10 ^ 6"
    using get_ms_close [OF assms(1,2)] get_ms_close [OF assms(3,4)] assms(5) by linarith
  then have "((s1 * 10 ^ 9 + n1) div 10 ^ 6 + d + 1) * 10 ^ 6 \<le> s2 * 10 ^ 9 + n2 + 489"
    by (simp add: less_eq_div_iff_mult_less_eq)
  moreover have "(s1 * 10 ^ 9 + n1) mod 10 ^ 6 < 10 ^ 6" by simp
  then have "s1 * 10 ^ 9 + n1 < (s1 * 10 ^ 9 + n1) div 10 ^ 6 * 10 ^ 6 + 10 ^ 6"
    using div_mult_mod_eq [of "s1 * 10 ^ 9 + n1" "10 ^ 6"] by linarith
  ultimately show ?thesis by (simp only: distrib_right mult_1)
qed

text \<open>After 231 days the milliseconds do run ahead.\<close>

lemma double_expI: "2 ^ (52 + e) \<le> n \<Longrightarrow> n < 2 ^ (53 + e) \<Longrightarrow> double_exp n = e"
  using floorlog_leI [of n 2 "53 + e"] floorlog_geI [of 2 "53 + e" n] by (simp add: double_exp_def)

lemma get_ms_ahead: "get_ms 20000000 999999 = 20000000001"
proof -
  have e: "double_exp (999999 * 2 ^ 72 div 10 ^ 6) = 19" "double_exp (20000000 * 1000 * 2 ^ 72) = 54"
    by (rule double_expI; simp)+
  have n: "to_double (999999 * 2 ^ 72) (10 ^ 6) = 9007190247541737 * 2 ^ 19"
    unfolding to_double_def e(1) Let_def by (simp add: half_even_def)
  have s: "to_double (20000000 * 1000 * 2 ^ 72) 1 = 20000000 * 1000 * 2 ^ 72"
    unfolding to_double_def div_by_1 e(2) Let_def by (simp add: half_even_def)
  have "double_exp (20000000 * 1000 * 2 ^ 72 + 9007190247541737 * 2 ^ 19) = 54" by (rule double_expI; simp)
  then show ?thesis
    unfolding get_ms_def Let_def n s unfolding to_double_def Let_def div_by_1 by (simp add: half_even_def)
qed

end
